(* ===== verification/Rsg_Prelude.thy ===== *)
theory Rsg_Prelude
  imports Complex_Main "HOL-Library.Word"
begin

text \<open>
  Shared types and automation of the development: the named theorem collections, the
  machine types of the C++ sources (bytes, 32 and 64 bit integers, doubles), C strings,
  the unordered maps of the standard library as association lists with unique keys, and
  the generic lemmas on them that the component theories use.
\<close>

section \<open>Theorem collections\<close>

named_theorems umap_simps \<open>laws of the unordered map operations\<close>
named_theorems handler_defs \<open>definitions of the decision handler's cases\<close>
named_theorems command_defs \<open>definitions of the command server's operations\<close>

section \<open>Machine types\<close>

type_synonym byte = "8 word"
type_synonym bytes = "8 word list"
type_synonym u16 = "16 word"
type_synonym u32 = "32 word"
type_synonym u64 = "64 word"

text \<open>
  A C++ \<^verbatim>\<open>double\<close> is a rational number, an infinity or not a number. The sources only
  compare doubles with zero and pass them on, so no rounding is involved.
\<close>

datatype double = Not_a_number | Plus_infinity | Minus_infinity | Finite rat

fun double_ge0 :: "double \<Rightarrow> bool" where
  "double_ge0 Not_a_number = False"
| "double_ge0 Plus_infinity = True"
| "double_ge0 Minus_infinity = False"
| "double_ge0 (Finite q) = (0 \<le> q)"

fun double_gt0 :: "double \<Rightarrow> bool" where
  "double_gt0 Not_a_number = False"
| "double_gt0 Plus_infinity = True"
| "double_gt0 Minus_infinity = False"
| "double_gt0 (Finite q) = (0 < q)"

lemma double_gt0_ge0 [simp]: "double_gt0 d \<Longrightarrow> double_ge0 d"
  by (cases d) auto

text \<open>Conversion of a wider integer to \<^verbatim>\<open>int\<close> (two's complement, 32 bits).\<close>

definition to_int32 :: "int \<Rightarrow> int" where
  "to_int32 i = signed_take_bit 31 i"

lemma to_int32_id [simp]: "- (2 ^ 31) \<le> i \<Longrightarrow> i < 2 ^ 31 \<Longrightarrow> to_int32 i = i"
  by (simp add: to_int32_def signed_take_bit_int_eq_self)

text \<open>\<^verbatim>\<open>std::string(s.c_str())\<close> keeps what stands before the first NUL.\<close>

definition c_str :: "string \<Rightarrow> string" where
  "c_str s = takeWhile (\<lambda>c. c \<noteq> CHR 0x00) s"

lemma c_str_idem [simp]: "c_str (c_str s) = c_str s"
  by (auto simp: c_str_def takeWhile_eq_all_conv dest: set_takeWhileD)

text \<open>
  An \<^verbatim>\<open>rsg::Error\<close> is identified by the format string it is thrown with.
\<close>

type_synonym rsg_error = string

section \<open>Unordered maps\<close>

text \<open>
  \<^verbatim>\<open>std::unordered_map\<close> as an association list with unique keys. The iteration order
  of the C++ container is unspecified; the list is one order, and facts that depend on
  iteration are stated for every order. \<^verbatim>\<open>insert\<close> does not overwrite.
\<close>

type_synonym ('k, 'v) umap = "('k \<times> 'v) list"

definition umap_ok :: "('k, 'v) umap \<Rightarrow> bool" where
  "umap_ok m \<longleftrightarrow> distinct (map fst m)"

definition umap_find :: "('k, 'v) umap \<Rightarrow> 'k \<Rightarrow> 'v option" where
  "umap_find m k = map_of m k"

definition umap_insert :: "'k \<Rightarrow> 'v \<Rightarrow> ('k, 'v) umap \<Rightarrow> ('k, 'v) umap" where
  "umap_insert k v m = (if k \<in> fst ` set m then m else (k, v) # m)"

definition umap_set :: "'k \<Rightarrow> 'v \<Rightarrow> ('k, 'v) umap \<Rightarrow> ('k, 'v) umap" where
  \<comment> \<open>assignment through an iterator or a stored pointer: the key is present\<close>
  "umap_set k v m = map (\<lambda>(k', v'). if k' = k then (k', v) else (k', v')) m"

definition umap_erase :: "'k \<Rightarrow> ('k, 'v) umap \<Rightarrow> ('k, 'v) umap" where
  "umap_erase k m = filter (\<lambda>kv. fst kv \<noteq> k) m"

lemma umap_find_dom: "umap_find m k = None \<longleftrightarrow> k \<notin> fst ` set m"
  by (simp add: umap_find_def map_of_eq_None_iff)

lemma umap_find_insert [umap_simps]:
  "umap_find (umap_insert k v m) k' =
     (if k' = k \<and> umap_find m k = None then Some v else umap_find m k')"
  by (auto simp: umap_insert_def umap_find_def map_of_eq_None_iff)

lemma umap_find_set [umap_simps]:
  "umap_find (umap_set k v m) k' =
     (if k' = k \<and> umap_find m k \<noteq> None then Some v else umap_find m k')"
  by (induction m) (auto simp: umap_set_def umap_find_def)

lemma umap_find_erase [umap_simps]:
  "umap_find (umap_erase k m) k' = (if k' = k then None else umap_find m k')"
  by (induction m) (auto simp: umap_erase_def umap_find_def)

lemma fst_umap_set [simp]: "map fst (umap_set k v m) = map fst m"
  by (induction m) (auto simp: umap_set_def)

lemma length_umap_set [simp]: "length (umap_set k v m) = length m"
  by (simp add: umap_set_def)

lemma umap_ok_insert [simp, intro]: "umap_ok m \<Longrightarrow> umap_ok (umap_insert k v m)"
  by (auto simp: umap_ok_def umap_insert_def)

lemma umap_ok_set [simp]: "umap_ok (umap_set k v m) = umap_ok m"
  by (simp add: umap_ok_def)

lemma umap_ok_erase [simp, intro]: "umap_ok m \<Longrightarrow> umap_ok (umap_erase k m)"
  unfolding umap_ok_def umap_erase_def by (rule distinct_map_filter)

lemma length_umap_insert:
  "length (umap_insert k v m) = (if umap_find m k = None then Suc (length m) else length m)"
  by (simp add: umap_insert_def umap_find_dom)

lemma keys_umap_insert: "fst ` set (umap_insert k v m) = insert k (fst ` set m)"
  by (auto simp: umap_insert_def)

lemma keys_umap_set [simp]: "fst ` set (umap_set k v m) = fst ` set m"
  by (metis fst_umap_set set_map)

lemma umap_find_set_iff: "umap_ok m \<Longrightarrow> (k, v) \<in> set m \<longleftrightarrow> umap_find m k = Some v"
  by (simp add: umap_ok_def umap_find_def)

section \<open>Counting the entries that satisfy a predicate\<close>

definition umap_count :: "('v \<Rightarrow> bool) \<Rightarrow> ('k, 'v) umap \<Rightarrow> nat" where
  "umap_count P m = length (filter (\<lambda>kv. P (snd kv)) m)"

lemma umap_count_le: "umap_count P m \<le> length m"
  by (simp add: umap_count_def)

lemma umap_count_insert:
  "umap_find m k = None \<Longrightarrow>
     umap_count P (umap_insert k v m) = umap_count P m + (if P v then 1 else 0)"
  by (simp add: umap_count_def umap_insert_def umap_find_dom)

lemma umap_count_set:
  assumes "umap_ok m" "umap_find m k = Some v" "\<not> P v" "P v'"
  shows "umap_count P (umap_set k v' m) = Suc (umap_count P m)"
  using assms
proof (induction m)
  case (Cons kv m)
  obtain k1 v1 where kv: "kv = (k1, v1)" by (cases kv)
  show ?case
  proof (cases "k1 = k")
    case True
    with Cons.prems kv have "k \<notin> fst ` set m" by (auto simp: umap_ok_def)
    then have "umap_set k v' m = m" by (induction m) (auto simp: umap_set_def)
    moreover have "umap_set k v' (kv # m) = (k, v') # umap_set k v' m"
      using kv True by (simp add: umap_set_def)
    ultimately show ?thesis
      using Cons.prems kv True by (simp add: umap_count_def umap_find_def)
  next
    case False
    with Cons kv show ?thesis
      by (simp add: umap_ok_def umap_find_def umap_count_def umap_set_def)
  qed
qed (simp add: umap_find_def)

lemma umap_count_all: "umap_count P m = length m \<longleftrightarrow> (\<forall>kv \<in> set m. P (snd kv))"
proof
  assume "umap_count P m = length m"
  then show "\<forall>kv \<in> set m. P (snd kv)"
    unfolding umap_count_def by (metis (no_types, lifting) length_filter_less nat_less_le)
qed (simp add: umap_count_def)

end
