(* ===== verification/Protocol.thy ===== *)
theory Protocol
  imports Rsg_Prelude
begin

text \<open>
  The messages of \<^verbatim>\<open>src/rsg.proto\<close>: commands and their acknowledgments (exchanged
  with the command thread), decisions and their acknowledgments (exchanged with a simulated
  actor). A protobuf \<^verbatim>\<open>oneof\<close> is a datatype with one constructor per field, plus
  the unset case. Reading a field of a \<^verbatim>\<open>oneof\<close> that is not the one set yields the
  field's default value, as \<open>mutexunlock\<close> below does.

  Names and messages are C++ byte strings (\<^typ>\<open>string\<close>), transferred payloads are lists
  of bytes, remote object addresses are 64 bit words and actor identifiers are \<^verbatim>\<open>int32\<close>
  values, modelled as integers.
\<close>

section \<open>Commands\<close>

datatype command =
    KAddActor string string   \<comment> \<open>actorName, hostName\<close>
  | KStart bool
  | KKill string
  | KStatus bool
  | KConnect int
  | Command_type_not_set

record command_ack =
  ack_success :: bool
  ack_actor :: "int option"      \<comment> \<open>only set by an ADD-ACTOR acknowledgment\<close>
  ack_status :: "u32 option"     \<comment> \<open>nbConnectedActors, only set by a STATUS acknowledgment\<close>

definition command_ack0 :: command_ack where
  "command_ack0 = \<lparr>ack_success = False, ack_actor = None, ack_status = None\<rparr>"

section \<open>Decisions\<close>

datatype (plugins only: code size) decision_type =
    KQuit bool
  | KThisActorExecute double
  | KThisActorSleepFor double
  | KThisActorSleepUntil double
  | KThisActorYield bool
  | KActorGetName int
  | KActorGetHost int
  | KActorJoin int double
  | KActorCreate string string          \<comment> \<open>name, host name\<close>
  | KCommRefcountDecrease u64
  | KCommWaitFor u64 double
  | KCommCancel u64
  | KCommTest u64
  | KCommWaitAnyFor "u64 list" double
  | KEngineGetClock bool
  | KHostByNameOrNull string
  | KHostCurrent bool
  | KMailboxEmpty string
  | KMailboxListen string
  | KMailboxReady string
  | KMailboxPut string bytes u64         \<comment> \<open>mailbox, data, simulatedSize\<close>
  | KMailboxPutAsync string bytes u64
  | KMailboxGet string
  | KMailboxGetAsync string
  | KMutexCreate bool
  | KMutexRefcountDecrease u64
  | KMutexLock u64
  | KMutexUnlock u64
  | KMutexTryLock u64
  | KConditionVariableCreate bool
  | KConditionVariableRefcountDecrease u64
  | KConditionVariableWait u64 u64       \<comment> \<open>condition variable, mutex\<close>
  | KConditionVariableWaitUntil u64 u64 double
  | KConditionVariableWaitFor u64 u64 double
  | KConditionVariableNotifyOne u64
  | KConditionVariableNotifyAll u64
  | Decision_type_not_set

record decision =
  think_time :: double
  type_case :: decision_type

text \<open>
  \<^verbatim>\<open>decision.mutexunlock().address()\<close>: the address of the mutex in the field
  \<^verbatim>\<open>mutexUnlock\<close>, and the default address 0 when another field is set.
\<close>

definition mutexunlock :: "decision_type \<Rightarrow> u64" where
  "mutexunlock d = (case d of KMutexUnlock a \<Rightarrow> a | _ \<Rightarrow> 0)"

datatype cv_status = No_timeout | Timeout

datatype ack_data =
    A_actorGetName string
  | A_actorGetHost string
  | A_actorCreate int
  | A_commWaitFor bool bytes             \<comment> \<open>timeoutReached, data\<close>
  | A_commTest bool bytes                \<comment> \<open>isTerminated, data\<close>
  | A_commWaitAnyFor int bytes           \<comment> \<open>finishedCommIndex, data\<close>
  | A_engineGetClock double
  | A_hostCurrent string
  | A_mailboxPutAsync u64
  | A_mailboxGet bytes
  | A_mailboxGetAsync u64
  | A_mutexCreate u64
  | A_mutexTryLock bool
  | A_conditionVariableCreate u64
  | A_conditionVariableWaitFor cv_status
  | A_conditionVariableWaitUntil cv_status
  | A_data_not_set

record decision_ack =
  success :: bool
  ack_data :: ack_data

definition decision_ack0 :: decision_ack where
  "decision_ack0 = \<lparr>success = False, ack_data = A_data_not_set\<rparr>"

text \<open>The bytes of received messages that an acknowledgment carries to the client.\<close>

fun ack_payload :: "ack_data \<Rightarrow> bytes" where
  "ack_payload (A_commWaitFor _ d) = d"
| "ack_payload (A_commTest _ d) = d"
| "ack_payload (A_commWaitAnyFor _ d) = d"
| "ack_payload (A_mailboxGet d) = d"
| "ack_payload _ = []"

end
