(* ===== verification/Interthread.thy ===== *)
theory Interthread
  imports Protocol
begin

text \<open>
  The messages the command thread and the simulation thread exchange
  (\<^verbatim>\<open>src/rsg/interthread_messaging.hpp\<close> and \<^verbatim>\<open>.cpp\<close>). A message is its type together with
  the content that the sender of this type attaches; the C++ code casts the content by the
  type. Sockets and queues are identified by numbers (their addresses).
\<close>

type_synonym socket = nat
type_synonym queue = nat

datatype im_type =
    UNDEFINED
  | START_SIMULATION | ACTOR_CREATE_ACK | ACTOR_CONNECTED
  | SIMULATION_FINISHED | SIMULATION_ABORTED | ACTOR_QUIT | ACTOR_CREATE

datatype interthread_message =
    Im_undefined
  | Im_start_simulation
  | Im_actor_create_ack
  | Im_actor_connected socket
  | Im_simulation_finished
  | Im_simulation_aborted int rsg_error   \<comment> \<open>the reason: actor identifier, error\<close>
  | Im_launch_aborted int string          \<comment> \<open>the reason: actor identifier, unknown host\<close>
  | Im_actor_quit socket
  | Im_actor_create int queue queue       \<comment> \<open>actor id, can-connect queue, connect queue\<close>

fun message_type :: "interthread_message \<Rightarrow> im_type" where
  "message_type Im_undefined = UNDEFINED"
| "message_type Im_start_simulation = START_SIMULATION"
| "message_type Im_actor_create_ack = ACTOR_CREATE_ACK"
| "message_type (Im_actor_connected s) = ACTOR_CONNECTED"
| "message_type Im_simulation_finished = SIMULATION_FINISHED"
| "message_type (Im_simulation_aborted i e) = SIMULATION_ABORTED"
| "message_type (Im_launch_aborted i h) = SIMULATION_ABORTED"
| "message_type (Im_actor_quit s) = ACTOR_QUIT"
| "message_type (Im_actor_create i q r) = ACTOR_CREATE"

fun interthread_message_type_to_string :: "im_type \<Rightarrow> string" where
  "interthread_message_type_to_string UNDEFINED = ''UNDEFINED''"
| "interthread_message_type_to_string START_SIMULATION = ''START_SIMULATION''"
| "interthread_message_type_to_string ACTOR_CREATE_ACK = ''ACTOR_CREATE_ACK''"
| "interthread_message_type_to_string ACTOR_CONNECTED = ''ACTOR_CONNECTED''"
| "interthread_message_type_to_string SIMULATION_FINISHED = ''SIMULATION_FINISHED''"
| "interthread_message_type_to_string SIMULATION_ABORTED = ''SIMULATION_ABORTED''"
| "interthread_message_type_to_string ACTOR_QUIT = ''ACTOR_QUIT''"
| "interthread_message_type_to_string ACTOR_CREATE = ''ACTOR_CREATE''"

lemma interthread_message_type_to_string_inj: "inj interthread_message_type_to_string"
proof (rule injI)
  fix x y assume "interthread_message_type_to_string x = interthread_message_type_to_string y"
  then show "x = y" by (cases x; cases y) simp_all
qed

section \<open>Waiting for a message\<close>

text \<open>
  \<^verbatim>\<open>wait_message_reception\<close> polls the queue and sleeps in between. What the queue answers
  (whether it is empty) and the sleep are parameters that change the state \<open>'k\<close> of everything else,
  in which the other thread pushes messages.
\<close>

partial_function (option) wait_message_reception :: "('k \<Rightarrow> bool \<times> 'k) \<Rightarrow> ('k \<Rightarrow> 'k) \<Rightarrow> 'k \<Rightarrow> 'k option" where
  "wait_message_reception queue_empty nanosleep k =
     (case queue_empty k of (is_empty, k') \<Rightarrow>
        if \<not> is_empty then Some k' else wait_message_reception queue_empty nanosleep (nanosleep k'))"

text \<open>The state in which the queue is polled for the \<open>n\<close>-th time.\<close>

fun poll :: "('k \<Rightarrow> bool \<times> 'k) \<Rightarrow> ('k \<Rightarrow> 'k) \<Rightarrow> nat \<Rightarrow> 'k \<Rightarrow> 'k" where
  "poll queue_empty nanosleep 0 k = k"
| "poll queue_empty nanosleep (Suc n) k = poll queue_empty nanosleep n (nanosleep (snd (queue_empty k)))"

lemma wait_until_poll:
  assumes "\<forall>m < n. fst (queue_empty (poll queue_empty nanosleep m k))" "\<not> fst (queue_empty (poll queue_empty nanosleep n k))"
  shows "wait_message_reception queue_empty nanosleep k = Some (snd (queue_empty (poll queue_empty nanosleep n k)))"
  using assms
proof (induction n arbitrary: k)
  case 0
  then show ?case by (subst wait_message_reception.simps) (auto split: prod.splits)
next
  case (Suc n)
  have "fst (queue_empty k)" using Suc.prems(1) by (metis poll.simps(1) zero_less_Suc)
  moreover have "\<forall>m < n. fst (queue_empty (poll queue_empty nanosleep m (nanosleep (snd (queue_empty k)))))"
    using Suc.prems(1) by (metis Suc_less_eq poll.simps(2))
  ultimately show ?case
    using Suc.IH [of "nanosleep (snd (queue_empty k))"] Suc.prems(2)
    by (subst wait_message_reception.simps) (simp add: case_prod_beta')
qed

lemma wait_result:
  assumes "wait_message_reception queue_empty nanosleep k = Some k'"
  shows "\<exists>n. \<not> fst (queue_empty (poll queue_empty nanosleep n k))"
  using assms
proof (rule wait_message_reception.raw_induct
    [where P = "\<lambda>e s k y. \<exists>n. \<not> fst (e (poll e s n k))", rotated])
  fix wait :: "('a \<Rightarrow> bool \<times> 'a) \<Rightarrow> ('a \<Rightarrow> 'a) \<Rightarrow> 'a \<Rightarrow> 'a option"
    and e :: "'a \<Rightarrow> bool \<times> 'a" and s :: "'a \<Rightarrow> 'a" and k y :: 'a
  assume IH: "\<And>e s k y. wait e s k = Some y \<Longrightarrow> \<exists>n. \<not> fst (e (poll e s n k))"
    and eq: "(case e k of (b, k') \<Rightarrow> if \<not> b then Some k' else wait e s (s k')) = Some y"
  show "\<exists>n. \<not> fst (e (poll e s n k))"
  proof (cases "fst (e k)")
    case True
    then have "wait e s (s (snd (e k))) = Some y" using eq by (simp add: case_prod_beta')
    from IH [OF this] obtain n where "\<not> fst (e (poll e s n (s (snd (e k)))))" by blast
    then show ?thesis by (intro exI [of _ "Suc n"]) simp
  next
    case False
    then show ?thesis by (intro exI [of _ 0]) simp
  qed
qed

text \<open>C30: waiting for a message returns exactly when a poll finds the queue non-empty, at the first such
  poll; when no message ever comes it never returns (there is no timeout).\<close>

theorem wait_returns_at_first_message:
  "case wait_message_reception queue_empty nanosleep k of
     None \<Rightarrow> (\<nexists>n. \<not> fst (queue_empty (poll queue_empty nanosleep n k)))
   | Some k' \<Rightarrow> (\<exists>n. \<not> fst (queue_empty (poll queue_empty nanosleep n k)) \<and> k' = snd (queue_empty (poll queue_empty nanosleep n k)) \<and>
       filter (\<lambda>m. \<not> fst (queue_empty (poll queue_empty nanosleep m k))) [0..<n] = [])"
proof (cases "\<exists>n. \<not> fst (queue_empty (poll queue_empty nanosleep n k))")
  case True
  then obtain n where n: "\<not> fst (queue_empty (poll queue_empty nanosleep n k))" "\<forall>m < n. fst (queue_empty (poll queue_empty nanosleep m k))"
    using exists_least_iff [of "\<lambda>n. \<not> fst (queue_empty (poll queue_empty nanosleep n k))"] by blast
  show ?thesis unfolding wait_until_poll [OF n(2,1)] using n by (auto intro!: exI [of _ n] simp: filter_empty_conv)
next
  case False
  then have "wait_message_reception queue_empty nanosleep k = None"
    using wait_result [of queue_empty nanosleep k] by (cases "wait_message_reception queue_empty nanosleep k") blast+
  with False show ?thesis by simp
qed

end
