(* ===== verification/Command_Server.thy ===== *)
theory Command_Server
  imports Interthread
begin

text \<open>
  The command thread of the server: \<^verbatim>\<open>handle_command\<close> of \<^verbatim>\<open>src/rsg/serve.cpp\<close> with the
  state it works on (the server state, the expected client connections, the number of
  connected actors), and the registration of dynamically created actors. What a command does to
  the outside is a list of effects. The theory proves the life cycle of the server: when the
  simulation is launched, with which actors, and who may connect.
\<close>

section \<open>State\<close>

datatype server_state =
    ACCEPTING_NEW_ACTORS
  | WAITING_FOR_ALL_ACTORS_CONNECTION
  | SIMULATION_RUNNING
  | SIMULATION_FINISHED
  | KILLED

fun server_state_to_string :: "server_state \<Rightarrow> string" where
  "server_state_to_string ACCEPTING_NEW_ACTORS = ''ACCEPTING_NEW_ACTORS''"
| "server_state_to_string WAITING_FOR_ALL_ACTORS_CONNECTION = ''WAITING_FOR_ALL_ACTORS_CONNECTION''"
| "server_state_to_string SIMULATION_RUNNING = ''SIMULATION_RUNNING''"
| "server_state_to_string SIMULATION_FINISHED = ''SIMULATION_FINISHED''"
| "server_state_to_string KILLED = ''KILLED''"

record actor_connection =
  actor_name :: string
  host_name :: string
  actor_id :: int
  conn_socket :: "socket option"       \<comment> \<open>None for null\<close>
  connect_ack :: "queue option"

definition new_connection :: actor_connection where
  "new_connection = \<lparr>actor_name = ''unset'', host_name = ''unset'', actor_id = -1,
     conn_socket = None, connect_ack = None\<rparr>"

type_synonym connections = "(int, actor_connection) umap"

record command_state =
  server_state :: server_state
  actor_connections :: connections
  nb_connected_actors :: u32

definition init_command_state :: command_state where
  "init_command_state = \<lparr>server_state = ACCEPTING_NEW_ACTORS, actor_connections = [],
     nb_connected_actors = 0\<rparr>"

text \<open>
  The effects: \<^verbatim>\<open>start_simulation_in_another_thread\<close> with the connections as they are, a push
  on an inter-thread queue, the acknowledgment to the client.
\<close>

datatype effect =
    Start_simulation connections
  | Push queue interthread_message
  | Write_ack socket command_ack

section \<open>The commands\<close>

text \<open>
  Each case of the switch: an error, or the acknowledgment, the flag \<^verbatim>\<open>drop_client\<close>, the
  effects before the acknowledgment is written, and the new state.
\<close>

type_synonym command_result = "rsg_error + command_ack \<times> bool \<times> effect list \<times> command_state"

definition ack_success_of :: "bool \<Rightarrow> command_ack" where
  "ack_success_of b = command_ack0\<lparr>ack_success := b\<rparr>"

definition all_connected :: "command_state \<Rightarrow> bool" where
  "all_connected cs \<longleftrightarrow> unat (nb_connected_actors cs) = length (actor_connections cs)"

definition handle_add_actor :: "string \<Rightarrow> string \<Rightarrow> command_state \<Rightarrow> command_result" where
  "handle_add_actor name host cs =
     (if server_state cs \<noteq> ACCEPTING_NEW_ACTORS \<and> server_state cs \<noteq> KILLED
      then Inl ''Received an ADD_ACTOR command while the simulation state is '%s'. %s''
      else if server_state cs = KILLED then Inr (ack_success_of False, True, [], cs)
      else
        let i = to_int32 (int (length (actor_connections cs)) + 2);
            actor_connection = new_connection\<lparr>actor_name := c_str name, host_name := c_str host,
              actor_id := i\<rparr>
        in Inr ((ack_success_of True)\<lparr>ack_actor := Some i\<rparr>, True, [],
             cs\<lparr>actor_connections := umap_insert i actor_connection (actor_connections cs)\<rparr>))"

definition handle_start :: "command_state \<Rightarrow> command_result" where
  "handle_start cs =
     (if server_state cs \<noteq> ACCEPTING_NEW_ACTORS
      then Inl ''Received an ADD_ACTOR command while the simulation state is '%s'. %s''
      else if all_connected cs
      then Inr (ack_success_of True, True, [Start_simulation (actor_connections cs)],
             cs\<lparr>server_state := SIMULATION_RUNNING\<rparr>)
      else Inr (ack_success_of True, True, [],
             cs\<lparr>server_state := WAITING_FOR_ALL_ACTORS_CONNECTION\<rparr>))"

definition handle_kill :: "command_state \<Rightarrow> command_result" where
  "handle_kill cs = Inr (ack_success_of True, True, [], cs\<lparr>server_state := KILLED\<rparr>)"

definition handle_status :: "command_state \<Rightarrow> command_result" where
  "handle_status cs =
     Inr ((ack_success_of True)\<lparr>ack_status := Some (nb_connected_actors cs)\<rparr>, True, [], cs)"

text \<open>The socket is recorded; then the waiting dynamic actor is told, or the simulation starts.\<close>

definition connected_actor :: "socket \<Rightarrow> actor_connection \<Rightarrow> command_state \<Rightarrow> command_result" where
  "connected_actor issuer c cs =
     (if server_state cs = SIMULATION_RUNNING
      then (case connect_ack c of
              None \<Rightarrow> Inl ''Invalid dynamic client: No connect_ack message queue''
            | Some q \<Rightarrow> Inr (ack_success_of True, False, [Push q (Im_actor_connected issuer)], cs))
      else if server_state cs = WAITING_FOR_ALL_ACTORS_CONNECTION \<and> all_connected cs
      then Inr (ack_success_of True, False, [Start_simulation (actor_connections cs)],
             cs\<lparr>server_state := SIMULATION_RUNNING\<rparr>)
      else Inr (ack_success_of True, False, [], cs))"

definition handle_connect :: "int \<Rightarrow> socket \<Rightarrow> command_state \<Rightarrow> command_result" where
  "handle_connect i issuer cs =
     (if server_state cs \<notin> {ACCEPTING_NEW_ACTORS, WAITING_FOR_ALL_ACTORS_CONNECTION,
          SIMULATION_RUNNING, KILLED}
      then Inl ''Received a CONNECT command while the simulation state is '%s'. %s''
      else if server_state cs = KILLED then Inr (ack_success_of False, True, [], cs)
      else case umap_find (actor_connections cs) i of
          None \<Rightarrow> Inl ''Received a CONNECT command from an unknown actor id (%d). %s''
        | Some c \<Rightarrow>
            if conn_socket c \<noteq> None
            then Inl ''Received a CONNECT command from actor id %d, but a client is already connected to this actor. %s''
            else let c' = c\<lparr>conn_socket := Some issuer\<rparr>
                 in connected_actor issuer c'
                      (cs\<lparr>actor_connections := umap_set i c' (actor_connections cs),
                          nb_connected_actors := nb_connected_actors cs + 1\<rparr>))"

definition command_body :: "command \<Rightarrow> socket \<Rightarrow> command_state \<Rightarrow> command_result" where
  "command_body cmd issuer cs = (case cmd of
      KAddActor n h \<Rightarrow> handle_add_actor n h cs
    | KStart b \<Rightarrow> handle_start cs
    | KKill reason \<Rightarrow> handle_kill cs
    | KStatus b \<Rightarrow> handle_status cs
    | KConnect i \<Rightarrow> handle_connect i issuer cs
    | Command_type_not_set \<Rightarrow> Inl ''Received a command with unset command type. %s'')"

text \<open>The acknowledgment is written last: \<^verbatim>\<open>drop_client\<close>, the effects and the new state.\<close>

definition handle_command ::
    "command \<Rightarrow> socket \<Rightarrow> command_state \<Rightarrow> rsg_error + bool \<times> effect list \<times> command_state" where
  "handle_command cmd issuer cs = (case command_body cmd issuer cs of
      Inl e \<Rightarrow> Inl e
    | Inr (ack, drop_client, effs, cs') \<Rightarrow> Inr (drop_client, effs @ [Write_ack issuer ack], cs'))"

lemmas command_case_defs = handle_add_actor_def handle_start_def handle_kill_def handle_status_def
  handle_connect_def connected_actor_def

declare handle_add_actor_def [command_defs] handle_start_def [command_defs] handle_kill_def [command_defs]
  handle_status_def [command_defs] handle_connect_def [command_defs] connected_actor_def [command_defs]
  command_body_def [command_defs] handle_command_def [command_defs]

text \<open>
  An \<^verbatim>\<open>ACTOR_CREATE\<close> message of the simulation thread: a new connection is expected, and the
  creating actor is told so.
\<close>

definition register_actor ::
    "int \<Rightarrow> queue \<Rightarrow> queue \<Rightarrow> command_state \<Rightarrow> rsg_error + effect list \<times> command_state" where
  "register_actor i can_connect_ack connect cs =
     (if umap_find (actor_connections cs) i \<noteq> None then Inl ''actor_id=%d already exists''
      else Inr ([Push can_connect_ack Im_actor_create_ack],
        cs\<lparr>actor_connections := umap_insert i
             (new_connection\<lparr>actor_id := i, connect_ack := Some connect\<rparr>) (actor_connections cs)\<rparr>))"

text \<open>A message of the simulation thread: its effects and the new state (without the sockets, see \<open>Serve_Loop\<close>).\<close>

definition receive_report :: "interthread_message \<Rightarrow> command_state \<Rightarrow> rsg_error + effect list \<times> command_state" where
  "receive_report msg cs = (case msg of
      Im_simulation_finished \<Rightarrow> Inr ([], cs\<lparr>server_state := SIMULATION_FINISHED\<rparr>)
    | Im_simulation_aborted i e \<Rightarrow> Inr ([], cs\<lparr>server_state := SIMULATION_FINISHED\<rparr>)
    | Im_launch_aborted i h \<Rightarrow> Inr ([], cs\<lparr>server_state := SIMULATION_FINISHED\<rparr>)
    | Im_actor_quit p \<Rightarrow> Inr ([], cs)
    | Im_actor_create i can_connect_ack connect \<Rightarrow> register_actor i can_connect_ack connect cs
    | _ \<Rightarrow> Inl ''Unhandled interthread message type received (%d)'')"

section \<open>The life of the server\<close>

text \<open>
  The states the command thread reaches, with all the effects so far. The simulation only
  sends messages after it has been launched.
\<close>

inductive lives :: "command_state \<Rightarrow> effect list \<Rightarrow> bool" where
  lives_init: "lives init_command_state []"
| lives_command: "lives cs tr \<Longrightarrow> handle_command cmd sk cs = Inr (d, effs, cs') \<Longrightarrow>
    lives cs' (tr @ effs)"
| lives_create: "lives cs tr \<Longrightarrow> Start_simulation m \<in> set tr \<Longrightarrow>
    register_actor i q r cs = Inr (effs, cs') \<Longrightarrow> lives cs' (tr @ effs)"
| lives_finish: "lives cs tr \<Longrightarrow> Start_simulation m \<in> set tr \<Longrightarrow>
    lives (cs\<lparr>server_state := SIMULATION_FINISHED\<rparr>) tr"

definition is_start :: "effect \<Rightarrow> bool" where
  "is_start e = (case e of Start_simulation m \<Rightarrow> True | _ \<Rightarrow> False)"

definition launches :: "effect list \<Rightarrow> nat" where
  "launches tr = length (filter is_start tr)"

definition is_connected :: "actor_connection \<Rightarrow> bool" where
  "is_connected c \<longleftrightarrow> conn_socket c \<noteq> None"

text \<open>The identifiers of the initial actors.\<close>

definition initial_ids :: "connections \<Rightarrow> bool" where
  "initial_ids m \<longleftrightarrow> umap_ok m \<and> fst ` set m = {2..<2 + int (length m)} \<and>
     (\<forall>(i, c) \<in> set m. actor_id c = i)"

text \<open>The number of actors fits \<^verbatim>\<open>int\<close>.\<close>

definition fits :: "connections \<Rightarrow> bool" where
  "fits m \<longleftrightarrow> length m < 2 ^ 31 - 2"

definition counted :: "command_state \<Rightarrow> bool" where
  "counted cs \<longleftrightarrow> unat (nb_connected_actors cs) = umap_count is_connected (actor_connections cs)"

definition cs_ok :: "command_state \<Rightarrow> effect list \<Rightarrow> bool" where
  "cs_ok cs tr \<longleftrightarrow> umap_ok (actor_connections cs) \<and> counted cs \<and> launches tr \<le> 1 \<and>
     (launches tr = 0 \<longrightarrow> initial_ids (actor_connections cs)) \<and>
     (launches tr = 1 \<longrightarrow> (\<forall>i c. umap_find (actor_connections cs) i = Some c \<and> conn_socket c = None \<longrightarrow>
        connect_ack c \<noteq> None)) \<and>
     (server_state cs \<in> {ACCEPTING_NEW_ACTORS, WAITING_FOR_ALL_ACTORS_CONNECTION} \<longrightarrow> launches tr = 0) \<and>
     (server_state cs = WAITING_FOR_ALL_ACTORS_CONNECTION \<longrightarrow> \<not> all_connected cs) \<and>
     (server_state cs = SIMULATION_RUNNING \<longrightarrow> launches tr = 1)"

definition launch_ok :: "connections \<Rightarrow> bool" where
  "launch_ok m \<longleftrightarrow> initial_ids m \<and> fits m \<and> (\<forall>i c. umap_find m i = Some c \<longrightarrow> conn_socket c \<noteq> None)"

section \<open>The invariant\<close>

lemma launches_append [simp]: "launches (xs @ ys) = launches xs + launches ys"
  by (simp add: launches_def)

lemma launches_simps [simp]: "launches [] = 0"
  "launches (Start_simulation m # xs) = Suc (launches xs)"
  "launches (Push q im # xs) = launches xs" "launches (Write_ack sk a # xs) = launches xs"
  by (simp_all add: launches_def is_start_def)

lemma launches_pos: "Start_simulation m \<in> set tr \<Longrightarrow> 0 < launches tr"
  by (auto simp: launches_def is_start_def filter_empty_conv intro!: bexI)

lemma umap_find_mem: "umap_find m k = Some v \<Longrightarrow> (k, v) \<in> set m"
  by (simp add: umap_find_def map_of_SomeD)

lemma initial_ids_fresh: "initial_ids m \<Longrightarrow> umap_find m (int (length m) + 2) = None"
  by (auto simp: initial_ids_def umap_find_dom)

lemma initial_ids_insert:
  assumes "initial_ids m" "actor_id c = int (length m) + 2"
  shows "initial_ids (umap_insert (int (length m) + 2) c m)"
proof -
  have fresh: "umap_find m (int (length m) + 2) = None" using assms(1) by (rule initial_ids_fresh)
  then have ins: "umap_insert (int (length m) + 2) c m = (int (length m) + 2, c) # m"
    by (simp add: umap_insert_def umap_find_dom)
  have "insert (int (length m) + 2) {2..<2 + int (length m)} = {2..<2 + int (length (
      umap_insert (int (length m) + 2) c m))}"
    unfolding ins by auto
  with assms fresh show ?thesis
    unfolding initial_ids_def keys_umap_insert by (auto simp: ins umap_ok_def umap_find_dom)
qed

lemma initial_ids_set:
  assumes "initial_ids m" "umap_find m i = Some c" "actor_id c' = actor_id c"
  shows "initial_ids (umap_set i c' m)"
proof -
  have "actor_id c' = i"
    using assms(1,3) umap_find_mem [OF assms(2)] unfolding initial_ids_def by auto
  with assms(1) show ?thesis
    unfolding initial_ids_def keys_umap_set length_umap_set umap_ok_set
    by (auto simp: umap_set_def split: if_splits)
qed

lemma counted_connect:
  assumes "counted cs" "fits (actor_connections cs)" "umap_ok (actor_connections cs)"
    "umap_find (actor_connections cs) i = Some c" "conn_socket c = None"
  shows "counted (cs\<lparr>actor_connections := umap_set i (c\<lparr>conn_socket := Some sk\<rparr>) (actor_connections cs),
    nb_connected_actors := nb_connected_actors cs + 1\<rparr>)"
proof -
  have cnt: "umap_count is_connected (umap_set i (c\<lparr>conn_socket := Some sk\<rparr>) (actor_connections cs)) =
      Suc (umap_count is_connected (actor_connections cs))"
    using assms(3-5) by (intro umap_count_set) (auto simp: is_connected_def)
  have "unat (nb_connected_actors cs) < 2 ^ 31"
    using assms(1,2) umap_count_le [of is_connected "actor_connections cs"]
    by (simp add: counted_def fits_def)
  then have "unat (nb_connected_actors cs + 1) = Suc (unat (nb_connected_actors cs))"
    by (simp add: unat_word_ariths(1))
  with cnt assms(1) show ?thesis by (simp add: counted_def)
qed

lemma all_connected_find:
  assumes "all_connected cs" "counted cs" "umap_find (actor_connections cs) i = Some c"
  shows "conn_socket c \<noteq> None"
proof -
  note umap_find_mem [OF assms(3)]
  moreover have "\<forall>kv \<in> set (actor_connections cs). is_connected (snd kv)"
    using assms(1,2) by (simp add: all_connected_def counted_def umap_count_all [symmetric])
  ultimately show ?thesis by (auto simp: is_connected_def)
qed

text \<open>The connections only grow.\<close>

lemma command_grows:
  "handle_command cmd sk cs = Inr (d, effs, cs') \<Longrightarrow>
     length (actor_connections cs) \<le> length (actor_connections cs')"
  by (auto simp: command_defs length_umap_insert Let_def split: command.splits if_splits
      option.splits sum.splits)

lemma register_grows:
  "register_actor i q r cs = Inr (effs, cs') \<Longrightarrow>
     length (actor_connections cs) \<le> length (actor_connections cs')"
  by (auto simp: register_actor_def length_umap_insert split: if_splits)

lemma fits_mono: "fits m' \<Longrightarrow> length m \<le> length m' \<Longrightarrow> fits m"
  by (simp add: fits_def)

lemma fits_id: "fits m \<Longrightarrow> to_int32 (int (length m) + 2) = int (length m) + 2"
  by (simp add: fits_def)

lemma launch_okI:
  assumes "all_connected cs" "counted cs" "initial_ids (actor_connections cs)"
    "fits (actor_connections cs)"
  shows "launch_ok (actor_connections cs)"
  using assms all_connected_find [OF assms(1,2)] by (auto simp: launch_ok_def)

text \<open>A state after the launch: only the dynamic actors may lack a socket.\<close>

lemma cs_ok_launched:
  assumes "all_connected cs" "counted cs" "umap_ok (actor_connections cs)" "launches tr = 0"
    "server_state cs' = SIMULATION_RUNNING" "actor_connections cs' = actor_connections cs"
    "nb_connected_actors cs' = nb_connected_actors cs" "launches effs = 1"
  shows "cs_ok cs' (tr @ effs)"
proof -
  have "\<forall>i c. umap_find (actor_connections cs) i = Some c \<and> conn_socket c = None \<longrightarrow> connect_ack c \<noteq> None"
    using all_connected_find [OF assms(1,2)] by blast
  with assms show ?thesis unfolding cs_ok_def counted_def by simp
qed

lemma cs_ok_add_actor:
  assumes "cs_ok cs tr" "fits (actor_connections cs)" "handle_add_actor n h cs = Inr (ack, d, effs, cs')"
  shows "cs_ok cs' (tr @ effs) \<and> effs = []"
proof (cases "server_state cs = ACCEPTING_NEW_ACTORS")
  case True
  let ?i = "int (length (actor_connections cs)) + 2"
  let ?c = "new_connection\<lparr>actor_name := c_str n, host_name := c_str h, actor_id := ?i\<rparr>"
  have cs': "cs' = cs\<lparr>actor_connections := umap_insert ?i ?c (actor_connections cs)\<rparr>" "effs = []"
    using assms(3) True by (simp_all add: handle_add_actor_def fits_id [OF assms(2)] Let_def)
  have l: "launches tr = 0" "initial_ids (actor_connections cs)"
    using assms(1) True by (simp_all add: cs_ok_def)
  have "counted cs'"
    using assms(1) initial_ids_fresh [OF l(2)]
    by (simp add: cs_ok_def counted_def cs' umap_count_insert is_connected_def new_connection_def)
  moreover have "initial_ids (actor_connections cs')" using l(2) by (simp add: cs' initial_ids_insert)
  ultimately show ?thesis
    using assms(1) True l by (simp add: cs_ok_def cs')
next
  case False
  with assms(1,3) show ?thesis by (auto simp: handle_add_actor_def split: if_splits)
qed

lemma cs_ok_start:
  assumes "cs_ok cs tr" "fits (actor_connections cs)" "handle_start cs = Inr (ack, d, effs, cs')"
  shows "cs_ok cs' (tr @ effs) \<and> (\<forall>m. Start_simulation m \<in> set effs \<longrightarrow> launch_ok m)"
proof -
  have st: "server_state cs = ACCEPTING_NEW_ACTORS" using assms(3) by (simp add: handle_start_def split: if_splits)
  with assms(1) have l: "launches tr = 0" "initial_ids (actor_connections cs)" "counted cs"
    "umap_ok (actor_connections cs)" by (simp_all add: cs_ok_def)
  show ?thesis
  proof (cases "all_connected cs")
    case True
    then have "effs = [Start_simulation (actor_connections cs)]" "cs' = cs\<lparr>server_state := SIMULATION_RUNNING\<rparr>"
      using assms(3) st by (auto simp: handle_start_def)
    then show ?thesis
      using cs_ok_launched [OF True l(3,4,1), of cs' effs] launch_okI [OF True l(3,2) assms(2)] by simp
  next
    case False
    then have "effs = []" "cs' = cs\<lparr>server_state := WAITING_FOR_ALL_ACTORS_CONNECTION\<rparr>"
      using assms(3) st by (auto simp: handle_start_def)
    with False l show ?thesis by (simp add: cs_ok_def counted_def all_connected_def)
  qed
qed

lemma cs_ok_connect:
  assumes ok: "cs_ok cs tr" and fit: "fits (actor_connections cs)"
    and res: "handle_connect i sk cs = Inr (ack, d, effs, cs')"
  shows "cs_ok cs' (tr @ effs) \<and> (\<forall>m. Start_simulation m \<in> set effs \<longrightarrow> launch_ok m)"
proof (cases "server_state cs = KILLED")
  case True
  with ok res show ?thesis by (simp add: handle_connect_def split: if_splits)
next
  case False
  with res obtain c where c: "umap_find (actor_connections cs) i = Some c" "conn_socket c = None"
    by (auto simp: handle_connect_def split: if_splits option.splits)
  let ?c = "c\<lparr>conn_socket := Some sk\<rparr>"
  let ?cs = "cs\<lparr>actor_connections := umap_set i ?c (actor_connections cs),
      nb_connected_actors := nb_connected_actors cs + 1\<rparr>"
  have res': "connected_actor sk ?c ?cs = Inr (ack, d, effs, cs')"
    using res False c by (simp add: handle_connect_def Let_def split: if_splits)
  have u: "umap_ok (actor_connections ?cs)" "fits (actor_connections ?cs)"
    using ok fit by (simp_all add: cs_ok_def fits_def)
  have cnt: "counted ?cs" using counted_connect [OF _ fit _ c] ok by (simp add: cs_ok_def)
  have ids: "launches tr = 0 \<Longrightarrow> initial_ids (actor_connections ?cs)"
    using ok initial_ids_set [OF _ c(1)] by (simp add: cs_ok_def)
  show ?thesis
  proof (cases "server_state cs = WAITING_FOR_ALL_ACTORS_CONNECTION \<and> all_connected ?cs")
    case True
    then have eff: "effs = [Start_simulation (actor_connections ?cs)]"
      "cs' = ?cs\<lparr>server_state := SIMULATION_RUNNING\<rparr>"
      using res' by (auto simp: connected_actor_def)
    have l: "launches tr = 0" using ok True by (simp add: cs_ok_def)
    with eff True show ?thesis
      using cs_ok_launched [OF _ cnt u(1), of tr cs' effs] launch_okI [OF _ cnt ids u(2)] by simp
  next
    case False
    then have eff: "launches effs = 0" "\<forall>m. Start_simulation m \<notin> set effs" "cs' = ?cs"
      using res' by (auto simp: connected_actor_def split: if_splits option.splits)
    have "cs_ok ?cs tr"
      using ok cnt u(1) ids False c(1) unfolding cs_ok_def by (auto simp: umap_simps)
    with eff show ?thesis by (auto simp: cs_ok_def)
  qed
qed

lemma cs_ok_command:
  assumes "cs_ok cs tr" "fits (actor_connections cs)" "handle_command cmd sk cs = Inr (d, effs, cs')"
  shows "cs_ok cs' (tr @ effs) \<and> (\<forall>m. Start_simulation m \<in> set effs \<longrightarrow> launch_ok m)"
proof -
  obtain ack effs1 where body: "command_body cmd sk cs = Inr (ack, d, effs1, cs')"
    "effs = effs1 @ [Write_ack sk ack]"
    using assms(3) by (auto simp: handle_command_def split: sum.splits)
  have "cs_ok cs' (tr @ effs1) \<and> (\<forall>m. Start_simulation m \<in> set effs1 \<longrightarrow> launch_ok m)"
  proof (cases cmd)
    case (KAddActor n h)
    with body(1) have "handle_add_actor n h cs = Inr (ack, d, effs1, cs')" by (simp add: command_body_def)
    from cs_ok_add_actor [OF assms(1,2) this] show ?thesis by auto
  next
    case KStart
    with body(1) cs_ok_start [OF assms(1,2)] show ?thesis by (auto simp: command_body_def)
  next
    case KConnect
    with body(1) cs_ok_connect [OF assms(1,2)] show ?thesis by (auto simp: command_body_def)
  qed (use body(1) assms(1) in \<open>auto simp: command_body_def handle_kill_def handle_status_def cs_ok_def
      counted_def\<close>)
  with body(2) show ?thesis by (auto simp: cs_ok_def)
qed

lemma cs_ok_register:
  assumes "cs_ok cs tr" "Start_simulation m \<in> set tr" "register_actor i q r cs = Inr (effs, cs')"
  shows "cs_ok cs' (tr @ effs) \<and> effs = [Push q Im_actor_create_ack]"
  using assms launches_pos [OF assms(2)]
  by (auto simp: register_actor_def cs_ok_def counted_def umap_count_insert is_connected_def
      new_connection_def umap_simps split: if_splits)

lemma lives_ok:
  "lives cs tr \<Longrightarrow> fits (actor_connections cs) \<Longrightarrow>
     cs_ok cs tr \<and> (\<forall>m. Start_simulation m \<in> set tr \<longrightarrow> launch_ok m)"
proof (induction rule: lives.induct)
  case lives_init
  show ?case
    by (auto simp: cs_ok_def init_command_state_def umap_ok_def counted_def umap_count_def initial_ids_def)
next
  case (lives_command cs tr cmd sk d effs cs')
  have fit: "fits (actor_connections cs)"
    using lives_command.prems command_grows [OF lives_command.hyps(2)] by (rule fits_mono)
  with lives_command.IH cs_ok_command [OF _ fit lives_command.hyps(2)] show ?case by auto
next
  case (lives_create cs tr m i q r effs cs')
  have fit: "fits (actor_connections cs)"
    using lives_create.prems register_grows [OF lives_create.hyps(3)] by (rule fits_mono)
  with lives_create.IH cs_ok_register [OF _ lives_create.hyps(2,3)] show ?case by auto
next
  case (lives_finish cs tr m)
  then show ?case using launches_pos [OF lives_finish.hyps(2)] by (auto simp: cs_ok_def counted_def)
qed

section \<open>Runs of commands\<close>

fun run_commands :: "(command \<times> socket) list \<Rightarrow> command_state \<Rightarrow> rsg_error + effect list \<times> command_state" where
  "run_commands [] cs = Inr ([], cs)"
| "run_commands ((cmd, sk) # cmds) cs =
     (case handle_command cmd sk cs of
        Inl e \<Rightarrow> Inl e
      | Inr (d, effs, cs') \<Rightarrow>
          (case run_commands cmds cs' of
             Inl e \<Rightarrow> Inl e
           | Inr (effs', cs'') \<Rightarrow> Inr (effs @ effs', cs'')))"

lemma run_commands_lives:
  "lives cs tr \<Longrightarrow> run_commands cmds cs = Inr (effs, cs') \<Longrightarrow> lives cs' (tr @ effs)"
proof (induction cmds cs arbitrary: tr effs rule: run_commands.induct)
  case (2 cmd sk cmds cs)
  then obtain d effs1 cs1 effs2 where step: "handle_command cmd sk cs = Inr (d, effs1, cs1)"
    "run_commands cmds cs1 = Inr (effs2, cs')" "effs = effs1 @ effs2"
    by (auto split: sum.splits)
  have "lives cs1 (tr @ effs1)" using "2.prems"(1) step(1) by (rule lives_command)
  from "2.IH" [OF step(1) refl refl this step(2)] step(3) show ?case by simp
qed simp

text \<open>C20: the commands that end the server are exactly these: adding an actor once the simulation
  is being launched, starting twice or starting a killed server, connecting after the end, to an
  unknown actor or to an actor that already has a client, and a command without a type. In
  particular a dynamically created actor's client never finds its actor without a queue.\<close>

theorem rejected_commands:
  assumes "lives cs tr" "fits (actor_connections cs)"
  shows "(\<exists>e. handle_command cmd sk cs = Inl e) \<longleftrightarrow> (case cmd of
      KAddActor n h \<Rightarrow> server_state cs \<notin> {ACCEPTING_NEW_ACTORS, KILLED}
    | KStart b \<Rightarrow> server_state cs \<noteq> ACCEPTING_NEW_ACTORS
    | KKill r \<Rightarrow> False
    | KStatus b \<Rightarrow> False
    | KConnect i \<Rightarrow> server_state cs = SIMULATION_FINISHED \<or>
        (server_state cs \<noteq> KILLED \<and> (case umap_find (actor_connections cs) i of
            None \<Rightarrow> True | Some c \<Rightarrow> conn_socket c \<noteq> None))
    | Command_type_not_set \<Rightarrow> True)"
proof (cases cmd)
  case (KConnect i)
  have ok: "cs_ok cs tr" using lives_ok [OF assms] by blast
  have "server_state cs = SIMULATION_RUNNING \<Longrightarrow> umap_find (actor_connections cs) i = Some c \<Longrightarrow>
      conn_socket c = None \<Longrightarrow> connect_ack c \<noteq> None" for c
    using ok unfolding cs_ok_def by simp
  with KConnect show ?thesis
    by (cases "server_state cs") (auto simp: command_defs Let_def split: option.splits)
qed (auto simp: command_defs Let_def split: option.splits)

text \<open>A client that is connected to its actor stays its client: no later command changes
  the connection of an actor that has one.\<close>

theorem connections_are_final:
  assumes "handle_command cmd sk cs = Inr (d, effs, cs')"
    "umap_find (actor_connections cs) i = Some c" "conn_socket c \<noteq> None"
  shows "umap_find (actor_connections cs') i = Some c"
  using assms
  by (auto simp: command_defs Let_def umap_simps split: command.splits if_splits option.splits sum.splits)

text \<open>A killed server does nothing any more: every command that it still accepts is answered
  and changes nothing, and no simulation is launched.\<close>

theorem killed_server_is_inert:
  assumes "server_state cs = KILLED" "handle_command cmd sk cs = Inr (d, effs, cs')"
  shows "cs' = cs \<and> d \<and> (\<exists>ack. effs = [Write_ack sk ack])"
  using assms by (auto simp: command_defs Let_def split: command.splits if_splits option.splits)

text \<open>The status command answers the number of actors whose client is connected, which is
  kept in a counter of its own.\<close>

theorem status_counts_connected_clients:
  assumes "lives cs tr" "fits (actor_connections cs)"
  shows "\<exists>n. handle_command (KStatus b) sk cs =
      Inr (True, [Write_ack sk ((ack_success_of True)\<lparr>ack_status := Some n\<rparr>)], cs) \<and>
    unat n = length (filter (\<lambda>(i, c). conn_socket c \<noteq> None) (actor_connections cs))"
proof -
  have "cs_ok cs tr" using lives_ok [OF assms] by blast
  then have "counted cs" by (simp add: cs_ok_def)
  then show ?thesis
    by (intro exI [of _ "nb_connected_actors cs"])
      (simp add: command_defs counted_def umap_count_def is_connected_def case_prod_beta')
qed

section \<open>Examples\<close>

text \<open>Two actors are added, one client connects, the simulation is started, the other connects.\<close>

definition demo_commands :: "(command \<times> socket) list" where
  "demo_commands = [(KAddActor ''a'' ''h1'', 10), (KAddActor ''b'' ''h2'', 11), (KConnect 2, 12),
     (KStart True, 13), (KConnect 3, 14)]"

definition demo_connections :: connections where
  "demo_connections =
     [(3, \<lparr>actor_name = ''b'', host_name = ''h2'', actor_id = 3, conn_socket = Some 14, connect_ack = None\<rparr>),
      (2, \<lparr>actor_name = ''a'', host_name = ''h1'', actor_id = 2, conn_socket = Some 12, connect_ack = None\<rparr>)]"

lemma demo_run:
  "\<exists>tr cs. lives cs tr \<and> cs = \<lparr>server_state = SIMULATION_RUNNING, actor_connections = demo_connections,
     nb_connected_actors = 2\<rparr> \<and> Start_simulation demo_connections \<in> set tr"
proof -
  have "\<exists>effs. run_commands demo_commands init_command_state =
      Inr (effs, \<lparr>server_state = SIMULATION_RUNNING, actor_connections = demo_connections,
        nb_connected_actors = 2\<rparr>) \<and> Start_simulation demo_connections \<in> set effs"
    by (simp add: demo_commands_def init_command_state_def demo_connections_def command_defs
        new_connection_def c_str_def umap_insert_def umap_find_def umap_set_def all_connected_def Let_def)
  then show ?thesis using run_commands_lives [OF lives_init] by fastforce
qed

lemma fits_demo: "fits demo_connections"
  by (simp add: fits_def demo_connections_def)

theorem rejected_commands_witness:
  "\<exists>cs tr. lives cs tr \<and> server_state cs = SIMULATION_RUNNING \<and>
     (\<exists>e. handle_command (KConnect 2) 20 cs = Inl e) \<and> (\<exists>e. handle_command (KStart True) 20 cs = Inl e)"
proof -
  obtain cs tr where cs: "lives cs tr" "cs = \<lparr>server_state = SIMULATION_RUNNING,
      actor_connections = demo_connections, nb_connected_actors = 2\<rparr>"
    using demo_run by blast
  have "fits (actor_connections cs)" using cs(2) fits_demo by simp
  from rejected_commands [OF cs(1) this, of "KConnect 2" 20] rejected_commands [OF cs(1) this, of "KStart True" 20]
    cs show ?thesis by (intro exI [of _ cs] exI [of _ tr])
      (simp add: umap_find_def demo_connections_def)
qed

theorem connections_are_final_witness:
  "\<exists>d effs cs'. handle_command (KKill ''why'') 9 \<lparr>server_state = SIMULATION_RUNNING,
      actor_connections = demo_connections, nb_connected_actors = 2\<rparr> = Inr (d, effs, cs') \<and>
     umap_find (actor_connections cs') 3 = umap_find demo_connections 3"
proof -
  let ?cs = "\<lparr>server_state = SIMULATION_RUNNING, actor_connections = demo_connections, nb_connected_actors = 2\<rparr>"
  let ?c = "\<lparr>actor_name = ''b'', host_name = ''h2'', actor_id = 3, conn_socket = Some 14, connect_ack = None\<rparr>"
  obtain d effs cs' where r: "handle_command (KKill ''why'') 9 ?cs = Inr (d, effs, cs')"
    by (simp add: command_defs)
  have c: "umap_find (actor_connections ?cs) 3 = Some ?c" by (simp add: umap_find_def demo_connections_def)
  with connections_are_final [OF r c] r show ?thesis by simp
qed

theorem killed_server_is_inert_witness:
  "\<exists>ack. handle_command (KAddActor ''a'' ''h'') 9 (init_command_state\<lparr>server_state := KILLED\<rparr>) =
     Inr (True, [Write_ack 9 ack], init_command_state\<lparr>server_state := KILLED\<rparr>)"
proof -
  let ?cs = "init_command_state\<lparr>server_state := KILLED\<rparr>"
  obtain d effs cs' where r: "handle_command (KAddActor ''a'' ''h'') 9 ?cs = Inr (d, effs, cs')"
    by (simp add: command_defs)
  from killed_server_is_inert [OF _ r] r show ?thesis by auto
qed

theorem status_counts_connected_clients_witness:
  "\<exists>cs tr n. lives cs tr \<and> handle_command (KStatus True) 20 cs =
      Inr (True, [Write_ack 20 ((ack_success_of True)\<lparr>ack_status := Some n\<rparr>)], cs) \<and> unat n = 2"
proof -
  obtain cs tr where cs: "lives cs tr" "cs = \<lparr>server_state = SIMULATION_RUNNING,
      actor_connections = demo_connections, nb_connected_actors = 2\<rparr>"
    using demo_run by blast
  have "fits (actor_connections cs)" using cs(2) fits_demo by simp
  from status_counts_connected_clients [OF cs(1) this, of True 20]
  obtain n where n: "handle_command (KStatus True) 20 cs =
      Inr (True, [Write_ack 20 ((ack_success_of True)\<lparr>ack_status := Some n\<rparr>)], cs)"
    "unat n = length (filter (\<lambda>(i, c). conn_socket c \<noteq> None) (actor_connections cs))" by blast
  have "unat n = 2" using n(2) by (simp add: cs(2) demo_connections_def)
  with cs(1) n(1) show ?thesis by blast
qed

end
