(* ===== verification/Launch.thy ===== *)
theory Launch
  imports Command_Server "HOL-Library.Multiset"
begin

text \<open>
  The launch of the simulation (\<^verbatim>\<open>src/rsg/simulation.cpp\<close>):
  \<^verbatim>\<open>connections_unorderedmap_to_vector\<close>, which orders and checks the initial actors,
  \<^verbatim>\<open>start_simulation\<close> and \<^verbatim>\<open>maestro\<close>, which checks their hosts, creates them and runs
  the simulation. SimGrid's side (which hosts the platform has, the run itself) is a parameter.
\<close>

section \<open>From the map to the vector\<close>

text \<open>
  The iteration order of the map is the order of the association list; the vector is sorted by
  \<^verbatim>\<open>std::sort\<close> on the actor identifier.
\<close>

fun consecutive :: "int list \<Rightarrow> bool" where
  "consecutive (i # j # is) \<longleftrightarrow> i + 1 = j \<and> consecutive (j # is)"
| "consecutive _ = True"

definition connections_unorderedmap_to_vector ::
    "connections \<Rightarrow> rsg_error + actor_connection list" where
  "connections_unorderedmap_to_vector connection_map =
     (if connection_map = [] then Inr []
      else
        let connection_vector = sort_key actor_id (map snd connection_map) in
        if actor_id (hd connection_vector) \<noteq> 2
        then Inl ''Minimal initial actor_id value is %d, while I expected %d''
        else if \<not> consecutive (map actor_id connection_vector)
        then Inl ''Initial actor ids are not consecutive: %d is just after %d''
        else if length connection_vector \<noteq> length connection_map
        then Inl ''fix connections_unorderedmap_to_vector: bad output vector size''
        else Inr connection_vector)"

section \<open>Maestro\<close>

datatype maestro_call =
    M_host_by_name_or_null string
  | M_host_by_name string
  | M_actor_create string string socket int   \<comment> \<open>name, host, the socket and the expected id\<close>
  | M_run
  | M_push interthread_message

text \<open>The check of the hosts: the calls made, and the first connection whose host is unknown.\<close>

fun check_hosts :: "(string \<Rightarrow> bool) \<Rightarrow> actor_connection list \<Rightarrow>
    maestro_call list \<times> actor_connection option" where
  "check_hosts host_exists [] = ([], None)"
| "check_hosts host_exists (c # cs) =
     (if \<not> host_exists (host_name c) then ([M_host_by_name_or_null (host_name c)], Some c)
      else case check_hosts host_exists cs of
        (calls, bad) \<Rightarrow> (M_host_by_name_or_null (host_name c) # calls, bad))"

text \<open>The socket of an initial actor is dereferenced when the actor reads: it must be there.\<close>

definition spawn :: "actor_connection \<Rightarrow> maestro_call list" where
  "spawn c = [M_host_by_name (host_name c),
     M_actor_create (actor_name c) (host_name c) (the (conn_socket c)) (actor_id c)]"

definition maestro :: "(string \<Rightarrow> bool) \<Rightarrow> actor_connection list \<Rightarrow> maestro_call list" where
  "maestro host_exists connection_vector =
     (case check_hosts host_exists connection_vector of
        (calls, Some c) \<Rightarrow> calls @ [M_run, M_push (Im_launch_aborted (actor_id c) (host_name c))]
      | (calls, None) \<Rightarrow> calls @ concat (map spawn connection_vector) @
          [M_run, M_push Im_simulation_finished])"

text \<open>
  The thread of the simulation gets copies of its arguments. \<^verbatim>\<open>start_simulation\<close> builds the vector
  before the engine, whose options are forced to the thread factory; a platform without hosts is
  an error. The thread attaches itself to the first host for a moment, so that maestro runs in a thread of its
  own. The value is what the thread asks to SimGrid, and the error that ends the
  program or what maestro then does. \<open>hosts\<close>: the hosts that the engine finds in a platform file, in order.
\<close>

record start_simulation_args =
  platform_file :: string
  simgrid_options :: "string list"
  args_connections :: connections

record maestro_args =
  maestro_platform_file :: string
  connection_vector :: "actor_connection list"

datatype launch_call =
    L_engine "string list"
  | L_load_platform string
  | L_attach string string    \<comment> \<open>name, host\<close>
  | L_detach

definition start_simulation_in_another_thread :: "string \<Rightarrow> string list \<Rightarrow> connections \<Rightarrow> start_simulation_args" where
  "start_simulation_in_another_thread file options connection_map =
     \<lparr>platform_file = file, simgrid_options = options, args_connections = connection_map\<rparr>"

definition engine_argv :: "string list \<Rightarrow> string list" where
  "engine_argv options =
     [''rsg'', ''--cfg=contexts/factory:thread''] @ map c_str options"

definition start_simulation :: "(string \<Rightarrow> string list) \<Rightarrow> start_simulation_args \<Rightarrow>
    launch_call list \<times> (rsg_error + maestro_call list)" where
  "start_simulation hosts my_args =
     (case connections_unorderedmap_to_vector (args_connections my_args) of
        Inl e \<Rightarrow> ([], Inl e)
      | Inr v \<Rightarrow>
          (let args = \<lparr>maestro_platform_file = platform_file my_args, connection_vector = v\<rparr>;
               engine = [L_engine (engine_argv (simgrid_options my_args)), L_load_platform (platform_file my_args)] in
           case hosts (platform_file my_args) of
             [] \<Rightarrow> (engine, Inl ''Error: Provided platform file '%s' contains no host'')
           | h # hs \<Rightarrow> (engine @ [L_attach ''temporary'' h, L_detach],
               Inr (maestro (\<lambda>name. name \<in> set (h # hs)) (connection_vector args)))))"

section \<open>The vector of initial actors\<close>

lemma consecutive_upto: "consecutive [i..j]"
proof (induction "nat (j - i)" arbitrary: i)
  case 0
  then show ?case by (cases "i = j") (simp_all add: upto.simps)
next
  case (Suc n)
  then have ij: "i < j" and IH: "consecutive [i + 1..j]" by simp_all
  have "[i..j] = i # [i + 1..j]" using ij by (simp add: upto_rec1)
  moreover have "[i + 1..j] = (i + 1) # [i + 1 + 1..j]" using ij by (simp add: upto_rec1)
  ultimately show ?case using IH by simp
qed

lemma sorted_ids:
  assumes "initial_ids m"
  shows "map actor_id (sort_key actor_id (map snd m)) = [2..1 + int (length m)]"
proof -
  let ?v = "sort_key actor_id (map snd m)"
  have ids: "map actor_id (map snd m) = map fst m"
    using assms by (auto simp: initial_ids_def)
  have "sorted (map actor_id ?v)" by simp
  moreover have "distinct (map actor_id ?v)"
  proof -
    have "mset (map actor_id ?v) = mset (map fst m)" using ids by (metis mset_map mset_sort)
    moreover have "distinct (map fst m)" using assms by (simp add: initial_ids_def umap_ok_def)
    ultimately show ?thesis by (metis mset_eq_imp_distinct_iff)
  qed
  moreover have "set (map actor_id ?v) = {2..1 + int (length m)}"
  proof -
    have "set (map actor_id ?v) = set (map fst m)" using ids by (metis list.set_map set_sort)
    then show ?thesis using assms by (auto simp: initial_ids_def)
  qed
  ultimately show ?thesis
    using sorted_distinct_set_unique [of "map actor_id ?v" "[2..1 + int (length m)]"] by simp
qed

lemma vector_of_initial:
  assumes "initial_ids m"
  shows "connections_unorderedmap_to_vector m = Inr (sort_key actor_id (map snd m))"
proof (cases "m = []")
  case True
  then show ?thesis by (simp add: connections_unorderedmap_to_vector_def)
next
  case False
  let ?v = "sort_key actor_id (map snd m)"
  have ids: "map actor_id ?v = [2..1 + int (length m)]" using assms by (rule sorted_ids)
  have ne: "?v \<noteq> []" using False by (metis length_0_conv length_map length_sort)
  then have "actor_id (hd ?v) = hd (map actor_id ?v)" by (simp add: hd_map)
  also have "\<dots> = 2" unfolding ids using False by (cases m) (simp_all add: upto_rec1)
  finally have "actor_id (hd ?v) = 2" .
  with ids show ?thesis
    using False consecutive_upto [of 2 "1 + int (length m)"]
    by (simp add: connections_unorderedmap_to_vector_def Let_def)
qed



section \<open>What maestro does\<close>

lemma check_hosts_ok:
  "\<forall>c \<in> set cs. host_exists (host_name c) \<Longrightarrow>
     check_hosts host_exists cs = (map (\<lambda>c. M_host_by_name_or_null (host_name c)) cs, None)"
  by (induction cs) auto

lemma check_hosts_bad:
  "\<not> (\<forall>c \<in> set cs. host_exists (host_name c)) \<Longrightarrow>
     \<exists>calls c. check_hosts host_exists cs = (calls, Some c) \<and> c \<in> set cs \<and> \<not> host_exists (host_name c) \<and>
       (\<forall>x \<in> set calls. \<exists>h. x = M_host_by_name_or_null h)"
proof (induction cs)
  case (Cons a cs)
  show ?case
  proof (cases "host_exists (host_name a)")
    case True
    with Cons.prems have "\<not> (\<forall>c \<in> set cs. host_exists (host_name c))" by simp
    from Cons.IH [OF this] True show ?thesis by auto
  qed simp
qed simp

text \<open>The actors that maestro creates, in order.\<close>

definition created :: "maestro_call list \<Rightarrow> (string \<times> string \<times> socket \<times> int) list" where
  "created calls = concat (map (\<lambda>c. case c of M_actor_create n h s i \<Rightarrow> [(n, h, s, i)] | _ \<Rightarrow> []) calls)"

lemma created_simps [simp]: "created [] = []" "created (xs @ ys) = created xs @ created ys"
  "created (M_actor_create n h s i # xs) = (n, h, s, i) # created xs"
  "created (M_host_by_name h # xs) = created xs" "created (M_host_by_name_or_null h # xs) = created xs"
  "created (M_run # xs) = created xs" "created (M_push m # xs) = created xs"
  by (simp_all add: created_def)

lemma created_checks: "\<forall>x \<in> set calls. \<exists>h. x = M_host_by_name_or_null h \<Longrightarrow> created calls = []"
  by (induction calls) auto

lemma created_spawn:
  "created (concat (map spawn cs)) =
     map (\<lambda>c. (actor_name c, host_name c, the (conn_socket c), actor_id c)) cs"
  by (induction cs) (simp_all add: spawn_def)

text \<open>C26: maestro creates all the actors or none: when the platform has the host of each of them, they
  are created in the order of their identifiers before the simulation runs, and its end is
  reported; when a host is missing, an empty simulation runs and the failure is reported with an
  actor of the map whose host is unknown.\<close>

theorem all_actors_or_none:
  assumes "initial_ids m" "hosts platform = h # hs"
    and host_exists: "host_exists = (\<lambda>name. name \<in> set (hosts platform))"
  shows "\<exists>calls. start_simulation hosts (start_simulation_in_another_thread platform opts m) =
      ([L_engine (engine_argv opts), L_load_platform platform, L_attach ''temporary'' h, L_detach], Inr calls) \<and>
    (if \<forall>(i, c) \<in> set m. host_exists (host_name c)
     then map (snd \<circ> snd \<circ> snd) (created calls) = [2..1 + int (length m)] \<and>
       (\<exists>pre. calls = pre @ [M_run, M_push Im_simulation_finished] \<and> M_run \<notin> set pre)
     else created calls = [] \<and> (\<exists>pre i c. calls = pre @ [M_run, M_push (Im_launch_aborted (actor_id c) (host_name c))] \<and>
       (i, c) \<in> set m \<and> \<not> host_exists (host_name c) \<and> M_run \<notin> set pre))"
proof -
  let ?v = "sort_key actor_id (map snd m)"
  have start: "start_simulation hosts (start_simulation_in_another_thread platform opts m) =
      ([L_engine (engine_argv opts), L_load_platform platform, L_attach ''temporary'' h, L_detach], Inr (maestro host_exists ?v))"
    using vector_of_initial [OF assms(1)] assms(2)
    by (simp add: start_simulation_def start_simulation_in_another_thread_def host_exists Let_def)
  have hosts: "(\<forall>(i, c) \<in> set m. host_exists (host_name c)) \<longleftrightarrow> (\<forall>c \<in> set ?v. host_exists (host_name c))"
    by auto
  show ?thesis
  proof (cases "\<forall>c \<in> set ?v. host_exists (host_name c)")
    case True
    note check = check_hosts_ok [OF True]
    have "created (map (\<lambda>c. M_host_by_name_or_null (host_name c)) ?v) = []"
      by (rule created_checks) auto
    moreover have "M_run \<notin> set (concat (map spawn ?v))" by (auto simp: spawn_def)
    ultimately show ?thesis
      unfolding start hosts using True sorted_ids [OF assms(1)]
      by (auto simp: maestro_def check created_spawn comp_def)
  next
    case False
    from check_hosts_bad [OF False] obtain calls c where bad: "check_hosts host_exists ?v = (calls, Some c)"
      "c \<in> set ?v" "\<not> host_exists (host_name c)" "\<forall>x \<in> set calls. \<exists>h. x = M_host_by_name_or_null h"
      by blast
    from bad(2) obtain i where "(i, c) \<in> set m" by auto
    with bad created_checks [OF bad(4)] show ?thesis
      unfolding start hosts using False
      by (simp add: maestro_def) (auto intro!: exI [of _ calls])
  qed
qed

theorem all_actors_or_none_witness:
  "\<exists>calls. start_simulation (\<lambda>f. [''h1'']) (start_simulation_in_another_thread ''p.xml'' [] demo_connections) =
     ([L_engine (engine_argv []), L_load_platform ''p.xml'', L_attach ''temporary'' ''h1'', L_detach], Inr calls) \<and>
     created calls = []"
proof -
  have "initial_ids demo_connections"
    by (auto simp: initial_ids_def umap_ok_def demo_connections_def)
  from all_actors_or_none [where hosts = "\<lambda>f. [''h1'']" and platform = "''p.xml''" and opts = "[]", OF this _ refl]
  show ?thesis by (auto simp: demo_connections_def)
qed

end
