(* ===== verification/Refcount_Store.thy ===== *)
theory Refcount_Store
  imports Protocol
begin

text \<open>
  The state that all simulated actors of the server share: the \<^verbatim>\<open>RefcountStore\<close> of
  \<^verbatim>\<open>src/rsg/simulation.hpp\<close> (the Comm, Mutex and ConditionVariable objects that
  clients refer to by address), and the part of the heap the decision handler manages by hand
  (the strings that carry payloads, the reception buffers, the locks and the inter-thread
  queues). The theory holds the table operations, their common contract (locale
  \<open>refcounted\<close>), its three interpretations and the invariant of the store.
\<close>

section \<open>The store\<close>

type_synonym ptr = nat

record rc_comm =
  rc_comm_obj :: u64                    \<comment> \<open>\<^verbatim>\<open>s4u::Comm * comm\<close>\<close>
  reception_buffer :: "ptr option"      \<comment> \<open>\<^verbatim>\<open>void ** reception_buffer\<close>, None for null\<close>
  rc_comm_count :: u32                  \<comment> \<open>\<^verbatim>\<open>unsigned int remote_ref_count\<close>\<close>
  rc_comm_node :: ptr                   \<comment> \<open>identity of the map node, what an iterator denotes\<close>

record rc_mutex =
  rc_mutex_obj :: u64
  rc_mutex_lock :: ptr                  \<comment> \<open>\<^verbatim>\<open>std::unique_lock<Mutex> * lock\<close>\<close>
  rc_mutex_count :: u32

record rc_cv =
  rc_cv_obj :: u64
  rc_cv_count :: u32

datatype s4u_object = Comm_object u64 | Mutex_object u64 | Cv_object u64

record server =
  comms :: "u64 \<rightharpoonup> rc_comm"
  mutexes :: "u64 \<rightharpoonup> rc_mutex"
  condition_variables :: "u64 \<rightharpoonup> rc_cv"
  refs :: "s4u_object \<Rightarrow> int"           \<comment> \<open>\<^verbatim>\<open>intrusive_ptr_add_ref\<close> minus \<^verbatim>\<open>_release\<close>\<close>
  strings :: "ptr \<rightharpoonup> bytes"             \<comment> \<open>live \<^verbatim>\<open>std::string\<close> objects\<close>
  cells :: "ptr \<rightharpoonup> ptr option"          \<comment> \<open>live \<^verbatim>\<open>void *\<close> cells; the pointer once written\<close>
  locks :: "ptr set"                    \<comment> \<open>live \<^verbatim>\<open>unique_lock\<close> objects\<close>
  queues :: "ptr set"                   \<comment> \<open>live inter-thread queues\<close>
  next_ptr :: ptr                       \<comment> \<open>the next address \<^verbatim>\<open>new\<close> returns\<close>

definition empty_server :: server where
  "empty_server = \<lparr>comms = Map.empty, mutexes = Map.empty, condition_variables = Map.empty,
     refs = (\<lambda>_. 0), strings = Map.empty, cells = Map.empty, locks = {}, queues = {},
     next_ptr = 0\<rparr>"

section \<open>Allocation\<close>

definition new_string :: "bytes \<Rightarrow> server \<Rightarrow> ptr \<times> server" where
  "new_string d st = (next_ptr st,
     st\<lparr>strings := (strings st)(next_ptr st \<mapsto> d), next_ptr := Suc (next_ptr st)\<rparr>)"

definition new_cell :: "server \<Rightarrow> ptr \<times> server" where
  "new_cell st = (next_ptr st,
     st\<lparr>cells := (cells st)(next_ptr st \<mapsto> None), next_ptr := Suc (next_ptr st)\<rparr>)"

definition new_lock :: "server \<Rightarrow> ptr \<times> server" where
  "new_lock st = (next_ptr st,
     st\<lparr>locks := insert (next_ptr st) (locks st), next_ptr := Suc (next_ptr st)\<rparr>)"

definition new_queue :: "server \<Rightarrow> ptr \<times> server" where
  "new_queue st = (next_ptr st,
     st\<lparr>queues := insert (next_ptr st) (queues st), next_ptr := Suc (next_ptr st)\<rparr>)"

definition add_ref :: "s4u_object \<Rightarrow> server \<Rightarrow> server" where
  "add_ref x st = st\<lparr>refs := (refs st)(x := refs st x + 1)\<rparr>"

definition release :: "s4u_object \<Rightarrow> server \<Rightarrow> server" where
  "release x st = st\<lparr>refs := (refs st)(x := refs st x - 1)\<rparr>"

section \<open>The three tables\<close>

text \<open>
  Registration: the end of \<^verbatim>\<open>put_async\<close>, \<^verbatim>\<open>get_async\<close>, \<^verbatim>\<open>Mutex::create\<close> and
  \<^verbatim>\<open>ConditionVariable::create\<close>. The handle's address is the object's. The container's
  \<^verbatim>\<open>insert\<close> keeps an entry that is already there.
\<close>

definition comm_register :: "ptr option \<Rightarrow> u64 \<Rightarrow> server \<Rightarrow> server" where
  "comm_register buf a st =
     (let st = add_ref (Comm_object a) st
      in case comms st a of
           Some _ \<Rightarrow> st
         | None \<Rightarrow> st\<lparr>comms := (comms st)(a \<mapsto>
              \<lparr>rc_comm_obj = a, reception_buffer = buf, rc_comm_count = 1,
               rc_comm_node = next_ptr st\<rparr>), next_ptr := Suc (next_ptr st)\<rparr>)"

definition mutex_register :: "unit \<Rightarrow> u64 \<Rightarrow> server \<Rightarrow> server" where
  "mutex_register u a st =
     (let (l, st) = new_lock st; st = add_ref (Mutex_object a) st
      in case mutexes st a of
           Some _ \<Rightarrow> st
         | None \<Rightarrow> st\<lparr>mutexes := (mutexes st)(a \<mapsto>
              \<lparr>rc_mutex_obj = a, rc_mutex_lock = l, rc_mutex_count = 1\<rparr>)\<rparr>)"

definition cv_register :: "unit \<Rightarrow> u64 \<Rightarrow> server \<Rightarrow> server" where
  "cv_register u a st =
     (let st = add_ref (Cv_object a) st
      in case condition_variables st a of
           Some _ \<Rightarrow> st
         | None \<Rightarrow> st\<lparr>condition_variables := (condition_variables st)(a \<mapsto>
              \<lparr>rc_cv_obj = a, rc_cv_count = 1\<rparr>)\<rparr>)"

text \<open>
  The refcount-decrease decisions: the boolean is the acknowledgment's \<^verbatim>\<open>success\<close>. The
  last handle releases the object and erases the entry; \<^verbatim>\<open>remote_ref_count--\<close> is an
  unsigned decrement.
\<close>

definition comm_refcount_decrease :: "u64 \<Rightarrow> server \<Rightarrow> bool \<times> server" where
  "comm_refcount_decrease a st =
     (case comms st a of
        None \<Rightarrow> (False, st)
      | Some e \<Rightarrow>
          if rc_comm_count e = 1
          then (True, (release (Comm_object (rc_comm_obj e)) st)\<lparr>comms := (comms st)(a := None)\<rparr>)
          else (True, st\<lparr>comms := (comms st)(a \<mapsto> e\<lparr>rc_comm_count := rc_comm_count e - 1\<rparr>)\<rparr>))"

definition mutex_refcount_decrease :: "u64 \<Rightarrow> server \<Rightarrow> bool \<times> server" where
  "mutex_refcount_decrease a st =
     (case mutexes st a of
        None \<Rightarrow> (False, st)
      | Some e \<Rightarrow>
          if rc_mutex_count e = 1
          then (True, (release (Mutex_object (rc_mutex_obj e)) st)
                  \<lparr>locks := locks st - {rc_mutex_lock e}, mutexes := (mutexes st)(a := None)\<rparr>)
          else (True, st\<lparr>mutexes := (mutexes st)(a \<mapsto> e\<lparr>rc_mutex_count := rc_mutex_count e - 1\<rparr>)\<rparr>))"

definition cv_refcount_decrease :: "u64 \<Rightarrow> server \<Rightarrow> bool \<times> server" where
  "cv_refcount_decrease a st =
     (case condition_variables st a of
        None \<Rightarrow> (False, st)
      | Some e \<Rightarrow>
          if rc_cv_count e = 1
          then (True, (release (Cv_object (rc_cv_obj e)) st)
                  \<lparr>condition_variables := (condition_variables st)(a := None)\<rparr>)
          else (True, st\<lparr>condition_variables := (condition_variables st)(a \<mapsto>
                  e\<lparr>rc_cv_count := rc_cv_count e - 1\<rparr>)\<rparr>))"

section \<open>The contract of a reference-counted table\<close>

text \<open>
  What clients do with the handles of one table: create a handle to an object, drop a handle.
  \<open>table_run\<close> runs the server's operations and collects the \<^verbatim>\<open>success\<close> flags of the
  acknowledgments; \<open>handles_run\<close> is the abstract specification, a set of live handles.
\<close>

datatype 'x handle_op = Create_handle 'x u64 | Drop_handle u64

fun table_run :: "('x \<Rightarrow> u64 \<Rightarrow> 'st \<Rightarrow> 'st) \<Rightarrow> (u64 \<Rightarrow> 'st \<Rightarrow> bool \<times> 'st) \<Rightarrow>
    'x handle_op list \<Rightarrow> 'st \<Rightarrow> bool list \<times> 'st" where
  "table_run reg dec [] st = ([], st)"
| "table_run reg dec (Create_handle x a # ops) st =
     (let (bs, st') = table_run reg dec ops (reg x a st) in (True # bs, st'))"
| "table_run reg dec (Drop_handle a # ops) st =
     (let (b, st1) = dec a st; (bs, st') = table_run reg dec ops st1 in (b # bs, st'))"

fun handles_run :: "'x handle_op list \<Rightarrow> u64 set \<Rightarrow> bool list \<times> u64 set" where
  "handles_run [] H = ([], H)"
| "handles_run (Create_handle x a # ops) H =
     (let (bs, H') = handles_run ops (insert a H) in (True # bs, H'))"
| "handles_run (Drop_handle a # ops) H =
     (let (bs, H') = handles_run ops (H - {a}) in ((a \<in> H) # bs, H'))"

text \<open>
  The simulator never gives a new object the address of a live one: every created handle is
  fresh when it is created.
\<close>

fun creates_fresh :: "'x handle_op list \<Rightarrow> u64 set \<Rightarrow> bool" where
  "creates_fresh [] H = True"
| "creates_fresh (Create_handle x a # ops) H \<longleftrightarrow> a \<notin> H \<and> creates_fresh ops (insert a H)"
| "creates_fresh (Drop_handle a # ops) H \<longleftrightarrow> creates_fresh ops (H - {a})"

locale refcounted =
  fixes reg :: "'x \<Rightarrow> u64 \<Rightarrow> 'st \<Rightarrow> 'st"
    and dec :: "u64 \<Rightarrow> 'st \<Rightarrow> bool \<times> 'st"
    and cnt :: "'st \<Rightarrow> u64 \<Rightarrow> u32 option"
    and held :: "'st \<Rightarrow> u64 \<Rightarrow> int"
    and keyed :: "'st \<Rightarrow> bool"
  assumes cnt_reg: "cnt st a = None \<Longrightarrow> cnt (reg x a st) = (cnt st)(a \<mapsto> 1)"
    and held_reg: "held (reg x a st) = (held st)(a := held st a + 1)"
    and keyed_reg: "keyed st \<Longrightarrow> keyed (reg x a st)"
    and dec_unknown: "cnt st a = None \<Longrightarrow> dec a st = (False, st)"
    and dec_known: "cnt st a = Some n \<Longrightarrow> fst (dec a st)"
    and cnt_dec: "cnt st a = Some n \<Longrightarrow>
          cnt (snd (dec a st)) = (cnt st)(a := (if n = 1 then None else Some (n - 1)))"
    and held_dec: "keyed st \<Longrightarrow> cnt st a = Some n \<Longrightarrow>
          held (snd (dec a st)) = (if n = 1 then (held st)(a := held st a - 1) else held st)"
    and keyed_dec: "keyed st \<Longrightarrow> keyed (snd (dec a st))"
begin

text \<open>Every entry counts one remote handle, and the server holds one reference for it.\<close>

definition balanced :: "'st \<Rightarrow> bool" where
  "balanced st \<longleftrightarrow> keyed st \<and>
     (\<forall>a. (cnt st a = None \<and> held st a = 0) \<or> (cnt st a = Some 1 \<and> held st a = 1))"

lemma balancedD:
  "balanced st \<Longrightarrow> (cnt st a = None \<and> held st a = 0) \<or> (cnt st a = Some 1 \<and> held st a = 1)"
  by (simp add: balanced_def)

lemma balanced_reg: "balanced st \<Longrightarrow> cnt st a = None \<Longrightarrow> balanced (reg x a st)"
  by (auto simp: balanced_def cnt_reg held_reg keyed_reg)

lemma balanced_dec: "balanced st \<Longrightarrow> balanced (snd (dec a st))"
proof (cases "cnt st a")
  case None
  then show "balanced st \<Longrightarrow> balanced (snd (dec a st))" by (simp add: dec_unknown)
next
  case (Some n)
  assume bal: "balanced st"
  with Some have "n = 1" using balancedD [OF bal, of a] by auto
  with Some bal balancedD [OF bal, of a] show ?thesis
    by (auto simp: balanced_def cnt_dec held_dec keyed_dec)
qed

lemma dec_result: "balanced st \<Longrightarrow> fst (dec a st) \<longleftrightarrow> a \<in> dom (cnt st)"
  by (cases "cnt st a") (auto simp: dec_unknown dec_known)

lemma dom_dec: "balanced st \<Longrightarrow> dom (cnt (snd (dec a st))) = dom (cnt st) - {a}"
proof (cases "cnt st a")
  case None
  then show "balanced st \<Longrightarrow> ?thesis" by (auto simp: dec_unknown)
next
  case (Some n)
  assume bal: "balanced st"
  with Some have "n = 1" using balancedD [OF bal, of a] by auto
  with Some show ?thesis by (auto simp: cnt_dec)
qed

lemma dom_reg: "cnt st a = None \<Longrightarrow> dom (cnt (reg x a st)) = insert a (dom (cnt st))"
  by (simp add: cnt_reg)

text \<open>The table implements the set of live handles.\<close>

lemma table_refines_handles:
  assumes "balanced st" "creates_fresh ops (dom (cnt st))"
  shows "fst (table_run reg dec ops st) = fst (handles_run ops (dom (cnt st))) \<and>
     dom (cnt (snd (table_run reg dec ops st))) = snd (handles_run ops (dom (cnt st))) \<and>
     balanced (snd (table_run reg dec ops st))"
  using assms
proof (induction ops arbitrary: st)
  case (Cons op ops)
  show ?case
  proof (cases op)
    case (Create_handle x a)
    with Cons.prems have fresh: "cnt st a = None" by auto
    with Cons.prems Create_handle have "creates_fresh ops (dom (cnt (reg x a st)))"
      by (simp add: dom_reg)
    from Cons.IH [OF balanced_reg [OF Cons.prems(1) fresh] this] Create_handle fresh
    show ?thesis by (simp add: dom_reg split_beta)
  next
    case (Drop_handle a)
    with Cons.prems have "creates_fresh ops (dom (cnt (snd (dec a st))))"
      by (simp add: dom_dec)
    from Cons.IH [OF balanced_dec [OF Cons.prems(1)] this] Drop_handle Cons.prems(1)
    show ?thesis by (simp add: dom_dec dec_result split_beta)
  qed
qed simp

lemma table_held:
  assumes "balanced st" "creates_fresh ops (dom (cnt st))"
  shows "held (snd (table_run reg dec ops st)) a =
     (if a \<in> snd (handles_run ops (dom (cnt st))) then 1 else 0)"
proof -
  let ?st = "snd (table_run reg dec ops st)"
  have bal: "balanced ?st" and dom: "dom (cnt ?st) = snd (handles_run ops (dom (cnt st)))"
    using table_refines_handles [OF assms] by blast+
  show ?thesis
    unfolding dom [symmetric] using balancedD [OF bal, of a] by auto
qed

end

section \<open>The three tables meet the contract\<close>

definition comms_keyed :: "server \<Rightarrow> bool" where
  "comms_keyed st \<longleftrightarrow> (\<forall>a e. comms st a = Some e \<longrightarrow> rc_comm_obj e = a)"

definition mutexes_keyed :: "server \<Rightarrow> bool" where
  "mutexes_keyed st \<longleftrightarrow> (\<forall>a e. mutexes st a = Some e \<longrightarrow> rc_mutex_obj e = a)"

definition cvs_keyed :: "server \<Rightarrow> bool" where
  "cvs_keyed st \<longleftrightarrow> (\<forall>a e. condition_variables st a = Some e \<longrightarrow> rc_cv_obj e = a)"

abbreviation comm_count :: "server \<Rightarrow> u64 \<Rightarrow> u32 option" where
  "comm_count st a \<equiv> map_option rc_comm_count (comms st a)"

abbreviation mutex_count :: "server \<Rightarrow> u64 \<Rightarrow> u32 option" where
  "mutex_count st a \<equiv> map_option rc_mutex_count (mutexes st a)"

abbreviation cv_count :: "server \<Rightarrow> u64 \<Rightarrow> u32 option" where
  "cv_count st a \<equiv> map_option rc_cv_count (condition_variables st a)"

lemmas alloc_defs = new_string_def new_cell_def new_lock_def new_queue_def
lemmas refcount_defs = add_ref_def release_def
lemmas table_defs = comm_register_def mutex_register_def cv_register_def
  comm_refcount_decrease_def mutex_refcount_decrease_def cv_refcount_decrease_def

interpretation comm_table: refcounted comm_register comm_refcount_decrease comm_count
    "\<lambda>st a. refs st (Comm_object a)" comms_keyed
  by unfold_locales
    (auto simp: comm_register_def comm_refcount_decrease_def refcount_defs comms_keyed_def
       Let_def fun_eq_iff split: option.splits)

interpretation mutex_table: refcounted mutex_register mutex_refcount_decrease mutex_count
    "\<lambda>st a. refs st (Mutex_object a)" mutexes_keyed
  by unfold_locales
    (auto simp: mutex_register_def mutex_refcount_decrease_def refcount_defs mutexes_keyed_def
       new_lock_def Let_def fun_eq_iff split: option.splits)

interpretation cv_table: refcounted cv_register cv_refcount_decrease cv_count
    "\<lambda>st a. refs st (Cv_object a)" cvs_keyed
  by unfold_locales
    (auto simp: cv_register_def cv_refcount_decrease_def refcount_defs cvs_keyed_def
       Let_def fun_eq_iff split: option.splits)

end
