(* ===== verification/Simgrid_Calls.thy ===== *)
theory Simgrid_Calls
  imports Refcount_Store Interthread
begin

text \<open>
  SimGrid is not part of the repository: a simulated actor of the server only sees it through
  the calls it makes. A computation of an actor is therefore a tree: it is finished, or it
  makes one call to its surroundings (SimGrid, the inter-thread queues, the client's socket)
  and continues from the answer and from the shared state as it is when the call returns,
  since other actors may have run in the meantime. What is written between two calls runs
  without interruption, as simulated actors run in mutual exclusion.
\<close>

section \<open>Calls and answers\<close>

datatype (plugins only: code size) call =
    Sleep_for double | Sleep_until double | Execute double | Yield | Get_pid
  | Host_by_name string | Host_by_name_or_null string | Host_current
  | Actor_create string string queue       \<comment> \<open>name, host, queue the new actor waits on\<close>
  | Actor_by_pid int | Actor_get_host_name int | Actor_get_name int | Actor_join int double
  | Comm_wait_for u64 double | Comm_start u64 | Comm_cancel u64 | Comm_test u64
  | Comm_wait_any_for "u64 list" double
  | Get_clock
  | Mailbox_empty string | Mailbox_listen string | Mailbox_ready string
  | Mailbox_put string ptr u64 | Mailbox_put_async string ptr u64
  | Mailbox_get string | Mailbox_get_async string ptr
  | Mutex_create | Mutex_lock u64 | Mutex_unlock u64 | Mutex_try_lock u64
  | Cv_create | Cv_wait u64 ptr | Cv_wait_until u64 ptr double | Cv_wait_for u64 ptr double
  | Cv_notify_one u64 | Cv_notify_all u64
  | Queue_push_to_command interthread_message
  | Queue_wait queue | Queue_pop queue
  | Socket_write decision_ack
  | Socket_read

datatype s4u_exn =
  Host_failure_exn | Network_failure_exn | Timeout_exn | Cancel_exn | Other_exn string

datatype answer =
    Ret_unit
  | Ret_bool bool
  | Ret_int int
  | Ret_addr u64
  | Ret_ptr ptr
  | Ret_string string
  | Ret_double double
  | Ret_cv cv_status
  | Ret_msg "interthread_message option"
  | Ret_decision decision
  | Exn s4u_exn                            \<comment> \<open>the call throws an exception of SimGrid\<close>
  | Err rsg_error                          \<comment> \<open>the call throws an \<^verbatim>\<open>rsg::Error\<close>\<close>

section \<open>Computations\<close>

datatype undefined_behaviour =
  Dangling_iterator | Dangling_cell | Uninitialised_cell | Dangling_string | Dangling_lock
  | Index_out_of_range

text \<open>
  How the handling of a decision ends: normally, with the acknowledgment and the flags
  \<^verbatim>\<open>send_ack\<close> and \<^verbatim>\<open>quit_received\<close>; with an \<^verbatim>\<open>rsg::Error\<close>; with a SimGrid exception that
  nothing catches; or with undefined behaviour. \<open>Ill_typed\<close> is the answer of a wrong type,
  which the C++ type system excludes.
\<close>

datatype outcome =
    Handled decision_ack bool bool
  | Threw rsg_error
  | Uncaught s4u_exn
  | Undefined undefined_behaviour
  | Ill_typed

datatype prog =
    Done outcome
  | Do call "answer \<Rightarrow> server \<Rightarrow> server \<times> prog"

type_synonym code = "server \<Rightarrow> server \<times> prog"

definition finish :: "decision_ack \<Rightarrow> bool \<Rightarrow> bool \<Rightarrow> code" where
  "finish ack send_ack quit_received st = (st, Done (Handled ack send_ack quit_received))"

definition throw :: "rsg_error \<Rightarrow> code" where
  "throw e st = (st, Done (Threw e))"

definition undefined_behaviour :: "undefined_behaviour \<Rightarrow> code" where
  "undefined_behaviour u st = (st, Done (Undefined u))"

text \<open>An answer that is not the expected value ends the computation.\<close>

fun failure :: "answer \<Rightarrow> outcome" where
  "failure (Exn e) = Uncaught e"
| "failure (Err e) = Threw e"
| "failure _ = Ill_typed"

definition call_unit :: "call \<Rightarrow> code \<Rightarrow> code" where
  "call_unit c k st = (st, Do c (\<lambda>r st'.
     case r of Ret_unit \<Rightarrow> k st' | _ \<Rightarrow> (st', Done (failure r))))"

definition call_bool :: "call \<Rightarrow> (bool \<Rightarrow> code) \<Rightarrow> code" where
  "call_bool c k st = (st, Do c (\<lambda>r st'.
     case r of Ret_bool b \<Rightarrow> k b st' | _ \<Rightarrow> (st', Done (failure r))))"

definition call_int :: "call \<Rightarrow> (int \<Rightarrow> code) \<Rightarrow> code" where
  "call_int c k st = (st, Do c (\<lambda>r st'.
     case r of Ret_int i \<Rightarrow> k i st' | _ \<Rightarrow> (st', Done (failure r))))"

definition call_addr :: "call \<Rightarrow> (u64 \<Rightarrow> code) \<Rightarrow> code" where
  "call_addr c k st = (st, Do c (\<lambda>r st'.
     case r of Ret_addr a \<Rightarrow> k a st' | _ \<Rightarrow> (st', Done (failure r))))"

definition call_ptr :: "call \<Rightarrow> (ptr \<Rightarrow> code) \<Rightarrow> code" where
  "call_ptr c k st = (st, Do c (\<lambda>r st'.
     case r of Ret_ptr p \<Rightarrow> k p st' | _ \<Rightarrow> (st', Done (failure r))))"

definition call_string :: "call \<Rightarrow> (string \<Rightarrow> code) \<Rightarrow> code" where
  "call_string c k st = (st, Do c (\<lambda>r st'.
     case r of Ret_string s \<Rightarrow> k s st' | _ \<Rightarrow> (st', Done (failure r))))"

definition call_double :: "call \<Rightarrow> (double \<Rightarrow> code) \<Rightarrow> code" where
  "call_double c k st = (st, Do c (\<lambda>r st'.
     case r of Ret_double d \<Rightarrow> k d st' | _ \<Rightarrow> (st', Done (failure r))))"

definition call_cv :: "call \<Rightarrow> (cv_status \<Rightarrow> code) \<Rightarrow> code" where
  "call_cv c k st = (st, Do c (\<lambda>r st'.
     case r of Ret_cv s \<Rightarrow> k s st' | _ \<Rightarrow> (st', Done (failure r))))"

definition call_msg :: "call \<Rightarrow> (interthread_message option \<Rightarrow> code) \<Rightarrow> code" where
  "call_msg c k st = (st, Do c (\<lambda>r st'.
     case r of Ret_msg m \<Rightarrow> k m st' | _ \<Rightarrow> (st', Done (failure r))))"

text \<open>A call inside a \<^verbatim>\<open>try\<close> block: the handlers say which exceptions are caught.\<close>

definition call_unit_catch :: "call \<Rightarrow> code \<Rightarrow> (s4u_exn \<Rightarrow> code option) \<Rightarrow> code" where
  "call_unit_catch c k catch st = (st, Do c (\<lambda>r st'.
     case r of
       Ret_unit \<Rightarrow> k st'
     | Exn e \<Rightarrow> (case catch e of Some h \<Rightarrow> h st' | None \<Rightarrow> (st', Done (Uncaught e)))
     | _ \<Rightarrow> (st', Done (failure r))))"

lemmas call_defs = call_unit_def call_bool_def call_int_def call_addr_def call_ptr_def
  call_string_def call_double_def call_cv_def call_msg_def call_unit_catch_def
  finish_def throw_def undefined_behaviour_def

section \<open>Running a computation alone\<close>

text \<open>
  An environment answers the calls from a state of its own; running a computation in it gives
  the outcome, the final shared state, the environment's state and the calls made, in order.
  The environment may also change the shared state while a call blocks.
\<close>

type_synonym 'w env = "call \<Rightarrow> 'w \<Rightarrow> server \<Rightarrow> answer \<times> 'w \<times> server"

primrec run_prog :: "prog \<Rightarrow> 'w env \<Rightarrow> 'w \<Rightarrow> server \<Rightarrow> outcome \<times> server \<times> 'w \<times> call list" where
  "run_prog (Done out) = (\<lambda>env w st. (out, st, w, []))"
| "run_prog (Do c k) = (\<lambda>env w st.
     case env c w st of (r, w1, st1) \<Rightarrow>
       (case map_prod id run_prog (k r st1) of (st2, run_rest) \<Rightarrow>
          (case run_rest env w1 st2 of (out, st', w', cs) \<Rightarrow> (out, st', w', c # cs))))"

definition run_code :: "code \<Rightarrow> 'w env \<Rightarrow> 'w \<Rightarrow> server \<Rightarrow> outcome \<times> server \<times> 'w \<times> call list" where
  "run_code m env w st = (case m st of (st1, p) \<Rightarrow> run_prog p env w st1)"

text \<open>The environment that answers from a list and leaves the shared state alone.\<close>

fun scripted :: "answer list env" where
  "scripted c [] st = (Err ''end of script'', [], st)"
| "scripted c (r # rs) st = (r, rs, st)"

end
