(* ===== verification/Decision_Handler.thy ===== *)
theory Decision_Handler
  imports Simgrid_Calls
begin

text \<open>
  The server's handler of a client decision: \<^verbatim>\<open>handle_decision\<close> of
  \<^verbatim>\<open>src/rsg/simulation.cpp\<close>, one definition per case of its \<^verbatim>\<open>switch\<close>, in the
  code's order. A local iterator into a table is the node it denotes; it is dereferenced after a
  blocking call where the code does so. Logging is left out.
\<close>

section \<open>Acknowledgment shorthands\<close>

definition ack_ok :: decision_ack where
  "ack_ok = decision_ack0\<lparr>success := True\<rparr>"

definition ack_ko :: decision_ack where
  "ack_ko = ack_ok\<lparr>success := False\<rparr>"

abbreviation reply :: "decision_ack \<Rightarrow> code" where
  "reply ack \<equiv> finish ack True False"

abbreviation reply_with :: "ack_data \<Rightarrow> code" where
  "reply_with d \<equiv> reply (ack_ok\<lparr>ack_data := d\<rparr>)"

abbreviation reply_success :: "bool \<Rightarrow> code" where
  "reply_success b \<equiv> reply (ack_ok\<lparr>success := b\<rparr>)"

text \<open>\<^verbatim>\<open>catch (const HostFailureException &)\<close>: the decision fails.\<close>

definition on_host_failure :: "s4u_exn \<Rightarrow> code option" where
  "on_host_failure e = (if e = Host_failure_exn then Some (reply ack_ko) else None)"

text \<open>
  The lookup most cases begin with: \<^verbatim>\<open>auto it = table.find(address)\<close>, a failed decision
  when it is \<^verbatim>\<open>end()\<close>, otherwise the code that uses the entry.
\<close>

definition find_or_fail :: "(server \<Rightarrow> 'e option) \<Rightarrow> ('e \<Rightarrow> code) \<Rightarrow> code" where
  "find_or_fail lookup k st =
     (case lookup st of None \<Rightarrow> reply ack_ko st | Some e \<Rightarrow> k e st)"

section \<open>Quit and actors\<close>

definition handle_quit :: code where
  "handle_quit = finish ack_ok False True"

text \<open>
  The end of an actor creation: the acknowledgment of the command thread has been popped
  (None when the pop failed), the queue is deleted and the client is told the new actor's
  identifier.
\<close>

definition create_acknowledged :: "int \<Rightarrow> queue \<Rightarrow> interthread_message option \<Rightarrow> code" where
  "create_acknowledged new_actor_pid can_connect_ack popped =
     (case popped of
        None \<Rightarrow> throw ''Internal interthread messaging error: Actor could not read ACTOR_CREATE_ACK''
      | Some m \<Rightarrow>
          if message_type m \<noteq> ACTOR_CREATE_ACK
          then throw ''Interthread messaging error: Bad message type (expected ACTOR_CREATE_ACK, got %s)''
          else (\<lambda>st.
            let decision_ack = ack_ok\<lparr>ack_data := A_actorCreate new_actor_pid\<rparr>
            in call_unit (Socket_write decision_ack) (finish decision_ack False False)
                 (st\<lparr>queues := queues st - {can_connect_ack}\<rparr>)))"

definition announce_actor :: "queue \<Rightarrow> queue \<Rightarrow> int \<Rightarrow> code" where
  "announce_actor can_connect_ack connect_ack new_actor_pid =
     call_bool (Queue_push_to_command
         (Im_actor_create new_actor_pid can_connect_ack connect_ack)) (\<lambda>could_write.
       if \<not> could_write
       then throw ''Internal interthread messaging error: Actor could not write ACTOR_CREATE''
       else call_unit (Queue_wait can_connect_ack)
              (call_msg (Queue_pop can_connect_ack)
                (create_acknowledged new_actor_pid can_connect_ack)))"

definition handle_actor_create :: "string \<Rightarrow> string \<Rightarrow> code" where
  "handle_actor_create name host =
     call_unit (Host_by_name host) (\<lambda>st.
       let (can_connect_ack, st) = new_queue st; (connect_ack, st) = new_queue st
       in call_int (Actor_create (c_str name) host connect_ack)
            (announce_actor can_connect_ack connect_ack) st)"

definition handle_actor_get_host :: "int \<Rightarrow> code" where
  "handle_actor_get_host i =
     call_bool (Actor_by_pid i) (\<lambda>found.
       if found then call_string (Actor_get_host_name i) (\<lambda>n. reply_with (A_actorGetHost n))
       else reply ack_ko)"

definition handle_actor_get_name :: "int \<Rightarrow> code" where
  "handle_actor_get_name i =
     call_bool (Actor_by_pid i) (\<lambda>found.
       if found then call_string (Actor_get_name i) (\<lambda>n. reply_with (A_actorGetName n))
       else reply ack_ko)"

definition handle_actor_join :: "int \<Rightarrow> double \<Rightarrow> code" where
  "handle_actor_join i timeout =
     call_bool (Actor_by_pid i) (\<lambda>found.
       if found then call_unit (Actor_join i timeout) (reply ack_ok) else reply ack_ko)"

section \<open>this\_actor\<close>

definition handle_execute :: "double \<Rightarrow> code" where
  "handle_execute flop = call_unit_catch (Execute flop) (reply ack_ok) on_host_failure"

definition handle_sleep_for :: "double \<Rightarrow> code" where
  "handle_sleep_for d = call_unit_catch (Sleep_for d) (reply ack_ok) on_host_failure"

definition handle_sleep_until :: "double \<Rightarrow> code" where
  "handle_sleep_until t = call_unit_catch (Sleep_until t) (reply ack_ok) on_host_failure"

definition handle_yield :: code where
  "handle_yield = call_unit Yield (reply ack_ok)"

section \<open>Communications\<close>

text \<open>
  The transfer of a received message into an acknowledgment, the same code in
  \<^verbatim>\<open>wait_for\<close>, \<^verbatim>\<open>test\<close> and \<^verbatim>\<open>wait_any_for\<close>: copy the string the reception buffer points
  to, delete the string and the buffer, and reset the entry's pointer.
\<close>

definition take_received :: "u64 \<Rightarrow> rc_comm \<Rightarrow> server \<Rightarrow> undefined_behaviour + bytes \<times> server" where
  "take_received a e st =
     (case reception_buffer e of
        None \<Rightarrow> Inr ([], st)
      | Some b \<Rightarrow>
          (case cells st b of
             None \<Rightarrow> Inl Dangling_cell
           | Some None \<Rightarrow> Inl Uninitialised_cell
           | Some (Some p) \<Rightarrow>
               (case strings st p of
                  None \<Rightarrow> Inl Dangling_string
                | Some received_message \<Rightarrow>
                    Inr (received_message,
                      st\<lparr>strings := (strings st)(p := None), cells := (cells st)(b := None),
                         comms := (comms st)(a \<mapsto> e\<lparr>reception_buffer := None\<rparr>)\<rparr>))))"

text \<open>Dereferencing an iterator obtained before the shared state changed.\<close>

definition comm_deref :: "u64 \<Rightarrow> ptr \<Rightarrow> server \<Rightarrow> rc_comm option" where
  "comm_deref a node st =
     (case comms st a of
        Some e \<Rightarrow> if rc_comm_node e = node then Some e else None
      | None \<Rightarrow> None)"

definition reply_received :: "u64 \<Rightarrow> rc_comm \<Rightarrow> (bytes \<Rightarrow> ack_data) \<Rightarrow> code" where
  "reply_received a e mk st =
     (case take_received a e st of
        Inl u \<Rightarrow> undefined_behaviour u st
      | Inr (d, st') \<Rightarrow> reply_with (mk d) st')"

definition handle_comm_refcount_decrease :: "u64 \<Rightarrow> code" where
  "handle_comm_refcount_decrease a st =
     (let (known, st') = comm_refcount_decrease a st in reply_success known st')"

definition handle_comm_wait_for :: "u64 \<Rightarrow> double \<Rightarrow> code" where
  "handle_comm_wait_for a timeout =
     find_or_fail (\<lambda>st. comms st a) (\<lambda>e.
       call_unit_catch (Comm_wait_for (rc_comm_obj e) timeout)
         (\<lambda>st. case comm_deref a (rc_comm_node e) st of
                 None \<Rightarrow> undefined_behaviour Dangling_iterator st
               | Some e' \<Rightarrow> reply_received a e' (A_commWaitFor False) st)
         (\<lambda>x. if x = Timeout_exn then Some (reply_with (A_commWaitFor True []))
              else if x = Cancel_exn then Some (reply ack_ko)
              else None))"

definition handle_comm_cancel :: "u64 \<Rightarrow> code" where
  "handle_comm_cancel a =
     find_or_fail (\<lambda>st. comms st a) (\<lambda>e. call_unit (Comm_start (rc_comm_obj e)) (reply ack_ok))"

definition handle_comm_test :: "u64 \<Rightarrow> code" where
  "handle_comm_test a =
     find_or_fail (\<lambda>st. comms st a) (\<lambda>e.
       call_bool (Comm_test (rc_comm_obj e)) (\<lambda>is_terminated st.
         if \<not> is_terminated then reply_with (A_commTest False []) st
         else (case comm_deref a (rc_comm_node e) st of
                 None \<Rightarrow> undefined_behaviour Dangling_iterator st
               | Some e' \<Rightarrow> reply_received a e' (A_commTest True) st)))"

text \<open>The loop that collects the communications to wait for; None when one is unknown.\<close>

fun find_comms :: "server \<Rightarrow> u64 list \<Rightarrow> u64 list option" where
  "find_comms st [] = Some []"
| "find_comms st (a # as) =
     (case comms st a of
        None \<Rightarrow> None
      | Some e \<Rightarrow> (case find_comms st as of
                    None \<Rightarrow> None
                  | Some os \<Rightarrow> Some (rc_comm_obj e # os)))"

definition handle_comm_wait_any_for :: "u64 list \<Rightarrow> double \<Rightarrow> code" where
  "handle_comm_wait_any_for as timeout st =
     (case find_comms st as of
        None \<Rightarrow> throw ''cannot wait_any_for on unknown Comm pointer %lu'' st
      | Some objs \<Rightarrow>
          call_int (Comm_wait_any_for objs timeout) (\<lambda>finished_index st'.
            if finished_index < 0 then reply_with (A_commWaitAnyFor finished_index []) st'
            else if int (length as) \<le> finished_index then undefined_behaviour Index_out_of_range st'
            else (let a = as ! nat finished_index in
                  case comms st' a of
                    None \<Rightarrow> throw ''Comm memory management inconsistency'' st'
                  | Some e \<Rightarrow> reply_received a e (A_commWaitAnyFor finished_index) st')) st)"

section \<open>Engine and hosts\<close>

definition handle_engine_get_clock :: code where
  "handle_engine_get_clock = call_double Get_clock (\<lambda>t. reply_with (A_engineGetClock t))"

definition handle_host_by_name_or_null :: "string \<Rightarrow> code" where
  "handle_host_by_name_or_null n = call_bool (Host_by_name_or_null n) reply_success"

definition handle_host_current :: code where
  "handle_host_current = call_string Host_current (\<lambda>n. reply_with (A_hostCurrent n))"

section \<open>Mailboxes\<close>

definition handle_mailbox_empty :: "string \<Rightarrow> code" where
  "handle_mailbox_empty n = call_bool (Mailbox_empty n) reply_success"

definition handle_mailbox_listen :: "string \<Rightarrow> code" where
  "handle_mailbox_listen n = call_bool (Mailbox_listen n) reply_success"

definition handle_mailbox_ready :: "string \<Rightarrow> code" where
  "handle_mailbox_ready n = call_bool (Mailbox_ready n) reply_success"

definition handle_mailbox_put :: "string \<Rightarrow> bytes \<Rightarrow> u64 \<Rightarrow> code" where
  "handle_mailbox_put n d simulated_size st =
     (let (p, st) = new_string d st
      in call_unit (Mailbox_put n p simulated_size) (reply ack_ok) st)"

text \<open>
  The simulator has returned a communication: check that it is new, take a reference on it,
  store it and tell the client its address (the same code for puts and gets).
\<close>

definition store_new_comm ::
    "rsg_error \<Rightarrow> (u64 \<Rightarrow> ack_data) \<Rightarrow> ptr option \<Rightarrow> u64 \<Rightarrow> code" where
  "store_new_comm already_exists mk reception_buf comm_address st =
     (if comms st comm_address \<noteq> None then throw already_exists st
      else reply_with (mk comm_address) (comm_register reception_buf comm_address st))"

definition handle_mailbox_put_async :: "string \<Rightarrow> bytes \<Rightarrow> u64 \<Rightarrow> code" where
  "handle_mailbox_put_async n d simulated_size st =
     (let (p, st) = new_string d st
      in call_addr (Mailbox_put_async n p simulated_size)
           (store_new_comm ''s4u::Mailbox::put_async returned an already existing Comm''
              A_mailboxPutAsync None) st)"

text \<open>A received message is written to the client's socket, then deleted.\<close>

definition deliver_message :: "ptr \<Rightarrow> code" where
  "deliver_message p st =
     (case strings st p of
        None \<Rightarrow> undefined_behaviour Dangling_string st
      | Some d \<Rightarrow>
          call_unit (Socket_write (ack_ok\<lparr>ack_data := A_mailboxGet d\<rparr>)) (\<lambda>st.
            if strings st p = None then undefined_behaviour Dangling_string st
            else finish (ack_ok\<lparr>ack_data := A_mailboxGet d\<rparr>) False False
                   (st\<lparr>strings := (strings st)(p := None)\<rparr>)) st)"

definition handle_mailbox_get :: "string \<Rightarrow> code" where
  "handle_mailbox_get n = call_ptr (Mailbox_get n) deliver_message"

definition handle_mailbox_get_async :: "string \<Rightarrow> code" where
  "handle_mailbox_get_async n st =
     (let (b, st) = new_cell st
      in call_addr (Mailbox_get_async n b)
           (store_new_comm ''s4u::Mailbox::get_async returned an already existing Comm''
              A_mailboxGetAsync (Some b)) st)"

section \<open>Mutexes\<close>

definition handle_mutex_create :: code where
  "handle_mutex_create =
     call_addr Mutex_create (\<lambda>a st. reply_with (A_mutexCreate a) (mutex_register () a st))"

definition handle_mutex_refcount_decrease :: "u64 \<Rightarrow> code" where
  "handle_mutex_refcount_decrease a st =
     (let (known, st') = mutex_refcount_decrease a st in reply_success known st')"

definition handle_mutex_lock :: "u64 \<Rightarrow> code" where
  "handle_mutex_lock a =
     find_or_fail (\<lambda>st. mutexes st a) (\<lambda>e. call_unit (Mutex_lock (rc_mutex_obj e)) (reply ack_ok))"

definition handle_mutex_unlock :: "u64 \<Rightarrow> code" where
  "handle_mutex_unlock a =
     find_or_fail (\<lambda>st. mutexes st a) (\<lambda>e. call_unit (Mutex_unlock (rc_mutex_obj e)) (reply ack_ok))"

text \<open>The code looks the mutex up under \<^verbatim>\<open>decision.mutexunlock().address()\<close>.\<close>

definition handle_mutex_try_lock :: "decision_type \<Rightarrow> code" where
  "handle_mutex_try_lock d =
     find_or_fail (\<lambda>st. mutexes st (mutexunlock d)) (\<lambda>e.
       call_bool (Mutex_try_lock (rc_mutex_obj e)) (\<lambda>b. reply_with (A_mutexTryLock b)))"

section \<open>Condition variables\<close>

definition handle_cv_create :: code where
  "handle_cv_create =
     call_addr Cv_create (\<lambda>a st. reply_with (A_conditionVariableCreate a) (cv_register () a st))"

definition handle_cv_refcount_decrease :: "u64 \<Rightarrow> code" where
  "handle_cv_refcount_decrease a st =
     (let (known, st') = cv_refcount_decrease a st in reply_success known st')"

text \<open>The three waits look both objects up and dereference the mutex's lock.\<close>

definition with_cv_and_lock :: "u64 \<Rightarrow> u64 \<Rightarrow> (u64 \<Rightarrow> ptr \<Rightarrow> code) \<Rightarrow> code" where
  "with_cv_and_lock cv m k =
     find_or_fail (\<lambda>st. case (condition_variables st cv, mutexes st m) of
                     (Some c, Some e) \<Rightarrow> Some (c, e) | _ \<Rightarrow> None)
       (\<lambda>(c, e) st. if rc_mutex_lock e \<in> locks st then k (rc_cv_obj c) (rc_mutex_lock e) st
                   else undefined_behaviour Dangling_lock st)"

definition handle_cv_wait :: "u64 \<Rightarrow> u64 \<Rightarrow> code" where
  "handle_cv_wait cv m =
     with_cv_and_lock cv m (\<lambda>c l. call_unit (Cv_wait c l) (reply ack_ok))"

definition handle_cv_wait_until :: "u64 \<Rightarrow> u64 \<Rightarrow> double \<Rightarrow> code" where
  "handle_cv_wait_until cv m timeout_time =
     with_cv_and_lock cv m (\<lambda>c l. call_cv (Cv_wait_until c l timeout_time)
       (\<lambda>s. reply_with (A_conditionVariableWaitUntil (if s = No_timeout then No_timeout else Timeout))))"

definition handle_cv_wait_for :: "u64 \<Rightarrow> u64 \<Rightarrow> double \<Rightarrow> code" where
  "handle_cv_wait_for cv m duration =
     with_cv_and_lock cv m (\<lambda>c l. call_cv (Cv_wait_for c l duration)
       (\<lambda>s. reply_with (A_conditionVariableWaitFor (if s = No_timeout then No_timeout else Timeout))))"

definition handle_cv_notify_one :: "u64 \<Rightarrow> code" where
  "handle_cv_notify_one cv =
     find_or_fail (\<lambda>st. condition_variables st cv) (\<lambda>c.
       call_unit (Cv_notify_one (rc_cv_obj c)) (reply ack_ok))"

definition handle_cv_notify_all :: "u64 \<Rightarrow> code" where
  "handle_cv_notify_all cv =
     find_or_fail (\<lambda>st. condition_variables st cv) (\<lambda>c.
       call_unit (Cv_notify_all (rc_cv_obj c)) (reply ack_ok))"

section \<open>The dispatcher\<close>

primrec handle_type :: "decision_type \<Rightarrow> code" where
  "handle_type (KQuit b) = handle_quit"
| "handle_type (KActorCreate n h) = handle_actor_create n h"
| "handle_type (KActorGetHost i) = handle_actor_get_host i"
| "handle_type (KActorGetName i) = handle_actor_get_name i"
| "handle_type (KActorJoin i t) = handle_actor_join i t"
| "handle_type (KThisActorExecute f) = handle_execute f"
| "handle_type (KThisActorSleepFor t) = handle_sleep_for t"
| "handle_type (KThisActorSleepUntil t) = handle_sleep_until t"
| "handle_type (KThisActorYield b) = handle_yield"
| "handle_type (KCommRefcountDecrease a) = handle_comm_refcount_decrease a"
| "handle_type (KCommWaitFor a t) = handle_comm_wait_for a t"
| "handle_type (KCommCancel a) = handle_comm_cancel a"
| "handle_type (KCommTest a) = handle_comm_test a"
| "handle_type (KCommWaitAnyFor as t) = handle_comm_wait_any_for as t"
| "handle_type (KEngineGetClock b) = handle_engine_get_clock"
| "handle_type (KHostByNameOrNull n) = handle_host_by_name_or_null n"
| "handle_type (KHostCurrent b) = handle_host_current"
| "handle_type (KMailboxEmpty n) = handle_mailbox_empty n"
| "handle_type (KMailboxListen n) = handle_mailbox_listen n"
| "handle_type (KMailboxReady n) = handle_mailbox_ready n"
| "handle_type (KMailboxPut n d s) = handle_mailbox_put n d s"
| "handle_type (KMailboxPutAsync n d s) = handle_mailbox_put_async n d s"
| "handle_type (KMailboxGet n) = handle_mailbox_get n"
| "handle_type (KMailboxGetAsync n) = handle_mailbox_get_async n"
| "handle_type (KMutexCreate b) = handle_mutex_create"
| "handle_type (KMutexRefcountDecrease a) = handle_mutex_refcount_decrease a"
| "handle_type (KMutexLock a) = handle_mutex_lock a"
| "handle_type (KMutexUnlock a) = handle_mutex_unlock a"
| "handle_type (KMutexTryLock a) = handle_mutex_try_lock (KMutexTryLock a)"
| "handle_type (KConditionVariableCreate b) = handle_cv_create"
| "handle_type (KConditionVariableRefcountDecrease a) = handle_cv_refcount_decrease a"
| "handle_type (KConditionVariableWait c m) = handle_cv_wait c m"
| "handle_type (KConditionVariableWaitUntil c m t) = handle_cv_wait_until c m t"
| "handle_type (KConditionVariableWaitFor c m t) = handle_cv_wait_for c m t"
| "handle_type (KConditionVariableNotifyOne c) = handle_cv_notify_one c"
| "handle_type (KConditionVariableNotifyAll c) = handle_cv_notify_all c"
| "handle_type Decision_type_not_set =
     throw ''Received a decision with unset decision type.''"

definition handle_decision :: "decision \<Rightarrow> code" where
  "handle_decision d =
     (if \<not> double_ge0 (think_time d) then throw ''Invalid actor thinking time received (%g)''
      else if double_gt0 (think_time d)
           then call_unit (Sleep_for (think_time d)) (handle_type (type_case d))
           else handle_type (type_case d))"

declare handle_quit_def [handler_defs]
  handle_actor_create_def [handler_defs] handle_actor_get_host_def [handler_defs]
  handle_actor_get_name_def [handler_defs] handle_actor_join_def [handler_defs]
  handle_execute_def [handler_defs] handle_sleep_for_def [handler_defs]
  handle_sleep_until_def [handler_defs] handle_yield_def [handler_defs]
  handle_comm_refcount_decrease_def [handler_defs] handle_comm_wait_for_def [handler_defs]
  handle_comm_cancel_def [handler_defs] handle_comm_test_def [handler_defs]
  handle_comm_wait_any_for_def [handler_defs] handle_engine_get_clock_def [handler_defs]
  handle_host_by_name_or_null_def [handler_defs] handle_host_current_def [handler_defs]
  handle_mailbox_empty_def [handler_defs] handle_mailbox_listen_def [handler_defs]
  handle_mailbox_ready_def [handler_defs] handle_mailbox_put_def [handler_defs]
  handle_mailbox_put_async_def [handler_defs] handle_mailbox_get_def [handler_defs]
  handle_mailbox_get_async_def [handler_defs] handle_mutex_create_def [handler_defs]
  handle_mutex_refcount_decrease_def [handler_defs] handle_mutex_lock_def [handler_defs]
  handle_mutex_unlock_def [handler_defs] handle_mutex_try_lock_def [handler_defs]
  handle_cv_create_def [handler_defs] handle_cv_refcount_decrease_def [handler_defs]
  handle_cv_wait_def [handler_defs] handle_cv_wait_until_def [handler_defs]
  handle_cv_wait_for_def [handler_defs] handle_cv_notify_one_def [handler_defs]
  handle_cv_notify_all_def [handler_defs]

end
