(* ===== verification/Server_Invariant.thy ===== *)
theory Server_Invariant
  imports Decision_Handler
begin

text \<open>
  The invariant of the state the simulated actors share (tables balanced with the references
  held on the simulator's objects, reception buffers, payload strings and locks alive and not
  shared), and its preservation by every operation the decision handler applies between two
  calls.
\<close>

section \<open>The invariant\<close>

definition attached :: "server \<Rightarrow> ptr \<Rightarrow> bool" where
  "attached st b \<longleftrightarrow> (\<exists>a e. comms st a = Some e \<and> reception_buffer e = Some b)"

text \<open>
  The heap: what lives is below the allocation limit, a written cell points to a live string,
  and no string is pointed to twice.
\<close>

definition heap_ok :: "server \<Rightarrow> bool" where
  "heap_ok st \<longleftrightarrow>
     (\<forall>p d. strings st p = Some d \<longrightarrow> p < next_ptr st) \<and>
     (\<forall>b x. cells st b = Some x \<longrightarrow> b < next_ptr st) \<and>
     (\<forall>l \<in> locks st. l < next_ptr st) \<and>
     (\<forall>b p. cells st b = Some (Some p) \<longrightarrow> strings st p \<noteq> None) \<and>
     (\<forall>b b' p. cells st b = Some (Some p) \<and> cells st b' = Some (Some p) \<longrightarrow> b = b')"

text \<open>Every reception buffer is alive and belongs to one communication.\<close>

definition buffers_ok :: "server \<Rightarrow> bool" where
  "buffers_ok st \<longleftrightarrow>
     (\<forall>a e b. comms st a = Some e \<and> reception_buffer e = Some b \<longrightarrow> cells st b \<noteq> None) \<and>
     (\<forall>a a' e e' b. comms st a = Some e \<and> comms st a' = Some e' \<and>
        reception_buffer e = Some b \<and> reception_buffer e' = Some b \<longrightarrow> a = a') \<and>
     (\<forall>a e. comms st a = Some e \<longrightarrow> rc_comm_node e < next_ptr st)"

definition locks_ok :: "server \<Rightarrow> bool" where
  "locks_ok st \<longleftrightarrow>
     (\<forall>a e. mutexes st a = Some e \<longrightarrow> rc_mutex_lock e \<in> locks st) \<and>
     (\<forall>a a' e e'. mutexes st a = Some e \<and> mutexes st a' = Some e' \<and>
        rc_mutex_lock e = rc_mutex_lock e' \<longrightarrow> a = a')"

definition tables_ok :: "server \<Rightarrow> bool" where
  "tables_ok st \<longleftrightarrow> comm_table.balanced st \<and> mutex_table.balanced st \<and> cv_table.balanced st"

definition server_ok :: "server \<Rightarrow> bool" where
  "server_ok st \<longleftrightarrow> heap_ok st \<and> buffers_ok st \<and> locks_ok st \<and> tables_ok st"

lemmas server_ok_parts = heap_ok_def buffers_ok_def locks_ok_def tables_ok_def

lemma server_ok_empty: "server_ok empty_server"
  by (simp add: server_ok_def server_ok_parts empty_server_def comm_table.balanced_def
      mutex_table.balanced_def cv_table.balanced_def comms_keyed_def mutexes_keyed_def
      cvs_keyed_def)

text \<open>The tables' balance only depends on the tables and the reference counts.\<close>

lemma tables_ok_cong:
  assumes "comms st' = comms st" "mutexes st' = mutexes st"
    "condition_variables st' = condition_variables st" "refs st' = refs st"
  shows "tables_ok st' = tables_ok st"
  using assms
  by (simp add: tables_ok_def comm_table.balanced_def mutex_table.balanced_def
      cv_table.balanced_def comms_keyed_def mutexes_keyed_def cvs_keyed_def)

lemma comm_entry:
  assumes "server_ok st" "comms st a = Some e"
  shows "rc_comm_obj e = a" "rc_comm_count e = 1"
proof -
  from assms(1) have bal: "comm_table.balanced st" by (simp add: server_ok_def tables_ok_def)
  with assms(2) show "rc_comm_obj e = a"
    by (auto simp: comm_table.balanced_def comms_keyed_def)
  from comm_table.balancedD [OF bal, of a] assms(2) show "rc_comm_count e = 1" by auto
qed

lemma mutex_entry:
  assumes "server_ok st" "mutexes st a = Some e"
  shows "rc_mutex_obj e = a" "rc_mutex_count e = 1" "rc_mutex_lock e \<in> locks st"
proof -
  from assms(1) have bal: "mutex_table.balanced st" by (simp add: server_ok_def tables_ok_def)
  with assms(2) show "rc_mutex_obj e = a"
    by (auto simp: mutex_table.balanced_def mutexes_keyed_def)
  from mutex_table.balancedD [OF bal, of a] assms(2) show "rc_mutex_count e = 1" by auto
  from assms show "rc_mutex_lock e \<in> locks st" by (auto simp: server_ok_def locks_ok_def)
qed

lemma cv_entry:
  assumes "server_ok st" "condition_variables st a = Some e"
  shows "rc_cv_obj e = a" "rc_cv_count e = 1"
proof -
  from assms(1) have bal: "cv_table.balanced st" by (simp add: server_ok_def tables_ok_def)
  with assms(2) show "rc_cv_obj e = a" by (auto simp: cv_table.balanced_def cvs_keyed_def)
  from cv_table.balancedD [OF bal, of a] assms(2) show "rc_cv_count e = 1" by auto
qed

section \<open>Preservation by allocation\<close>

lemma fresh_next:
  assumes "server_ok st"
  shows "strings st (next_ptr st) = None" "cells st (next_ptr st) = None"
    "next_ptr st \<notin> locks st" "\<not> attached st (next_ptr st)"
proof -
  show cells: "cells st (next_ptr st) = None"
    using assms unfolding server_ok_def heap_ok_def by (metis less_irrefl not_Some_eq)
  show "strings st (next_ptr st) = None"
    using assms unfolding server_ok_def heap_ok_def by (metis less_irrefl not_Some_eq)
  show "next_ptr st \<notin> locks st" using assms unfolding server_ok_def heap_ok_def by blast
  show "\<not> attached st (next_ptr st)"
    using assms cells unfolding server_ok_def buffers_ok_def attached_def by blast
qed

lemma server_ok_new_string:
  assumes "server_ok st"
  shows "server_ok (snd (new_string d st))"
proof -
  have "tables_ok (snd (new_string d st)) = tables_ok st"
    by (rule tables_ok_cong) (simp_all add: new_string_def)
  moreover have "heap_ok (snd (new_string d st))"
    using assms fresh_next [OF assms]
    by (auto simp: server_ok_def heap_ok_def new_string_def less_Suc_eq)
  ultimately show ?thesis
    using assms by (auto simp: server_ok_def buffers_ok_def locks_ok_def new_string_def less_Suc_eq)
qed

lemma server_ok_new_cell:
  assumes "server_ok st"
  shows "server_ok (snd (new_cell st))"
proof -
  have "tables_ok (snd (new_cell st)) = tables_ok st"
    by (rule tables_ok_cong) (simp_all add: new_cell_def)
  with assms fresh_next [OF assms] show ?thesis
    unfolding server_ok_def heap_ok_def buffers_ok_def locks_ok_def
    by (auto simp: new_cell_def less_Suc_eq split: if_splits)
qed

lemma server_ok_new_queue:
  assumes "server_ok st"
  shows "server_ok (snd (new_queue st))"
proof -
  have "tables_ok (snd (new_queue st)) = tables_ok st"
    by (rule tables_ok_cong) (simp_all add: new_queue_def)
  with assms show ?thesis
    unfolding server_ok_def heap_ok_def buffers_ok_def locks_ok_def
    by (auto simp: new_queue_def less_Suc_eq)
qed

lemma server_ok_queues [simp]: "server_ok (st\<lparr>queues := Q\<rparr>) = server_ok st"
proof -
  have "tables_ok (st\<lparr>queues := Q\<rparr>) = tables_ok st" by (rule tables_ok_cong) simp_all
  then show ?thesis by (simp add: server_ok_def heap_ok_def buffers_ok_def locks_ok_def)
qed

section \<open>Preservation by the tables' operations\<close>

lemma server_ok_comm_register:
  assumes "server_ok st" "comms st a = None"
    and "\<And>b. buf = Some b \<Longrightarrow> cells st b \<noteq> None \<and> \<not> attached st b"
  shows "server_ok (comm_register buf a st)"
proof -
  let ?st = "comm_register buf a st"
  have "comm_table.balanced ?st"
    using assms(1,2) by (intro comm_table.balanced_reg) (simp_all add: server_ok_def tables_ok_def)
  moreover have "mutex_table.balanced ?st = mutex_table.balanced st"
      "cv_table.balanced ?st = cv_table.balanced st"
    using assms(2) by (auto simp: comm_register_def add_ref_def mutex_table.balanced_def
      cv_table.balanced_def mutexes_keyed_def cvs_keyed_def)
  ultimately have "tables_ok ?st" using assms(1) by (simp add: server_ok_def tables_ok_def)
  moreover have "heap_ok ?st" "locks_ok ?st"
    using assms(1,2) by (auto simp: server_ok_def heap_ok_def locks_ok_def comm_register_def
      add_ref_def less_Suc_eq)
  moreover have "buffers_ok ?st"
    using assms by (auto simp: server_ok_def buffers_ok_def comm_register_def add_ref_def
      less_Suc_eq attached_def split: if_splits)
  ultimately show ?thesis by (simp add: server_ok_def)
qed

lemma server_ok_mutex_register:
  assumes "server_ok st" "mutexes st a = None"
  shows "server_ok (mutex_register u a st)"
proof -
  let ?st = "mutex_register u a st"
  have "mutex_table.balanced ?st"
    using assms by (intro mutex_table.balanced_reg) (simp_all add: server_ok_def tables_ok_def)
  moreover have "comm_table.balanced ?st = comm_table.balanced st"
      "cv_table.balanced ?st = cv_table.balanced st"
    using assms(2) by (auto simp: mutex_register_def new_lock_def add_ref_def
      comm_table.balanced_def cv_table.balanced_def comms_keyed_def cvs_keyed_def)
  ultimately have "tables_ok ?st" using assms(1) by (simp add: server_ok_def tables_ok_def)
  moreover have "heap_ok ?st" "buffers_ok ?st"
    using assms by (auto simp: server_ok_def heap_ok_def buffers_ok_def mutex_register_def
      new_lock_def add_ref_def less_Suc_eq)
  moreover have new: "mutexes st a' \<noteq> Some e" if "next_ptr st = rc_mutex_lock e" for a' e
    using mutex_entry(3) [OF assms(1)] fresh_next(3) [OF assms(1)] that by metis
  have "locks_ok ?st"
    using assms unfolding server_ok_def locks_ok_def
    by (auto simp: mutex_register_def new_lock_def add_ref_def new split: if_splits)
  ultimately show ?thesis by (simp add: server_ok_def)
qed

lemma server_ok_cv_register:
  assumes "server_ok st" "condition_variables st a = None"
  shows "server_ok (cv_register u a st)"
proof -
  let ?st = "cv_register u a st"
  have "cv_table.balanced ?st"
    using assms by (intro cv_table.balanced_reg) (simp_all add: server_ok_def tables_ok_def)
  moreover have "comm_table.balanced ?st = comm_table.balanced st"
      "mutex_table.balanced ?st = mutex_table.balanced st"
    using assms(2) by (auto simp: cv_register_def add_ref_def
      comm_table.balanced_def mutex_table.balanced_def comms_keyed_def mutexes_keyed_def)
  ultimately have "tables_ok ?st" using assms(1) by (simp add: server_ok_def tables_ok_def)
  then show ?thesis
    using assms by (auto simp: server_ok_def heap_ok_def buffers_ok_def locks_ok_def
      cv_register_def add_ref_def)
qed

lemma comm_decrease_eq:
  assumes "server_ok st"
  shows "comm_refcount_decrease a st =
     (if comms st a = None then (False, st)
      else (True, (release (Comm_object a) st)\<lparr>comms := (comms st)(a := None)\<rparr>))"
  using comm_entry [OF assms] by (auto simp: comm_refcount_decrease_def split: option.splits)

lemma mutex_decrease_eq:
  assumes "server_ok st"
  shows "mutex_refcount_decrease a st =
     (case mutexes st a of None \<Rightarrow> (False, st)
      | Some e \<Rightarrow> (True, (release (Mutex_object a) st)
           \<lparr>locks := locks st - {rc_mutex_lock e}, mutexes := (mutexes st)(a := None)\<rparr>))"
  using mutex_entry [OF assms] by (auto simp: mutex_refcount_decrease_def split: option.splits)

lemma cv_decrease_eq:
  assumes "server_ok st"
  shows "cv_refcount_decrease a st =
     (if condition_variables st a = None then (False, st)
      else (True, (release (Cv_object a) st)
              \<lparr>condition_variables := (condition_variables st)(a := None)\<rparr>))"
  using cv_entry [OF assms] by (auto simp: cv_refcount_decrease_def split: option.splits)

lemma server_ok_comm_decrease:
  assumes "server_ok st"
  shows "server_ok (snd (comm_refcount_decrease a st))"
proof -
  let ?st = "snd (comm_refcount_decrease a st)"
  have "comm_table.balanced ?st"
    using assms by (intro comm_table.balanced_dec) (simp add: server_ok_def tables_ok_def)
  moreover have "mutex_table.balanced ?st = mutex_table.balanced st"
      "cv_table.balanced ?st = cv_table.balanced st"
    by (auto simp: comm_decrease_eq [OF assms] release_def mutex_table.balanced_def
      cv_table.balanced_def mutexes_keyed_def cvs_keyed_def)
  ultimately have "tables_ok ?st" using assms by (simp add: server_ok_def tables_ok_def)
  then show ?thesis
    using assms by (auto simp: server_ok_def heap_ok_def buffers_ok_def locks_ok_def
      comm_decrease_eq [OF assms] release_def)
qed

lemma server_ok_mutex_decrease:
  assumes "server_ok st"
  shows "server_ok (snd (mutex_refcount_decrease a st))"
proof -
  let ?st = "snd (mutex_refcount_decrease a st)"
  have "mutex_table.balanced ?st"
    using assms by (intro mutex_table.balanced_dec) (simp add: server_ok_def tables_ok_def)
  moreover have "comm_table.balanced ?st = comm_table.balanced st"
      "cv_table.balanced ?st = cv_table.balanced st"
    by (auto simp: mutex_decrease_eq [OF assms] release_def comm_table.balanced_def
      cv_table.balanced_def comms_keyed_def cvs_keyed_def split: option.splits)
  ultimately have "tables_ok ?st" using assms by (simp add: server_ok_def tables_ok_def)
  moreover have "heap_ok ?st" "buffers_ok ?st"
    using assms by (auto simp: server_ok_def heap_ok_def buffers_ok_def
      mutex_decrease_eq [OF assms] release_def split: option.splits)
  moreover have "locks_ok ?st"
    using assms unfolding server_ok_def locks_ok_def
    by (auto simp: mutex_decrease_eq [OF assms] release_def split: option.splits if_splits)
  ultimately show ?thesis by (simp add: server_ok_def)
qed

lemma server_ok_cv_decrease:
  assumes "server_ok st"
  shows "server_ok (snd (cv_refcount_decrease a st))"
proof -
  let ?st = "snd (cv_refcount_decrease a st)"
  have "cv_table.balanced ?st"
    using assms by (intro cv_table.balanced_dec) (simp add: server_ok_def tables_ok_def)
  moreover have "comm_table.balanced ?st = comm_table.balanced st"
      "mutex_table.balanced ?st = mutex_table.balanced st"
    by (auto simp: cv_decrease_eq [OF assms] release_def comm_table.balanced_def
      mutex_table.balanced_def comms_keyed_def mutexes_keyed_def)
  ultimately have "tables_ok ?st" using assms by (simp add: server_ok_def tables_ok_def)
  then show ?thesis
    using assms by (auto simp: server_ok_def heap_ok_def buffers_ok_def locks_ok_def
      cv_decrease_eq [OF assms] release_def)
qed

section \<open>Preservation by the transfer of a message\<close>

text \<open>A string that no cell points to can be deleted.\<close>

lemma server_ok_delete_string:
  assumes "server_ok st" "\<And>b. cells st b \<noteq> Some (Some p)"
  shows "server_ok (st\<lparr>strings := (strings st)(p := None)\<rparr>)"
proof -
  let ?st = "st\<lparr>strings := (strings st)(p := None)\<rparr>"
  have "tables_ok ?st = tables_ok st" by (rule tables_ok_cong) simp_all
  with assms show ?thesis
    by (auto simp: server_ok_def heap_ok_def buffers_ok_def locks_ok_def)
qed

lemma server_ok_take_received:
  assumes "server_ok st" "comms st a = Some e" "take_received a e st = Inr (d, st')"
  shows "server_ok st'"
proof (cases "reception_buffer e")
  case None
  with assms show ?thesis by (simp add: take_received_def)
next
  case (Some b)
  with assms(3) obtain p where p: "cells st b = Some (Some p)" "strings st p = Some d"
    and st': "st' = st\<lparr>strings := (strings st)(p := None), cells := (cells st)(b := None),
       comms := (comms st)(a \<mapsto> e\<lparr>reception_buffer := None\<rparr>)\<rparr>"
    by (auto simp: take_received_def split: option.splits)
  have bal: "comm_table.balanced st" using assms(1) by (simp add: server_ok_def tables_ok_def)
  then have "comm_table.balanced st'"
    using assms(2) comm_table.balancedD [OF bal, of a]
    unfolding st' comm_table.balanced_def comms_keyed_def by auto
  moreover have "mutex_table.balanced st' = mutex_table.balanced st"
      "cv_table.balanced st' = cv_table.balanced st"
    unfolding st' by (simp_all add: mutex_table.balanced_def cv_table.balanced_def
      mutexes_keyed_def cvs_keyed_def)
  ultimately have "tables_ok st'" using assms(1) by (simp add: server_ok_def tables_ok_def)
  moreover have "heap_ok st'"
    using assms(1) p unfolding st' server_ok_def heap_ok_def by (auto split: if_splits)
  moreover have "buffers_ok st'"
    using assms(1,2) Some unfolding st' server_ok_def buffers_ok_def
    by (auto split: if_splits)
  moreover have "locks_ok st'"
    using assms(1) unfolding st' server_ok_def locks_ok_def by simp
  ultimately show ?thesis by (simp add: server_ok_def)
qed

end
