(* ===== verification/Handler_Safety.thy ===== *)
theory Handler_Safety
  imports Server_Invariant
begin

text \<open>
  Memory safety of the decision handler under interference. While an actor blocks in a call,
  the other actors run: the shared state in which its computation resumes is any state that
  satisfies the server's invariant and keeps what the blocked call pins (the entry of the
  communication it waits on, the reception buffer it handed to the simulator). The theory
  states what SimGrid guarantees about its answers, defines computations that are safe in
  this sense and that in turn keep what others pin, and proves it of the handling of every
  decision.
\<close>

section \<open>What the answers are\<close>

datatype shape = S_unit | S_bool | S_int | S_addr | S_ptr | S_string | S_double | S_cv | S_msg
  | S_decision

primrec answer_shape :: "answer \<Rightarrow> shape option" where
  "answer_shape Ret_unit = Some S_unit"
| "answer_shape (Ret_bool b) = Some S_bool"
| "answer_shape (Ret_int i) = Some S_int"
| "answer_shape (Ret_addr a) = Some S_addr"
| "answer_shape (Ret_ptr p) = Some S_ptr"
| "answer_shape (Ret_string s) = Some S_string"
| "answer_shape (Ret_double d) = Some S_double"
| "answer_shape (Ret_cv s) = Some S_cv"
| "answer_shape (Ret_msg m) = Some S_msg"
| "answer_shape (Ret_decision d) = Some S_decision"
| "answer_shape (Exn e) = None"
| "answer_shape (Err e) = None"

text \<open>The return types of the calls; any call may throw instead.\<close>

definition call_shape :: "call \<Rightarrow> shape" where
  "call_shape c = (case c of
      Actor_by_pid i \<Rightarrow> S_bool | Comm_test a \<Rightarrow> S_bool | Host_by_name_or_null n \<Rightarrow> S_bool
    | Mailbox_empty n \<Rightarrow> S_bool | Mailbox_listen n \<Rightarrow> S_bool | Mailbox_ready n \<Rightarrow> S_bool
    | Mutex_try_lock a \<Rightarrow> S_bool | Queue_push_to_command m \<Rightarrow> S_bool
    | Actor_create n h q \<Rightarrow> S_int | Comm_wait_any_for as t \<Rightarrow> S_int | Get_pid \<Rightarrow> S_int
    | Mailbox_put_async n p z \<Rightarrow> S_addr | Mailbox_get_async n b \<Rightarrow> S_addr
    | Mutex_create \<Rightarrow> S_addr | Cv_create \<Rightarrow> S_addr
    | Mailbox_get n \<Rightarrow> S_ptr
    | Host_current \<Rightarrow> S_string | Actor_get_host_name i \<Rightarrow> S_string | Actor_get_name i \<Rightarrow> S_string
    | Get_clock \<Rightarrow> S_double
    | Cv_wait_until c l t \<Rightarrow> S_cv | Cv_wait_for c l t \<Rightarrow> S_cv
    | Queue_pop q \<Rightarrow> S_msg
    | Socket_read \<Rightarrow> S_decision
    | _ \<Rightarrow> S_unit)"

definition well_typed :: "call \<Rightarrow> answer \<Rightarrow> bool" where
  "well_typed c r \<longleftrightarrow> (answer_shape r = None \<or> answer_shape r = Some (call_shape c))"

text \<open>
  What SimGrid documents and the handler relies on: a reception that has completed has written
  its buffer; \<^verbatim>\<open>get\<close> returns a payload that no other reception has; a new object's address
  is not the address of an object the server still holds a reference on; the index
  \<^verbatim>\<open>wait_any_for\<close> returns is negative (timeout) or that of a completed communication.
\<close>

definition received_ready :: "server \<Rightarrow> u64 \<Rightarrow> bool" where
  "received_ready st a \<longleftrightarrow>
     (\<forall>e b. comms st a = Some e \<and> reception_buffer e = Some b \<longrightarrow> (\<exists>p. cells st b = Some (Some p)))"

definition s4u_ok :: "call \<Rightarrow> answer \<Rightarrow> server \<Rightarrow> bool" where
  "s4u_ok c r st \<longleftrightarrow> (case c of
      Comm_wait_for a t \<Rightarrow> r = Ret_unit \<longrightarrow> received_ready st a
    | Comm_test a \<Rightarrow> r = Ret_bool True \<longrightarrow> received_ready st a
    | Comm_wait_any_for as t \<Rightarrow> (\<forall>i. r = Ret_int i \<and> 0 \<le> i \<longrightarrow>
        i < int (length as) \<and> received_ready st (as ! nat i))
    | Mailbox_get n \<Rightarrow> (\<forall>p. r = Ret_ptr p \<longrightarrow>
        strings st p \<noteq> None \<and> (\<forall>b. cells st b \<noteq> Some (Some p)))
    | Mailbox_put_async n p z \<Rightarrow> (\<forall>a. r = Ret_addr a \<longrightarrow> comms st a = None)
    | Mailbox_get_async n b \<Rightarrow> (\<forall>a. r = Ret_addr a \<longrightarrow> comms st a = None)
    | Mutex_create \<Rightarrow> (\<forall>a. r = Ret_addr a \<longrightarrow> mutexes st a = None)
    | Cv_create \<Rightarrow> (\<forall>a. r = Ret_addr a \<longrightarrow> condition_variables st a = None)
    | _ \<Rightarrow> True)"

section \<open>What a blocked call pins\<close>

text \<open>Socket and queue operations block the simulation thread: no other actor runs.\<close>

definition io_call :: "call \<Rightarrow> bool" where
  "io_call c = (case c of
      Queue_push_to_command m \<Rightarrow> True | Queue_wait q \<Rightarrow> True | Queue_pop q \<Rightarrow> True
    | Socket_write a \<Rightarrow> True | Socket_read \<Rightarrow> True | _ \<Rightarrow> False)"

definition pinned_comm :: "call \<Rightarrow> u64 option" where
  "pinned_comm c = (case c of Comm_wait_for a t \<Rightarrow> Some a | Comm_test a \<Rightarrow> Some a | _ \<Rightarrow> None)"

definition pinned_cell :: "call \<Rightarrow> ptr option" where
  "pinned_cell c = (case c of Mailbox_get_async n b \<Rightarrow> Some b | _ \<Rightarrow> None)"

definition free_cell :: "server \<Rightarrow> ptr \<Rightarrow> bool" where
  "free_cell st b \<longleftrightarrow> cells st b \<noteq> None \<and> \<not> attached st b"

definition same_node :: "server \<Rightarrow> server \<Rightarrow> u64 \<Rightarrow> bool" where
  "same_node st st' a \<longleftrightarrow> (\<forall>e. comms st a = Some e \<longrightarrow>
     (\<exists>e'. comms st' a = Some e' \<and> rc_comm_node e' = rc_comm_node e))"

definition interferes :: "call \<Rightarrow> server \<Rightarrow> server \<Rightarrow> bool" where
  "interferes c st st' \<longleftrightarrow> server_ok st' \<and>
     (if io_call c then st' = st
      else (\<forall>a. pinned_comm c = Some a \<longrightarrow> same_node st st' a) \<and>
           (\<forall>b. pinned_cell c = Some b \<and> free_cell st b \<longrightarrow> free_cell st' b))"

text \<open>
  What a stretch of code between two calls guarantees to the others: it keeps every entry but
  those of the handles it drops (\<open>D\<close>), and every unattached reception buffer but the one it
  owns (\<open>x\<close>).
\<close>

definition preserves :: "u64 set \<Rightarrow> ptr option \<Rightarrow> server \<Rightarrow> server \<Rightarrow> bool" where
  "preserves D x st st' \<longleftrightarrow> next_ptr st \<le> next_ptr st' \<and>
     (\<forall>a. a \<notin> D \<longrightarrow> same_node st st' a) \<and>
     (\<forall>b. x \<noteq> Some b \<and> free_cell st b \<longrightarrow> free_cell st' b)"

definition fresh_pins :: "server \<Rightarrow> prog \<Rightarrow> bool" where
  "fresh_pins st p \<longleftrightarrow>
     (case p of Do c k \<Rightarrow> (\<forall>b. pinned_cell c = Some b \<longrightarrow> next_ptr st \<le> b) | _ \<Rightarrow> True)"

definition acceptable :: "outcome \<Rightarrow> bool" where
  "acceptable out = (case out of Undefined u \<Rightarrow> False | Ill_typed \<Rightarrow> False | _ \<Rightarrow> True)"

section \<open>Safe computations\<close>

text \<open>
  \<open>safe D st p\<close>: blocked in state \<open>st\<close>, the computation \<open>p\<close> resumes safely from every
  admissible state with every admissible answer, and each of its stretches keeps the
  invariant and what others pin.
\<close>

inductive safe :: "u64 set \<Rightarrow> server \<Rightarrow> prog \<Rightarrow> bool" for D where
  safe_done: "acceptable out \<Longrightarrow> safe D st (Done out)"
| safe_do: "(\<And>b. pinned_cell c = Some b \<Longrightarrow> free_cell st b) \<Longrightarrow>
    (\<And>r st'. interferes c st st' \<Longrightarrow> well_typed c r \<Longrightarrow> s4u_ok c r st' \<Longrightarrow>
       server_ok (fst (k r st')) \<and> preserves D (pinned_cell c) st' (fst (k r st')) \<and>
       fresh_pins st' (snd (k r st')) \<and> safe D (fst (k r st')) (snd (k r st'))) \<Longrightarrow>
    safe D st (Do c k)"

inductive_cases safe_doE: "safe D st (Do c k)"
inductive_cases safe_doneE: "safe D st (Done out)"

text \<open>The code \<open>m\<close> at state \<open>st\<close>, in a stretch that began at \<open>st0\<close>.\<close>

definition safe_code :: "u64 set \<Rightarrow> ptr option \<Rightarrow> server \<Rightarrow> code \<Rightarrow> server \<Rightarrow> bool" where
  "safe_code D x st0 m st \<longleftrightarrow>
     server_ok (fst (m st)) \<and> preserves D x st0 (fst (m st)) \<and>
     fresh_pins st0 (snd (m st)) \<and> safe D (fst (m st)) (snd (m st))"

named_theorems safe_rules \<open>rules for safe computations\<close>

lemma safe_code_done:
  "server_ok st \<Longrightarrow> preserves D x st0 st \<Longrightarrow> acceptable out \<Longrightarrow>
     safe_code D x st0 (\<lambda>st. (st, Done out)) st"
  by (simp add: safe_code_def fresh_pins_def safe_done)

lemma safe_finish [safe_rules]:
  "server_ok st \<Longrightarrow> preserves D x st0 st \<Longrightarrow> safe_code D x st0 (finish a s q) st"
  by (simp add: safe_code_def finish_def fresh_pins_def acceptable_def safe_done)

lemma safe_throw [safe_rules]:
  "server_ok st \<Longrightarrow> preserves D x st0 st \<Longrightarrow> safe_code D x st0 (throw e) st"
  by (simp add: safe_code_def throw_def fresh_pins_def acceptable_def safe_done)

lemma preserves_refl [simp, intro]: "preserves D x st st"
  by (simp add: preserves_def same_node_def)

text \<open>The general rule for a call: one continuation for every admissible answer.\<close>

lemma safe_call:
  assumes "server_ok st" "preserves D x st0 st"
    and "\<And>b. pinned_cell c = Some b \<Longrightarrow> next_ptr st0 \<le> b \<and> free_cell st b"
    and "\<And>r st'. interferes c st st' \<Longrightarrow> server_ok st' \<Longrightarrow> well_typed c r \<Longrightarrow> s4u_ok c r st' \<Longrightarrow>
           safe_code D (pinned_cell c) st' (k r) st'"
  shows "safe_code D x st0 (\<lambda>st. (st, Do c k)) st"
proof -
  have "safe D st (Do c k)"
    using assms(3,4) by (intro safe_do) (auto simp: safe_code_def interferes_def)
  with assms(1-3) show ?thesis by (simp add: safe_code_def fresh_pins_def)
qed

lemma acceptable_failure:
  "well_typed c r \<Longrightarrow> answer_shape r \<noteq> Some (call_shape c) \<Longrightarrow> acceptable (failure r)"
  by (cases r) (auto simp: well_typed_def acceptable_def)

section \<open>Rules for the calls\<close>

lemma safe_code_cong: "m st = m' st \<Longrightarrow> safe_code D x st0 m st = safe_code D x st0 m' st"
  by (simp add: safe_code_def)

text \<open>An answer of the right shape goes to the continuation, an exception is a failure.\<close>

lemma safe_answers:
  assumes "server_ok st'" "well_typed c r"
    and "answer_shape r = None \<Longrightarrow> k r st' = (st', Done (failure r))"
    and "answer_shape r = Some (call_shape c) \<Longrightarrow> safe_code D x st' (k r) st'"
  shows "safe_code D x st' (k r) st'"
proof (cases "answer_shape r")
  case None
  with assms(2) have "acceptable (failure r)" by (intro acceptable_failure) simp_all
  with None assms(1,3) show ?thesis
    by (simp add: safe_code_def fresh_pins_def safe_done)
next
  case (Some s)
  with assms(2,4) show ?thesis by (simp add: well_typed_def)
qed

lemma safe_call_bool:
  "server_ok st \<Longrightarrow> preserves D x st0 st \<Longrightarrow> call_shape c = S_bool \<Longrightarrow>
   (\<And>b. pinned_cell c = Some b \<Longrightarrow> next_ptr st0 \<le> b \<and> free_cell st b) \<Longrightarrow>
   (\<And>b st'. interferes c st st' \<Longrightarrow> server_ok st' \<Longrightarrow> s4u_ok c (Ret_bool b) st' \<Longrightarrow>
      safe_code D (pinned_cell c) st' (k b) st') \<Longrightarrow>
   safe_code D x st0 (call_bool c k) st"
  by (subst safe_code_cong [OF call_bool_def], rule safe_call, assumption+)
    (rule safe_answers, assumption+, auto simp: safe_code_def split: answer.splits)

lemma safe_call_int:
  "server_ok st \<Longrightarrow> preserves D x st0 st \<Longrightarrow> call_shape c = S_int \<Longrightarrow>
   (\<And>b. pinned_cell c = Some b \<Longrightarrow> next_ptr st0 \<le> b \<and> free_cell st b) \<Longrightarrow>
   (\<And>i st'. interferes c st st' \<Longrightarrow> server_ok st' \<Longrightarrow> s4u_ok c (Ret_int i) st' \<Longrightarrow>
      safe_code D (pinned_cell c) st' (k i) st') \<Longrightarrow>
   safe_code D x st0 (call_int c k) st"
  by (subst safe_code_cong [OF call_int_def], rule safe_call, assumption+)
    (rule safe_answers, assumption+, auto simp: safe_code_def split: answer.splits)

lemma safe_call_addr:
  "server_ok st \<Longrightarrow> preserves D x st0 st \<Longrightarrow> call_shape c = S_addr \<Longrightarrow>
   (\<And>b. pinned_cell c = Some b \<Longrightarrow> next_ptr st0 \<le> b \<and> free_cell st b) \<Longrightarrow>
   (\<And>a st'. interferes c st st' \<Longrightarrow> server_ok st' \<Longrightarrow> s4u_ok c (Ret_addr a) st' \<Longrightarrow>
      safe_code D (pinned_cell c) st' (k a) st') \<Longrightarrow>
   safe_code D x st0 (call_addr c k) st"
  by (subst safe_code_cong [OF call_addr_def], rule safe_call, assumption+)
    (rule safe_answers, assumption+, auto simp: safe_code_def split: answer.splits)

lemma safe_call_ptr:
  "server_ok st \<Longrightarrow> preserves D x st0 st \<Longrightarrow> call_shape c = S_ptr \<Longrightarrow>
   (\<And>b. pinned_cell c = Some b \<Longrightarrow> next_ptr st0 \<le> b \<and> free_cell st b) \<Longrightarrow>
   (\<And>p st'. interferes c st st' \<Longrightarrow> server_ok st' \<Longrightarrow> s4u_ok c (Ret_ptr p) st' \<Longrightarrow>
      safe_code D (pinned_cell c) st' (k p) st') \<Longrightarrow>
   safe_code D x st0 (call_ptr c k) st"
  by (subst safe_code_cong [OF call_ptr_def], rule safe_call, assumption+)
    (rule safe_answers, assumption+, auto simp: safe_code_def split: answer.splits)

lemma safe_call_string:
  "server_ok st \<Longrightarrow> preserves D x st0 st \<Longrightarrow> call_shape c = S_string \<Longrightarrow>
   (\<And>b. pinned_cell c = Some b \<Longrightarrow> next_ptr st0 \<le> b \<and> free_cell st b) \<Longrightarrow>
   (\<And>s st'. interferes c st st' \<Longrightarrow> server_ok st' \<Longrightarrow> s4u_ok c (Ret_string s) st' \<Longrightarrow>
      safe_code D (pinned_cell c) st' (k s) st') \<Longrightarrow>
   safe_code D x st0 (call_string c k) st"
  by (subst safe_code_cong [OF call_string_def], rule safe_call, assumption+)
    (rule safe_answers, assumption+, auto simp: safe_code_def split: answer.splits)

lemma safe_call_double:
  "server_ok st \<Longrightarrow> preserves D x st0 st \<Longrightarrow> call_shape c = S_double \<Longrightarrow>
   (\<And>b. pinned_cell c = Some b \<Longrightarrow> next_ptr st0 \<le> b \<and> free_cell st b) \<Longrightarrow>
   (\<And>d st'. interferes c st st' \<Longrightarrow> server_ok st' \<Longrightarrow> s4u_ok c (Ret_double d) st' \<Longrightarrow>
      safe_code D (pinned_cell c) st' (k d) st') \<Longrightarrow>
   safe_code D x st0 (call_double c k) st"
  by (subst safe_code_cong [OF call_double_def], rule safe_call, assumption+)
    (rule safe_answers, assumption+, auto simp: safe_code_def split: answer.splits)

lemma safe_call_cv:
  "server_ok st \<Longrightarrow> preserves D x st0 st \<Longrightarrow> call_shape c = S_cv \<Longrightarrow>
   (\<And>b. pinned_cell c = Some b \<Longrightarrow> next_ptr st0 \<le> b \<and> free_cell st b) \<Longrightarrow>
   (\<And>s st'. interferes c st st' \<Longrightarrow> server_ok st' \<Longrightarrow> s4u_ok c (Ret_cv s) st' \<Longrightarrow>
      safe_code D (pinned_cell c) st' (k s) st') \<Longrightarrow>
   safe_code D x st0 (call_cv c k) st"
  by (subst safe_code_cong [OF call_cv_def], rule safe_call, assumption+)
    (rule safe_answers, assumption+, auto simp: safe_code_def split: answer.splits)

lemma safe_call_msg:
  "server_ok st \<Longrightarrow> preserves D x st0 st \<Longrightarrow> call_shape c = S_msg \<Longrightarrow>
   (\<And>b. pinned_cell c = Some b \<Longrightarrow> next_ptr st0 \<le> b \<and> free_cell st b) \<Longrightarrow>
   (\<And>m st'. interferes c st st' \<Longrightarrow> server_ok st' \<Longrightarrow> s4u_ok c (Ret_msg m) st' \<Longrightarrow>
      safe_code D (pinned_cell c) st' (k m) st') \<Longrightarrow>
   safe_code D x st0 (call_msg c k) st"
  by (subst safe_code_cong [OF call_msg_def], rule safe_call, assumption+)
    (rule safe_answers, assumption+, auto simp: safe_code_def split: answer.splits)

lemma safe_call_unit:
  "server_ok st \<Longrightarrow> preserves D x st0 st \<Longrightarrow> call_shape c = S_unit \<Longrightarrow>
   (\<And>b. pinned_cell c = Some b \<Longrightarrow> next_ptr st0 \<le> b \<and> free_cell st b) \<Longrightarrow>
   (\<And>st'. interferes c st st' \<Longrightarrow> server_ok st' \<Longrightarrow> s4u_ok c Ret_unit st' \<Longrightarrow>
      safe_code D (pinned_cell c) st' k st') \<Longrightarrow>
   safe_code D x st0 (call_unit c k) st"
  by (subst safe_code_cong [OF call_unit_def], rule safe_call, assumption+)
    (rule safe_answers, assumption+, auto simp: safe_code_def split: answer.splits)

lemma safe_call_unit_catch:
  assumes ok: "server_ok st" "preserves D x st0 st"
    and c: "call_shape c = S_unit" "pinned_cell c = None"
    and k: "\<And>st'. interferes c st st' \<Longrightarrow> server_ok st' \<Longrightarrow> s4u_ok c Ret_unit st' \<Longrightarrow>
      safe_code D None st' k st'"
    and h: "\<And>e h st'. interferes c st st' \<Longrightarrow> server_ok st' \<Longrightarrow> catch e = Some h \<Longrightarrow>
      safe_code D None st' h st'"
  shows "safe_code D x st0 (call_unit_catch c k catch) st"
proof (subst safe_code_cong [OF call_unit_catch_def], rule safe_call [OF ok])
  fix r st'
  assume *: "interferes c st st'" "server_ok st'" "well_typed c r" "s4u_ok c r st'"
  show "safe_code D (pinned_cell c) st' (\<lambda>st'. case r of Ret_unit \<Rightarrow> k st'
      | Exn e \<Rightarrow> (case catch e of Some h \<Rightarrow> h st' | None \<Rightarrow> (st', Done (Uncaught e)))
      | _ \<Rightarrow> (st', Done (failure r))) st'"
    using * c k [OF *(1,2)] h [OF *(1,2)]
    by (cases r) (auto simp: well_typed_def safe_code_def fresh_pins_def acceptable_def
        safe_done split: option.splits)
qed (simp add: c)

section \<open>The cases of the handler are safe\<close>

lemmas call_facts = call_shape_def pinned_cell_def pinned_comm_def

lemma safe_on_host_failure:
  "server_ok st \<Longrightarrow> on_host_failure e = Some h \<Longrightarrow> safe_code D x st h st"
  by (auto simp: on_host_failure_def intro!: safe_finish split: if_splits)

text \<open>Cases that make calls which neither change the shared state nor depend on it.\<close>

lemma safe_stateless:
  assumes "server_ok st" "preserves D x st0 st"
  shows "safe_code D x st0 handle_quit st"
    and "safe_code D x st0 (handle_actor_get_host i) st"
    and "safe_code D x st0 (handle_actor_get_name i) st"
    and "safe_code D x st0 (handle_actor_join i t) st"
    and "safe_code D x st0 (handle_execute t) st"
    and "safe_code D x st0 (handle_sleep_for t) st"
    and "safe_code D x st0 (handle_sleep_until t) st"
    and "safe_code D x st0 handle_yield st"
    and "safe_code D x st0 handle_engine_get_clock st"
    and "safe_code D x st0 (handle_host_by_name_or_null n) st"
    and "safe_code D x st0 handle_host_current st"
    and "safe_code D x st0 (handle_mailbox_empty n) st"
    and "safe_code D x st0 (handle_mailbox_listen n) st"
    and "safe_code D x st0 (handle_mailbox_ready n) st"
  using assms
  by (auto simp: handler_defs call_facts intro!: safe_finish safe_call_unit safe_call_bool
      safe_call_string safe_call_double safe_call_unit_catch intro: safe_on_host_failure)

lemma safe_find_or_fail:
  assumes "server_ok st" "preserves D x st0 st"
    and "\<And>e. lookup st = Some e \<Longrightarrow> safe_code D x st0 (k e) st"
  shows "safe_code D x st0 (find_or_fail lookup k) st"
  using assms safe_finish [OF assms(1,2)]
  by (cases "lookup st") (simp_all add: safe_code_def find_or_fail_def)

text \<open>Cases that look an object up and make one call on it.\<close>

lemma safe_lookup:
  assumes "server_ok st" "preserves D x st0 st"
  shows "safe_code D x st0 (handle_comm_cancel a) st"
    and "safe_code D x st0 (handle_mutex_lock a) st"
    and "safe_code D x st0 (handle_mutex_unlock a) st"
    and "safe_code D x st0 (handle_mutex_try_lock d) st"
    and "safe_code D x st0 (handle_cv_notify_one a) st"
    and "safe_code D x st0 (handle_cv_notify_all a) st"
  using assms
  by (auto simp: handler_defs call_facts intro!: safe_find_or_fail safe_finish safe_call_unit
      safe_call_bool)

lemma safe_with_cv_and_lock:
  assumes "server_ok st" "preserves D x st0 st"
    and "\<And>c l. safe_code D x st0 (k c l) st"
  shows "safe_code D x st0 (with_cv_and_lock cv m k) st"
  unfolding with_cv_and_lock_def
proof (rule safe_find_or_fail [OF assms(1,2)])
  fix ce assume "(case (condition_variables st cv, mutexes st m) of
      (Some c, Some e) \<Rightarrow> Some (c, e) | _ \<Rightarrow> None) = Some ce"
  then have "mutexes st m = Some (snd ce)" by (auto split: option.splits)
  then have "rc_mutex_lock (snd ce) \<in> locks st" by (rule mutex_entry(3) [OF assms(1)])
  with assms(3) show "safe_code D x st0 (case ce of (c, e) \<Rightarrow> \<lambda>st.
      if rc_mutex_lock e \<in> locks st then k (rc_cv_obj c) (rc_mutex_lock e) st
      else undefined_behaviour Dangling_lock st) st"
    by (cases ce) (simp add: safe_code_def)
qed

lemma safe_cv_waits:
  assumes "server_ok st" "preserves D x st0 st"
  shows "safe_code D x st0 (handle_cv_wait c m) st"
    and "safe_code D x st0 (handle_cv_wait_until c m t) st"
    and "safe_code D x st0 (handle_cv_wait_for c m t) st"
  using assms
  by (auto simp: handler_defs call_facts intro!: safe_with_cv_and_lock safe_finish
      safe_call_unit safe_call_cv)

section \<open>What the state operations keep\<close>

lemma same_node_trans: "same_node st0 st a \<Longrightarrow> same_node st st' a \<Longrightarrow> same_node st0 st' a"
  unfolding same_node_def by metis

lemma preserves_trans:
  "preserves D x st0 st \<Longrightarrow> preserves D x st st' \<Longrightarrow> preserves D x st0 st'"
  unfolding preserves_def by (auto intro: same_node_trans)

lemma preserves_same:
  assumes "next_ptr st \<le> next_ptr st'" "comms st' = comms st"
    and "\<And>b. cells st b \<noteq> None \<Longrightarrow> cells st' b \<noteq> None"
  shows "preserves D x st st'"
  using assms by (simp add: preserves_def same_node_def free_cell_def attached_def)

lemma preserves_ops [intro]:
  "preserves D x st (snd (new_string d st))"
  "preserves D x st (snd (new_cell st))"
  "preserves D x st (snd (new_queue st))"
  "preserves D x st (st\<lparr>queues := Q\<rparr>)"
  "preserves D x st (st\<lparr>strings := S\<rparr>)"
  "preserves D x st (mutex_register u a st)"
  "preserves D x st (cv_register u a st)"
  by (rule preserves_same; auto simp: alloc_defs refcount_defs mutex_register_def cv_register_def
      Let_def split: option.splits)+

lemma preserves_decrease [intro]:
  "preserves D x st (snd (mutex_refcount_decrease a st))"
  "preserves D x st (snd (cv_refcount_decrease a st))"
  by (rule preserves_same; auto simp: refcount_defs mutex_refcount_decrease_def
      cv_refcount_decrease_def split: option.splits)+

lemma preserves_comm_decrease:
  assumes "server_ok st" "a \<in> D"
  shows "preserves D x st (snd (comm_refcount_decrease a st))"
  using assms(2) by (auto simp: comm_decrease_eq [OF assms(1)] preserves_def same_node_def
    free_cell_def attached_def release_def)

lemma preserves_comm_register:
  assumes "comms st a = None" "buf = None \<or> buf = x"
  shows "preserves D x st (comm_register buf a st)"
  using assms by (auto simp: comm_register_def add_ref_def preserves_def same_node_def
    free_cell_def attached_def split: if_splits)

lemma preserves_take_received:
  assumes "comms st a = Some e" "take_received a e st = Inr (d, st')"
  shows "preserves D x st st'"
proof (cases "reception_buffer e")
  case None
  with assms show ?thesis by (auto simp: take_received_def)
next
  case (Some b)
  with assms(2) have "comms st' = (comms st)(a \<mapsto> e\<lparr>reception_buffer := None\<rparr>)"
      "cells st' = (cells st)(b := None)" "next_ptr st' = next_ptr st"
    by (auto simp: take_received_def split: option.splits)
  moreover have "attached st b" using assms(1) Some by (auto simp: attached_def)
  ultimately show ?thesis
    using assms(1) by (auto simp: preserves_def same_node_def free_cell_def attached_def
      split: if_splits)
qed

section \<open>The cases that change the shared state\<close>

lemma safe_refcount_decrease:
  assumes "server_ok st" "preserves D x st0 st"
  shows "a \<in> D \<Longrightarrow> safe_code D x st0 (handle_comm_refcount_decrease a) st"
    and "safe_code D x st0 (handle_mutex_refcount_decrease a) st"
    and "safe_code D x st0 (handle_cv_refcount_decrease a) st"
proof -
  have *: "safe_code D x st0 (\<lambda>st. case dec st of (known, st') \<Rightarrow> reply_success known st') st"
    if "server_ok (snd (dec st))" "preserves D x st (snd (dec st))" for dec
    using safe_finish [OF that(1) preserves_trans [OF assms(2) that(2)]]
    by (simp add: safe_code_def split_beta)
  show "a \<in> D \<Longrightarrow> safe_code D x st0 (handle_comm_refcount_decrease a) st"
    using * [where dec = "comm_refcount_decrease a"] server_ok_comm_decrease [OF assms(1)]
      preserves_comm_decrease [OF assms(1)]
    by (simp add: safe_code_def handle_comm_refcount_decrease_def)
  show "safe_code D x st0 (handle_mutex_refcount_decrease a) st"
    using * [where dec = "mutex_refcount_decrease a"] server_ok_mutex_decrease [OF assms(1)]
    by (simp add: safe_code_def handle_mutex_refcount_decrease_def preserves_decrease)
  show "safe_code D x st0 (handle_cv_refcount_decrease a) st"
    using * [where dec = "cv_refcount_decrease a"] server_ok_cv_decrease [OF assms(1)]
    by (simp add: safe_code_def handle_cv_refcount_decrease_def preserves_decrease)
qed

text \<open>A reception that is ready is transferred.\<close>

lemma take_received_ready:
  assumes "server_ok st" "comms st a = Some e" "received_ready st a"
  obtains d st' where "take_received a e st = Inr (d, st')"
proof (cases "reception_buffer e")
  case None
  with that show ?thesis by (simp add: take_received_def)
next
  case (Some b)
  with assms(2,3) obtain p where p: "cells st b = Some (Some p)"
    by (auto simp: received_ready_def)
  with assms(1) obtain d where "strings st p = Some d"
    unfolding server_ok_def heap_ok_def by blast
  with Some p that show ?thesis by (simp add: take_received_def)
qed

lemma safe_reply_received:
  assumes "server_ok st" "preserves D x st0 st" "comms st a = Some e" "received_ready st a"
  shows "safe_code D x st0 (reply_received a e mk) st"
proof -
  obtain d st' where t: "take_received a e st = Inr (d, st')"
    using assms(1,3,4) by (rule take_received_ready)
  have "safe_code D x st0 (reply_with (mk d)) st'"
    using assms(2,3) t server_ok_take_received [OF assms(1,3) t]
    by (blast intro: safe_finish preserves_trans preserves_take_received)
  with t show ?thesis by (simp add: safe_code_def reply_received_def)
qed

text \<open>The iterator of a pinned entry still denotes an entry when the call returns.\<close>

lemma comm_deref_pinned:
  assumes "interferes c st st'" "pinned_comm c = Some a" "comms st a = Some e"
  obtains e' where "comms st' a = Some e'" "comm_deref a (rc_comm_node e) st' = Some e'"
proof -
  from assms(2) have "\<not> io_call c"
    by (cases c) (simp_all add: pinned_comm_def io_call_def)
  with assms that show thesis
    by (auto simp: interferes_def same_node_def comm_deref_def)
qed

lemma safe_comm_wait_for:
  assumes "server_ok st" "preserves D x st0 st"
  shows "safe_code D x st0 (handle_comm_wait_for a t) st"
  unfolding handle_comm_wait_for_def
proof (rule safe_find_or_fail [OF assms], rule safe_call_unit_catch [OF assms])
  fix e st'
  assume e: "comms st a = Some e"
    and st': "interferes (Comm_wait_for (rc_comm_obj e) t) st st'" "server_ok st'"
      "s4u_ok (Comm_wait_for (rc_comm_obj e) t) Ret_unit st'"
  have obj: "rc_comm_obj e = a" using assms(1) e by (rule comm_entry)
  obtain e' where e': "comms st' a = Some e'" "comm_deref a (rc_comm_node e) st' = Some e'"
    using comm_deref_pinned [OF st'(1) _ e] obj by (auto simp: pinned_comm_def)
  have "received_ready st' a" using st'(3) obj by (simp add: s4u_ok_def)
  with e' st'(2) show "safe_code D None st' (\<lambda>st. case comm_deref a (rc_comm_node e) st of
        None \<Rightarrow> undefined_behaviour Dangling_iterator st
      | Some e' \<Rightarrow> reply_received a e' (A_commWaitFor False) st) st'"
    using safe_reply_received [OF st'(2) preserves_refl e'(1)] by (simp add: safe_code_def)
qed (auto simp: call_facts split: if_splits intro: safe_finish)

lemma safe_comm_test:
  assumes "server_ok st" "preserves D x st0 st"
  shows "safe_code D x st0 (handle_comm_test a) st"
  unfolding handle_comm_test_def
proof (rule safe_find_or_fail [OF assms], rule safe_call_bool [OF assms])
  fix e b st'
  assume e: "comms st a = Some e"
    and st': "interferes (Comm_test (rc_comm_obj e)) st st'" "server_ok st'"
      "s4u_ok (Comm_test (rc_comm_obj e)) (Ret_bool b) st'"
  have obj: "rc_comm_obj e = a" using assms(1) e by (rule comm_entry)
  obtain e' where e': "comms st' a = Some e'" "comm_deref a (rc_comm_node e) st' = Some e'"
    using comm_deref_pinned [OF st'(1) _ e] obj by (auto simp: pinned_comm_def)
  have "received_ready st' a" if b using st'(3) obj that by (simp add: s4u_ok_def)
  with e' show "safe_code D (pinned_cell (Comm_test (rc_comm_obj e))) st' (\<lambda>st.
      if \<not> b then reply_with (A_commTest False []) st
      else case comm_deref a (rc_comm_node e) st of
          None \<Rightarrow> undefined_behaviour Dangling_iterator st
        | Some e' \<Rightarrow> reply_received a e' (A_commTest True) st) st'"
    using safe_reply_received [OF st'(2) preserves_refl e'(1)] safe_finish [OF st'(2) preserves_refl]
    by (cases b) (simp_all add: safe_code_def call_facts)
qed (auto simp: call_facts)

lemma find_comms_keys:
  "server_ok st \<Longrightarrow> find_comms st as = Some objs \<Longrightarrow> objs = as"
  by (induction as arbitrary: objs) (auto split: option.splits dest: comm_entry)

lemma safe_comm_wait_any_for:
  assumes "server_ok st" "preserves D x st0 st"
  shows "safe_code D x st0 (handle_comm_wait_any_for as t) st"
proof (cases "find_comms st as")
  case None
  with safe_throw [OF assms] show ?thesis
    by (simp add: safe_code_def handle_comm_wait_any_for_def)
next
  case (Some objs)
  with assms(1) have objs: "objs = as" by (rule find_comms_keys)
  let ?k = "\<lambda>i st'. if i < 0 then reply_with (A_commWaitAnyFor i []) st'
     else if int (length as) \<le> i then undefined_behaviour Index_out_of_range st'
     else (let a = as ! nat i in case comms st' a of
             None \<Rightarrow> throw ''Comm memory management inconsistency'' st'
           | Some e \<Rightarrow> reply_received a e (A_commWaitAnyFor i) st')"
  have "safe_code D x st0 (call_int (Comm_wait_any_for as t) ?k) st"
  proof (rule safe_call_int [OF assms])
    fix i st'
    assume st': "server_ok st'" "s4u_ok (Comm_wait_any_for as t) (Ret_int i) st'"
    then have i: "0 \<le> i \<Longrightarrow> i < int (length as) \<and> received_ready st' (as ! nat i)"
      by (simp add: s4u_ok_def)
    show "safe_code D (pinned_cell (Comm_wait_any_for as t)) st' (?k i) st'"
    proof (cases "i < 0")
      case True
      with safe_finish [OF st'(1) preserves_refl] show ?thesis by (simp add: safe_code_def)
    next
      case False
      with i safe_reply_received [OF st'(1) preserves_refl] safe_throw [OF st'(1) preserves_refl]
      show ?thesis by (cases "comms st' (as ! nat i)") (simp_all add: safe_code_def)
    qed
  qed (simp_all add: call_facts)
  with Some objs show ?thesis by (simp add: safe_code_def handle_comm_wait_any_for_def)
qed

lemma safe_mailbox_put:
  assumes "server_ok st" "preserves D x st0 st"
  shows "safe_code D x st0 (handle_mailbox_put n d z) st"
proof -
  let ?st = "snd (new_string d st)"
  have "safe_code D x st0 (call_unit (Mailbox_put n (next_ptr st) z) (reply ack_ok)) ?st"
    using server_ok_new_string [OF assms(1)] preserves_trans [OF assms(2) preserves_ops(1)]
    by (auto simp: call_facts intro!: safe_call_unit safe_finish)
  then show ?thesis by (simp add: safe_code_def handle_mailbox_put_def new_string_def)
qed

lemma safe_store_new_comm:
  assumes "server_ok st" "comms st a = None"
    and "\<And>b. buf = Some b \<Longrightarrow> free_cell st b" "buf = None \<or> buf = x"
  shows "safe_code D x st (store_new_comm e mk buf a) st"
proof -
  have "safe_code D x st (reply_with (mk a)) (comm_register buf a st)"
    using assms preserves_comm_register [OF assms(2,4)]
    by (intro safe_finish server_ok_comm_register) (auto simp: free_cell_def)
  with assms(2) show ?thesis by (simp add: safe_code_def store_new_comm_def)
qed

lemma safe_mailbox_put_async:
  assumes "server_ok st" "preserves D x st0 st"
  shows "safe_code D x st0 (handle_mailbox_put_async n d z) st"
proof -
  have "safe_code D x st0 (call_addr (Mailbox_put_async n (next_ptr st) z)
      (store_new_comm e A_mailboxPutAsync None)) (snd (new_string d st))" for e
    using server_ok_new_string [OF assms(1)] preserves_trans [OF assms(2) preserves_ops(1)]
    by (intro safe_call_addr safe_store_new_comm) (auto simp: call_facts s4u_ok_def)
  then show ?thesis by (simp add: safe_code_def handle_mailbox_put_async_def new_string_def)
qed

lemma safe_mailbox_get_async:
  assumes "server_ok st" "preserves D x st0 st"
  shows "safe_code D x st0 (handle_mailbox_get_async n) st"
proof -
  let ?st = "snd (new_cell st)" and ?b = "next_ptr st"
  have free: "free_cell ?st ?b"
    using fresh_next(4) [OF assms(1)] by (simp add: free_cell_def new_cell_def attached_def)
  have "safe_code D (Some ?b) st' (store_new_comm e A_mailboxGetAsync (Some ?b) a) st'"
    if "interferes (Mailbox_get_async n ?b) ?st st'" "server_ok st'"
      "s4u_ok (Mailbox_get_async n ?b) (Ret_addr a) st'" for a st' e
    using that free
    by (intro safe_store_new_comm) (auto simp: interferes_def pinned_cell_def io_call_def s4u_ok_def)
  moreover have "server_ok ?st" "preserves D x st0 ?st"
    using server_ok_new_cell [OF assms(1)] preserves_trans [OF assms(2) preserves_ops(2)] by blast+
  moreover have "next_ptr st0 \<le> ?b" using assms(2) by (simp add: preserves_def)
  ultimately have "safe_code D x st0 (call_addr (Mailbox_get_async n ?b)
      (store_new_comm e A_mailboxGetAsync (Some ?b))) ?st" for e
    using free by (intro safe_call_addr) (auto simp: call_facts)
  then show ?thesis by (simp add: safe_code_def handle_mailbox_get_async_def new_cell_def)
qed

text \<open>While the message is written to the socket no other actor runs.\<close>

lemma safe_deliver_message:
  assumes "server_ok st" "strings st p = Some d" "\<And>b. cells st b \<noteq> Some (Some p)"
  shows "safe_code D None st (deliver_message p) st"
proof -
  let ?ack = "ack_ok\<lparr>ack_data := A_mailboxGet d\<rparr>"
  let ?k = "\<lambda>st. if strings st p = None then undefined_behaviour Dangling_string st
      else finish ?ack False False (st\<lparr>strings := (strings st)(p := None)\<rparr>)"
  have "safe_code D None st (finish ?ack False False) (st\<lparr>strings := (strings st)(p := None)\<rparr>)"
    using server_ok_delete_string [OF assms(1,3)] by (intro safe_finish) auto
  with assms(2) have "safe_code D None st ?k st" by (simp add: safe_code_def)
  with assms(1) have "safe_code D None st (call_unit (Socket_write ?ack) ?k) st"
    by (intro safe_call_unit) (auto simp: call_facts interferes_def io_call_def)
  with assms(2) show ?thesis by (simp add: safe_code_def deliver_message_def)
qed

lemma safe_mailbox_get:
  assumes "server_ok st" "preserves D x st0 st"
  shows "safe_code D x st0 (handle_mailbox_get n) st"
  unfolding handle_mailbox_get_def using assms
  by (intro safe_call_ptr) (auto simp: call_facts s4u_ok_def intro: safe_deliver_message)

lemma safe_create:
  assumes "server_ok st" "preserves D x st0 st"
  shows "safe_code D x st0 handle_mutex_create st"
    and "safe_code D x st0 handle_cv_create st"
proof -
  have "safe_code D None st' (\<lambda>st. reply_with (A_mutexCreate a) (mutex_register () a st)) st'"
    if "server_ok st'" "mutexes st' a = None" for a st'
    using safe_finish [OF server_ok_mutex_register [OF that] preserves_ops(6)]
    by (simp add: safe_code_def)
  with assms show "safe_code D x st0 handle_mutex_create st"
    unfolding handle_mutex_create_def
    by (intro safe_call_addr) (auto simp: call_facts s4u_ok_def)
next
  have "safe_code D None st' (\<lambda>st. reply_with (A_conditionVariableCreate a) (cv_register () a st)) st'"
    if "server_ok st'" "condition_variables st' a = None" for a st'
    using safe_finish [OF server_ok_cv_register [OF that] preserves_ops(7)]
    by (simp add: safe_code_def)
  with assms show "safe_code D x st0 handle_cv_create st"
    unfolding handle_cv_create_def
    by (intro safe_call_addr) (auto simp: call_facts s4u_ok_def)
qed

lemma safe_create_acknowledged:
  assumes "server_ok st" "preserves D x st0 st"
  shows "safe_code D x st0 (create_acknowledged pid q popped) st"
proof -
  have "safe_code D x st0 (call_unit (Socket_write a) (finish a False False))
      (st\<lparr>queues := queues st - {q}\<rparr>)" for a
    using assms preserves_trans [OF assms(2) preserves_ops(4)]
    by (intro safe_call_unit) (auto simp: call_facts intro: safe_finish)
  with safe_throw [OF assms] show ?thesis
    by (auto simp: safe_code_def create_acknowledged_def Let_def split: option.splits)
qed

lemma safe_announce_actor:
  "server_ok st \<Longrightarrow> preserves D x st0 st \<Longrightarrow> safe_code D x st0 (announce_actor q r pid) st"
  by (auto simp: announce_actor_def call_facts intro!: safe_call_bool safe_call_unit safe_call_msg
      safe_create_acknowledged safe_throw)

lemma safe_actor_create:
  assumes "server_ok st" "preserves D x st0 st"
  shows "safe_code D x st0 (handle_actor_create n h) st"
  unfolding handle_actor_create_def
proof (rule safe_call_unit [OF assms])
  fix st' assume "server_ok st'"
  then have "safe_code D None st' (call_int (Actor_create (c_str n) h (Suc (next_ptr st')))
      (announce_actor (next_ptr st') (Suc (next_ptr st')))) (snd (new_queue (snd (new_queue st'))))"
    using preserves_trans [OF preserves_ops(3) preserves_ops(3)]
    by (auto simp: call_facts intro!: safe_call_int safe_announce_actor server_ok_new_queue)
  then show "safe_code D (pinned_cell (Host_by_name h)) st' (\<lambda>st.
       let (can_connect_ack, st) = new_queue st; (connect_ack, st) = new_queue st
       in call_int (Actor_create (c_str n) h connect_ack)
            (announce_actor can_connect_ack connect_ack) st) st'"
    by (simp add: safe_code_def new_queue_def call_facts)
qed (simp_all add: call_facts)

section \<open>Every decision is handled safely\<close>

definition drops :: "decision_type \<Rightarrow> u64 set" where
  "drops d = (case d of KCommRefcountDecrease a \<Rightarrow> {a} | _ \<Rightarrow> {})"

lemma safe_handle_type:
  assumes "server_ok st" "preserves (drops d) x st0 st"
  shows "safe_code (drops d) x st0 (handle_type d) st"
  using assms
  by (cases d) (auto intro: safe_stateless safe_lookup safe_cv_waits safe_refcount_decrease
      safe_comm_wait_for safe_comm_test safe_comm_wait_any_for safe_mailbox_put
      safe_mailbox_put_async safe_mailbox_get safe_mailbox_get_async safe_create
      safe_actor_create safe_throw simp: drops_def)

lemma safe_handle_decision:
  assumes "server_ok st" "preserves (drops (type_case d)) x st0 st"
  shows "safe_code (drops (type_case d)) x st0 (handle_decision d) st"
  using assms
  by (auto simp: handle_decision_def call_facts intro: safe_throw safe_handle_type
      intro!: safe_call_unit)

end
