(* ===== verification/Actor_Loop.thy ===== *)
theory Actor_Loop
  imports Handler_Safety
begin

text \<open>
  The body of a simulated actor, \<^verbatim>\<open>Actor::operator()\<close> of \<^verbatim>\<open>src/rsg/simulation.cpp\<close>:
  the prologue of a dynamically created actor, and one turn of the request-reply loop. The
  theory proves that a turn answers its decision exactly once.
\<close>

section \<open>Sequencing\<close>

primrec bind_prog :: "prog \<Rightarrow> (outcome \<Rightarrow> code) \<Rightarrow> code" where
  "bind_prog (Done out) = (\<lambda>f. f out)"
| "bind_prog (Do c k) = (\<lambda>f st. (st, Do c (\<lambda>r st'.
     case map_prod id bind_prog (k r st') of (st1, rest) \<Rightarrow> rest f st1)))"

definition bind_code :: "code \<Rightarrow> (outcome \<Rightarrow> code) \<Rightarrow> code" where
  "bind_code m f st = (case m st of (st1, p) \<Rightarrow> bind_prog p f st1)"

section \<open>One turn of the loop\<close>

text \<open>
  After \<^verbatim>\<open>handle_decision\<close>: the acknowledgment is written when \<^verbatim>\<open>send_ack\<close> is set. An
  exception leaves the loop.
\<close>

definition send_reply :: "outcome \<Rightarrow> code" where
  "send_reply out = (case out of
      Handled decision_ack send_ack quit_received \<Rightarrow>
        if send_ack then call_unit (Socket_write decision_ack) (finish decision_ack False quit_received)
        else finish decision_ack False quit_received
    | _ \<Rightarrow> (\<lambda>st. (st, Done out)))"

definition actor_turn :: "decision \<Rightarrow> code" where
  "actor_turn d = bind_code (handle_decision d) send_reply"

section \<open>The prologue of a dynamically created actor\<close>

text \<open>
  The actor asks for its own identifier, yields, waits until the command thread has connected
  its client and takes over the client's socket. It ends with the identifier and the socket in
  an acknowledgment-free outcome; the checks throw outside of the loop's \<^verbatim>\<open>try\<close> block.
\<close>

definition actor_connected :: "queue \<Rightarrow> interthread_message option \<Rightarrow> code" where
  "actor_connected connect_ack popped =
     (case popped of
        None \<Rightarrow> throw ''Internal interthread messaging error: Actor could not read ACTOR_CONNECTED''
      | Some m \<Rightarrow>
          if message_type m \<noteq> ACTOR_CONNECTED
          then throw ''Interthread messaging error: Bad message type (expected ACTOR_CONNECTED, got %s)''
          else (\<lambda>st. finish decision_ack0 False False (st\<lparr>queues := queues st - {connect_ack}\<rparr>)))"

definition actor_prologue :: "queue \<Rightarrow> code" where
  "actor_prologue connect_ack =
     call_int Get_pid (\<lambda>pid.
       call_unit Yield
      (call_unit (Queue_wait connect_ack)
      (call_msg (Queue_pop connect_ack) (actor_connected connect_ack))))"

section \<open>The reply discipline\<close>

text \<open>
  \<open>tracks F w p\<close>: whatever the answers, every way through \<open>p\<close> writes at most one
  acknowledgment to the socket (none if \<open>w\<close> has been written before) and makes no call after it, a
  failed write ends it with an error, and the outcome satisfies \<open>F\<close> for the acknowledgment that has been
  written, if any.
\<close>

inductive tracks :: "(decision_ack option \<Rightarrow> outcome \<Rightarrow> bool) \<Rightarrow> decision_ack option \<Rightarrow> prog \<Rightarrow> bool"
  for F where
  tracks_done: "F w out \<Longrightarrow> tracks F w (Done out)"
| tracks_write: "(\<And>st. tracks F (Some a) (snd (k Ret_unit st))) \<Longrightarrow>
    (\<And>r st. r \<noteq> Ret_unit \<Longrightarrow> snd (k r st) = Done (failure r)) \<Longrightarrow>
    tracks F None (Do (Socket_write a) k)"
| tracks_do: "(\<And>a. c \<noteq> Socket_write a) \<Longrightarrow> (\<And>r st. tracks F None (snd (k r st))) \<Longrightarrow>
    tracks F None (Do c k)"

inductive_cases tracks_doneE: "tracks F w (Done out)"
inductive_cases tracks_doE: "tracks F w (Do c k)"

definition tracks_code ::
    "(decision_ack option \<Rightarrow> outcome \<Rightarrow> bool) \<Rightarrow> decision_ack option \<Rightarrow> code \<Rightarrow> bool" where
  "tracks_code F w m \<longleftrightarrow> (\<forall>st. tracks F w (snd (m st)))"

text \<open>
  The handler has three normal endings: the reply is left to the loop, the reply has already
  been sent, or the client quits (\<open>b\<close>) and gets none.
\<close>

definition handler_end :: "bool \<Rightarrow> decision_ack option \<Rightarrow> outcome \<Rightarrow> bool" where
  "handler_end b w out = (case out of
      Handled ack send_ack quit_received \<Rightarrow> quit_received = b \<and>
        (if b then w = None \<and> \<not> send_ack
         else (w = None \<and> send_ack) \<or> (w = Some ack \<and> \<not> send_ack))
    | Undefined u \<Rightarrow> True
    | _ \<Rightarrow> w = None)"

text \<open>A turn ends with the reply written, unless the client quits or an error occurs.\<close>

definition turn_end :: "bool \<Rightarrow> decision_ack option \<Rightarrow> outcome \<Rightarrow> bool" where
  "turn_end b w out = (case out of
      Handled ack send_ack quit_received \<Rightarrow>
        \<not> send_ack \<and> quit_received = b \<and> w = (if b then None else Some ack)
    | Undefined u \<Rightarrow> True
    | _ \<Rightarrow> w = None)"

definition is_quit :: "decision_type \<Rightarrow> bool" where
  "is_quit d = (case d of KQuit b \<Rightarrow> True | _ \<Rightarrow> False)"

definition error_tolerant :: "(decision_ack option \<Rightarrow> outcome \<Rightarrow> bool) \<Rightarrow> bool" where
  "error_tolerant F \<longleftrightarrow> (\<forall>out. (\<forall>a s q. out \<noteq> Handled a s q) \<longrightarrow> F None out) \<and> (\<forall>w u. F w (Undefined u))"

lemma error_tolerant_ends [simp]: "error_tolerant (handler_end b)" "error_tolerant (turn_end b)"
  by (auto simp: error_tolerant_def handler_end_def turn_end_def split: outcome.splits)

lemma error_tolerant_failure: "error_tolerant F \<Longrightarrow> F None (failure r)"
  by (cases r) (auto simp: error_tolerant_def)

lemma tracks_finish: "F w (Handled a s q) \<Longrightarrow> tracks_code F w (finish a s q)"
  by (simp add: tracks_code_def finish_def tracks_done)

lemma tracks_throw: "error_tolerant F \<Longrightarrow> tracks_code F None (throw e)"
  by (simp add: tracks_code_def throw_def error_tolerant_def tracks_done)

lemma tracks_undefined: "error_tolerant F \<Longrightarrow> tracks_code F w (undefined_behaviour u)"
  by (simp add: tracks_code_def undefined_behaviour_def error_tolerant_def tracks_done)

lemma tracks_failure:
  assumes "error_tolerant F"
  shows "tracks F None (Done (failure r))" "tracks F None (Done Ill_typed)"
    "tracks F None (Done (Threw e))" "tracks F None (Done (Uncaught x))" "tracks F w (Done (Undefined u))"
  using assms error_tolerant_failure [OF assms]
  by (auto intro: tracks_done simp: error_tolerant_def)

lemma tracks_if:
  "(b \<Longrightarrow> tracks_code F w m) \<Longrightarrow> (\<not> b \<Longrightarrow> tracks_code F w m') \<Longrightarrow>
     tracks_code F w (if b then m else m')"
  by simp

lemma tracks_let: "(\<And>st. tracks F w (snd (m st))) \<Longrightarrow> tracks_code F w m"
  by (simp add: tracks_code_def)

text \<open>The calls other than a socket write come before it.\<close>

lemma tracks_call:
  assumes "error_tolerant F" "\<And>a. c \<noteq> Socket_write a"
  shows "tracks_code F None k0 \<Longrightarrow> tracks_code F None (call_unit c k0)"
    and "(\<And>b. tracks_code F None (k1 b)) \<Longrightarrow> tracks_code F None (call_bool c k1)"
    and "(\<And>i. tracks_code F None (k2 i)) \<Longrightarrow> tracks_code F None (call_int c k2)"
    and "(\<And>a. tracks_code F None (k3 a)) \<Longrightarrow> tracks_code F None (call_addr c k3)"
    and "(\<And>p. tracks_code F None (k4 p)) \<Longrightarrow> tracks_code F None (call_ptr c k4)"
    and "(\<And>s. tracks_code F None (k5 s)) \<Longrightarrow> tracks_code F None (call_string c k5)"
    and "(\<And>d. tracks_code F None (k6 d)) \<Longrightarrow> tracks_code F None (call_double c k6)"
    and "(\<And>s. tracks_code F None (k7 s)) \<Longrightarrow> tracks_code F None (call_cv c k7)"
    and "(\<And>m. tracks_code F None (k8 m)) \<Longrightarrow> tracks_code F None (call_msg c k8)"
    and "tracks_code F None k0 \<Longrightarrow> (\<And>e h. catch e = Some h \<Longrightarrow> tracks_code F None h) \<Longrightarrow>
           tracks_code F None (call_unit_catch c k0 catch)"
proof -
  have *: "tracks_code F None (\<lambda>st. (st, Do c k))"
    if "\<And>r st. tracks F None (snd (k r st))" for k
    using that assms(2) by (simp add: tracks_code_def tracks_do)
  note fail = tracks_failure [OF assms(1)]
  show "tracks_code F None k0 \<Longrightarrow> tracks_code F None (call_unit c k0)"
    unfolding call_unit_def by (rule *) (auto simp: tracks_code_def fail split: answer.splits)
  show "(\<And>b. tracks_code F None (k1 b)) \<Longrightarrow> tracks_code F None (call_bool c k1)"
    unfolding call_bool_def by (rule *) (auto simp: tracks_code_def fail split: answer.splits)
  show "(\<And>i. tracks_code F None (k2 i)) \<Longrightarrow> tracks_code F None (call_int c k2)"
    unfolding call_int_def by (rule *) (auto simp: tracks_code_def fail split: answer.splits)
  show "(\<And>a. tracks_code F None (k3 a)) \<Longrightarrow> tracks_code F None (call_addr c k3)"
    unfolding call_addr_def by (rule *) (auto simp: tracks_code_def fail split: answer.splits)
  show "(\<And>p. tracks_code F None (k4 p)) \<Longrightarrow> tracks_code F None (call_ptr c k4)"
    unfolding call_ptr_def by (rule *) (auto simp: tracks_code_def fail split: answer.splits)
  show "(\<And>s. tracks_code F None (k5 s)) \<Longrightarrow> tracks_code F None (call_string c k5)"
    unfolding call_string_def by (rule *) (auto simp: tracks_code_def fail split: answer.splits)
  show "(\<And>d. tracks_code F None (k6 d)) \<Longrightarrow> tracks_code F None (call_double c k6)"
    unfolding call_double_def by (rule *) (auto simp: tracks_code_def fail split: answer.splits)
  show "(\<And>s. tracks_code F None (k7 s)) \<Longrightarrow> tracks_code F None (call_cv c k7)"
    unfolding call_cv_def by (rule *) (auto simp: tracks_code_def fail split: answer.splits)
  show "(\<And>m. tracks_code F None (k8 m)) \<Longrightarrow> tracks_code F None (call_msg c k8)"
    unfolding call_msg_def by (rule *) (auto simp: tracks_code_def fail split: answer.splits)
  show "tracks_code F None k0 \<Longrightarrow> (\<And>e h. catch e = Some h \<Longrightarrow> tracks_code F None h) \<Longrightarrow>
           tracks_code F None (call_unit_catch c k0 catch)"
    unfolding call_unit_catch_def using assms(1)
    by (intro *) (auto simp: tracks_code_def fail tracks_done error_tolerant_def
        split: answer.splits option.splits)
qed

lemma tracks_socket_write:
  "error_tolerant F \<Longrightarrow> tracks_code F (Some a) k \<Longrightarrow> tracks_code F None (call_unit (Socket_write a) k)"
  by (auto simp: tracks_code_def call_unit_def tracks_failure intro!: tracks_write split: answer.splits)

lemma tracks_find_or_fail:
  "F w (Handled ack_ko True False) \<Longrightarrow> (\<And>e. tracks_code F w (k e)) \<Longrightarrow>
     tracks_code F w (find_or_fail lookup k)"
  by (auto simp: tracks_code_def find_or_fail_def finish_def intro: tracks_done split: option.splits)

section \<open>Every decision is replied to once\<close>

abbreviation replies :: "code \<Rightarrow> bool" where
  "replies m \<equiv> tracks_code (handler_end False) None m"

lemma replies_finish:
  "replies (reply ack)"
  by (rule tracks_finish) (simp add: handler_end_def)

lemma replies_register: "replies (\<lambda>st. reply (f st) (g st))"
  by (auto simp: tracks_code_def finish_def handler_end_def intro: tracks_done)

lemma replies_received: "replies (reply_received a e mk)"
  by (auto simp: tracks_code_def reply_received_def finish_def undefined_behaviour_def
      handler_end_def intro!: tracks_done split: sum.splits)

lemma replies_deref:
  "(\<And>e. replies (k e)) \<Longrightarrow> replies (\<lambda>st. case f st of
      None \<Rightarrow> undefined_behaviour u st | Some e \<Rightarrow> k e st)"
  by (auto simp: tracks_code_def undefined_behaviour_def tracks_failure split: option.splits)

lemma replies_on_host_failure: "on_host_failure e = Some h \<Longrightarrow> replies h"
  by (auto simp: on_host_failure_def intro: replies_finish split: if_splits)

lemma replies_test:
  "(\<And>e. replies (k e)) \<Longrightarrow> replies (\<lambda>st. if b then reply ack st
      else case f st of None \<Rightarrow> undefined_behaviour u st | Some e \<Rightarrow> k e st)"
  by (auto simp: tracks_code_def undefined_behaviour_def tracks_failure finish_def handler_end_def
      intro: tracks_done split: option.splits)

lemma replies_socket_write:
  "replies (call_unit (Socket_write a) (finish a False False))"
  by (intro tracks_socket_write tracks_finish) (simp_all add: handler_end_def)

lemma replies_create_acknowledged: "replies (create_acknowledged pid q popped)"
  using replies_socket_write
  by (auto simp: tracks_code_def create_acknowledged_def throw_def tracks_failure Let_def
      split: option.splits)

lemma replies_announce_actor: "replies (announce_actor q r pid)"
  by (auto simp: announce_actor_def
      intro!: tracks_call tracks_throw tracks_if replies_create_acknowledged)

lemma replies_store_new_comm: "replies (store_new_comm e mk buf a)"
  by (auto simp: tracks_code_def store_new_comm_def throw_def finish_def handler_end_def
      tracks_failure intro: tracks_done)

lemma replies_deliver_message: "replies (deliver_message p)"
proof -
  have "tracks_code (handler_end False) (Some ack) (\<lambda>st.
      if strings st p = None then undefined_behaviour Dangling_string st
      else finish ack False False (st\<lparr>strings := (strings st)(p := None)\<rparr>))" for ack
    by (auto simp: tracks_code_def undefined_behaviour_def finish_def handler_end_def
        tracks_failure intro: tracks_done)
  then have "replies (call_unit (Socket_write ack) (\<lambda>st.
      if strings st p = None then undefined_behaviour Dangling_string st
      else finish ack False False (st\<lparr>strings := (strings st)(p := None)\<rparr>)))" for ack
    by (intro tracks_socket_write) simp_all
  then show ?thesis
    by (auto simp: tracks_code_def deliver_message_def undefined_behaviour_def tracks_failure
        split: option.splits)
qed

lemma replies_wait_any_for: "replies (handle_comm_wait_any_for as t)"
proof -
  have "replies (\<lambda>st'. if i < 0 then reply_with (A_commWaitAnyFor i []) st'
      else if int (length as) \<le> i then undefined_behaviour Index_out_of_range st'
      else (let a = as ! nat i in case comms st' a of
              None \<Rightarrow> throw ''Comm memory management inconsistency'' st'
            | Some e \<Rightarrow> reply_received a e (A_commWaitAnyFor i) st'))" for i
    using replies_received
    by (auto simp: tracks_code_def finish_def throw_def undefined_behaviour_def handler_end_def
        Let_def tracks_failure intro!: tracks_done split: option.splits)
  then have "replies (call_int (Comm_wait_any_for objs t) (\<lambda>i st'.
      if i < 0 then reply_with (A_commWaitAnyFor i []) st'
      else if int (length as) \<le> i then undefined_behaviour Index_out_of_range st'
      else (let a = as ! nat i in case comms st' a of
              None \<Rightarrow> throw ''Comm memory management inconsistency'' st'
            | Some e \<Rightarrow> reply_received a e (A_commWaitAnyFor i) st')))" for objs
    by (intro tracks_call) simp_all
  then show ?thesis
    by (auto simp: tracks_code_def handle_comm_wait_any_for_def throw_def tracks_failure
        split: option.splits)
qed

text \<open>The cases that allocate or drop before they reply or call.\<close>

lemma replies_stateful:
  "replies (handle_comm_refcount_decrease a)" "replies (handle_mutex_refcount_decrease a)"
  "replies (handle_cv_refcount_decrease a)" "replies (handle_mailbox_put n d z)"
  "replies (handle_mailbox_put_async n d z)" "replies (handle_mailbox_get_async n)"
  "replies (handle_actor_create n h)"
proof -
  show "replies (handle_comm_refcount_decrease a)" "replies (handle_mutex_refcount_decrease a)"
    "replies (handle_cv_refcount_decrease a)"
    using replies_finish by (simp_all add: tracks_code_def handler_defs split_beta)
  have "replies (call_unit (Mailbox_put n p z) (reply ack_ok))" for p
    by (intro tracks_call replies_finish) simp_all
  then show "replies (handle_mailbox_put n d z)"
    by (simp add: tracks_code_def handle_mailbox_put_def split_beta)
  have "replies (call_addr (Mailbox_put_async n p z) (store_new_comm e A_mailboxPutAsync None))" for p e
    by (intro tracks_call replies_store_new_comm) simp_all
  then show "replies (handle_mailbox_put_async n d z)"
    by (simp add: tracks_code_def handle_mailbox_put_async_def split_beta)
  have "replies (call_addr (Mailbox_get_async n b) (store_new_comm e A_mailboxGetAsync (Some b)))" for b e
    by (intro tracks_call replies_store_new_comm) simp_all
  then show "replies (handle_mailbox_get_async n)"
    by (simp add: tracks_code_def handle_mailbox_get_async_def split_beta)
  have "replies (call_int (Actor_create n' h r) (announce_actor q r))" for n' q r
    by (intro tracks_call replies_announce_actor) simp_all
  then have "replies (\<lambda>st. let (q, st) = new_queue st; (r, st) = new_queue st
      in call_int (Actor_create (c_str n) h r) (announce_actor q r) st)"
    by (simp add: tracks_code_def split_beta)
  then show "replies (handle_actor_create n h)"
    unfolding handle_actor_create_def by (intro tracks_call) simp_all
qed

lemma replies_with_cv_and_lock:
  assumes "\<And>c l. replies (k c l)"
  shows "replies (with_cv_and_lock cv m k)"
  unfolding with_cv_and_lock_def
proof (rule tracks_find_or_fail)
  show "replies (case ce of (c, e) \<Rightarrow> \<lambda>st.
      if rc_mutex_lock e \<in> locks st then k (rc_cv_obj c) (rc_mutex_lock e) st
      else undefined_behaviour Dangling_lock st)" for ce
    using assms by (auto simp: tracks_code_def undefined_behaviour_def tracks_failure split_beta)
qed (simp add: handler_end_def)

lemma replies_handle_type:
  "tracks_code (handler_end (is_quit d)) None (handle_type d)"
proof (cases "is_quit d \<or> d = Decision_type_not_set")
  case True
  then show ?thesis
    by (cases d) (simp_all add: is_quit_def handle_quit_def tracks_throw tracks_finish handler_end_def)
next
  case False
  then show ?thesis
    by (cases d) (auto simp: is_quit_def replies_stateful replies_wait_any_for handler_defs
        simp del: handle_actor_create_def intro!: tracks_call tracks_find_or_fail replies_finish
          replies_register replies_with_cv_and_lock replies_deliver_message replies_deref
          replies_received replies_test
        intro: replies_on_host_failure simp: handler_end_def split: if_splits)
qed

lemma replies_handle_decision:
  "tracks_code (handler_end (is_quit (type_case d))) None (handle_decision d)"
  by (auto simp: handle_decision_def replies_handle_type intro!: tracks_throw tracks_call)

section \<open>A turn of the loop\<close>

lemma tracks_bind:
  assumes "tracks F w p" "\<And>w out. F w out \<Longrightarrow> tracks_code G w (k out)"
    "\<And>r st. k (failure r) st = (st, Done (failure r))"
  shows "tracks_code G w (bind_prog p k)"
  using assms(1)
proof induction
  case (tracks_done w out)
  with assms(2) show ?case by simp
next
  case (tracks_write a f)
  have "tracks G None (snd (bind_prog (Do (Socket_write a) f) k st))" for st
    using tracks_write.IH tracks_write.hyps(2) assms(3)
    by (auto simp: tracks_code_def split_beta intro!: tracks.tracks_write)
  then show ?case by (simp add: tracks_code_def)
next
  case (tracks_do c f)
  then show ?case
    by (auto simp: tracks_code_def split_beta intro!: tracks.tracks_do)
qed

lemma send_reply_failure: "send_reply (failure r) st = (st, Done (failure r))"
  by (cases r) (simp_all add: send_reply_def)

lemma tracks_send_reply: "handler_end b w out \<Longrightarrow> tracks_code (turn_end b) w (send_reply out)"
proof (cases out)
  case (Handled ack s q)
  moreover assume "handler_end b w out"
  ultimately show ?thesis
    by (cases w) (auto simp: send_reply_def handler_end_def turn_end_def
        intro!: tracks_finish tracks_socket_write split: if_splits)
qed (auto simp: send_reply_def tracks_code_def tracks_failure handler_end_def)

lemma tracks_actor_turn:
  "tracks_code (turn_end (is_quit (type_case d))) None (actor_turn d)"
proof -
  have "tracks_code (turn_end (is_quit (type_case d))) None
      (bind_prog (snd (handle_decision d st)) send_reply)" for st
    using replies_handle_decision [of d]
    by (intro tracks_bind [where F = "handler_end (is_quit (type_case d))"] tracks_send_reply)
      (auto simp: tracks_code_def send_reply_failure tracks_failure)
  then show ?thesis
    by (auto simp: tracks_code_def actor_turn_def bind_code_def split_beta)
qed

text \<open>What tracking says of a run: the acknowledgments written, in order.\<close>

definition writes :: "call list \<Rightarrow> call list" where
  "writes cs = filter (\<lambda>c. case c of Socket_write a \<Rightarrow> True | _ \<Rightarrow> False) cs"

lemma writes_simps [simp]:
  "writes [] = []" "writes (Socket_write a # cs) = Socket_write a # writes cs"
  "\<forall>a. c \<noteq> Socket_write a \<Longrightarrow> writes (c # cs) = writes cs"
  by (simp_all add: writes_def) (cases c; simp)

lemma tracks_run:
  assumes "tracks F w p" "run_prog p env u st = (Handled ack s q, st', u', cs)"
  shows "case w of
      None \<Rightarrow> (writes cs = [] \<and> F None (Handled ack s q)) \<or>
              (\<exists>a. writes cs = [Socket_write a] \<and> F (Some a) (Handled ack s q))
    | Some a \<Rightarrow> writes cs = [] \<and> F (Some a) (Handled ack s q)"
  using assms
proof (induction arbitrary: u st st' u' cs)
  case (tracks_done w out)
  then show ?case by (auto split: option.splits)
next
  case (tracks_write a k)
  obtain r u1 st1 where e: "env (Socket_write a) u st = (r, u1, st1)" by (cases "env (Socket_write a) u st")
  obtain st2 p2 where k: "k r st1 = (st2, p2)" by (cases "k r st1")
  obtain cs2 where run: "run_prog p2 env u1 st2 = (Handled ack s q, st', u', cs2)"
    and cs: "cs = Socket_write a # cs2"
    using tracks_write.prems e k by (auto split: prod.splits)
  have "r = Ret_unit"
  proof (rule ccontr)
    assume "r \<noteq> Ret_unit"
    with tracks_write.hyps(2) [of r st1] k run show False by (cases r) auto
  qed
  with tracks_write.IH [of st1] k run cs show ?case by auto
next
  case (tracks_do c k)
  obtain r u1 st1 where e: "env c u st = (r, u1, st1)" by (cases "env c u st")
  obtain st2 p2 where k: "k r st1 = (st2, p2)" by (cases "k r st1")
  obtain cs2 where run: "run_prog p2 env u1 st2 = (Handled ack s q, st', u', cs2)"
    and cs: "cs = c # cs2"
    using tracks_do.prems e k by (auto split: prod.splits)
  have "writes cs = writes cs2" using cs tracks_do.hyps(1) by simp
  with tracks_do.IH [of r st1, unfolded k snd_conv, OF run] show ?case by simp
qed

lemma actor_turn_writes:
  assumes "run_code (actor_turn d) env u st = (Handled ack s q, st', u', cs)"
  shows "\<not> s \<and> q = is_quit (type_case d) \<and> writes cs = (if q then [] else [Socket_write ack])"
proof -
  obtain st1 p where p: "actor_turn d st = (st1, p)" by (cases "actor_turn d st")
  with tracks_actor_turn [of d] have "tracks (turn_end (is_quit (type_case d))) None p"
    by (metis tracks_code_def snd_conv)
  from tracks_run [OF this] assms p show ?thesis
    by (fastforce simp: run_code_def turn_end_def)
qed

end
