(* ===== verification/Actor_System.thy ===== *)
theory Actor_System
  imports Actor_Loop
begin

text \<open>
  All simulated actors of the server together: \<^verbatim>\<open>Actor::operator()\<close> of every actor, sharing
  the store of \<open>Refcount_Store\<close>, under any schedule of the simulator and any answers it may
  give. The actors run in mutual exclusion: an actor gives the simulation thread up only in a
  call to the simulator, and keeps it while it reads or writes its socket or waits on an
  inter-thread queue.
\<close>

section \<open>Actors and their steps\<close>

datatype phase =
    Starting                                  \<comment> \<open>an initial actor, not yet scheduled\<close>
  | Connecting prog                           \<comment> \<open>in the prologue of a dynamic actor\<close>
  | Reading                                   \<comment> \<open>in \<^verbatim>\<open>read_message\<close>\<close>
  | Handling "u64 set" prog                   \<comment> \<open>in a turn; the handles its decision drops\<close>
  | Terminated
  | Crashed                                   \<comment> \<open>an exception that nothing catches\<close>

record actor =
  a_socket :: "socket option"
  a_phase :: phase

datatype io_event = Rx decision | Tx decision_ack

record sys =
  shared :: server
  actors :: "int \<rightharpoonup> actor"
  to_command :: "interthread_message list"
  events :: "int \<Rightarrow> io_event list"

definition set_actor :: "int \<Rightarrow> actor \<Rightarrow> sys \<Rightarrow> sys" where
  "set_actor i A s = s\<lparr>actors := (actors s)(i \<mapsto> A)\<rparr>"

definition set_phase :: "int \<Rightarrow> actor \<Rightarrow> phase \<Rightarrow> sys \<Rightarrow> sys" where
  "set_phase i A ph s = set_actor i (A\<lparr>a_phase := ph\<rparr>) s"

definition log_event :: "int \<Rightarrow> io_event \<Rightarrow> sys \<Rightarrow> sys" where
  "log_event i ev s = s\<lparr>events := (events s)(i := events s i @ [ev])\<rparr>"

text \<open>The computation an actor is in, with the handles it drops.\<close>

fun running :: "phase \<Rightarrow> (u64 set \<times> prog) option" where
  "running (Connecting p) = Some ({}, p)"
| "running (Handling D p) = Some (D, p)"
| "running _ = None"

text \<open>An actor that holds the simulation thread: no other actor runs meanwhile.\<close>

fun holds_thread :: "phase \<Rightarrow> bool" where
  "holds_thread (Connecting (Do c k)) = io_call c"
| "holds_thread (Connecting (Done out)) = True"
| "holds_thread Reading = True"
| "holds_thread (Handling D (Do c k)) = io_call c"
| "holds_thread (Handling D (Done out)) = True"
| "holds_thread _ = False"

definition exclusive :: "sys \<Rightarrow> int \<Rightarrow> bool" where
  "exclusive s i \<longleftrightarrow> (\<forall>j B. j \<noteq> i \<and> actors s j = Some B \<longrightarrow> \<not> holds_thread (a_phase B))"

text \<open>
  The discipline of \<^verbatim>\<open>librsg\<close>: a handle is dropped by the destructor of the client's
  object, so no other actor is waiting on it. (The steps take the condition as a parameter:
  \<open>Client_Handles\<close> derives the discipline from the shared pointers of the clients.)
\<close>

definition drops_allowed :: "sys \<Rightarrow> int \<Rightarrow> u64 set \<Rightarrow> bool" where
  "drops_allowed s i D \<longleftrightarrow> (\<forall>j B D' c k a. j \<noteq> i \<and> actors s j = Some B \<and>
     running (a_phase B) = Some (D', Do c k) \<and> pinned_comm c = Some a \<longrightarrow> a \<notin> D)"

text \<open>The actor's own record of a call: what it sent, where it is connected.\<close>

definition record_call :: "int \<Rightarrow> call \<Rightarrow> answer \<Rightarrow> sys \<Rightarrow> sys" where
  "record_call i c r s = (case (c, r) of
      (Socket_write a, Ret_unit) \<Rightarrow> log_event i (Tx a) s
    | (Queue_push_to_command m, Ret_bool True) \<Rightarrow> s\<lparr>to_command := to_command s @ [m]\<rparr>
    | _ \<Rightarrow> s)"

definition next_socket :: "answer \<Rightarrow> socket option \<Rightarrow> socket option" where
  "next_socket r sk = (case r of Ret_msg (Some (Im_actor_connected s)) \<Rightarrow> Some s | _ \<Rightarrow> sk)"

inductive sys_step_with :: "(sys \<Rightarrow> int \<Rightarrow> u64 set \<Rightarrow> bool) \<Rightarrow> (call \<Rightarrow> answer \<Rightarrow> bool) \<Rightarrow> sys \<Rightarrow> sys \<Rightarrow> bool"
  for allowed answered where
  start: "actors s i = Some A \<Longrightarrow> a_phase A = Starting \<Longrightarrow> exclusive s i \<Longrightarrow>
    sys_step_with allowed answered s (set_phase i A Reading s)"
| prologue: "actors s i = Some A \<Longrightarrow> a_phase A = Connecting (Do c k) \<Longrightarrow> exclusive s i \<Longrightarrow>
    well_typed c r \<Longrightarrow> s4u_ok c r (shared s) \<Longrightarrow> answered c r \<Longrightarrow> k r (shared s) = (st', p) \<Longrightarrow>
    sys_step_with allowed answered s (set_phase i (A\<lparr>a_socket := next_socket r (a_socket A)\<rparr>) (Connecting p)
                  (s\<lparr>shared := st'\<rparr>))"
| connected: "actors s i = Some A \<Longrightarrow> a_phase A = Connecting (Done (Handled a se q)) \<Longrightarrow>
    exclusive s i \<Longrightarrow> sys_step_with allowed answered s (set_phase i A Reading s)"
| not_connected: "actors s i = Some A \<Longrightarrow> a_phase A = Connecting (Done out) \<Longrightarrow>
    (\<And>a se q. out \<noteq> Handled a se q) \<Longrightarrow> exclusive s i \<Longrightarrow>
    sys_step_with allowed answered s (set_phase i A Crashed s)"
| read: "actors s i = Some A \<Longrightarrow> a_phase A = Reading \<Longrightarrow> exclusive s i \<Longrightarrow>
    allowed s i (drops (type_case d)) \<Longrightarrow> actor_turn d (shared s) = (st', p) \<Longrightarrow>
    sys_step_with allowed answered s (set_phase i A (Handling (drops (type_case d)) p)
                  (log_event i (Rx d) (s\<lparr>shared := st'\<rparr>)))"
| read_error: "actors s i = Some A \<Longrightarrow> a_phase A = Reading \<Longrightarrow> exclusive s i \<Longrightarrow>
    sys_step_with allowed answered s (set_phase i A Terminated
                  (s\<lparr>to_command := to_command s @ [Im_simulation_aborted i e]\<rparr>))"
| resume: "actors s i = Some A \<Longrightarrow> a_phase A = Handling D (Do c k) \<Longrightarrow> exclusive s i \<Longrightarrow>
    allowed s i D \<Longrightarrow> well_typed c r \<Longrightarrow> s4u_ok c r (shared s) \<Longrightarrow> answered c r \<Longrightarrow>
    (\<And>n h q. c \<noteq> Actor_create n h q) \<Longrightarrow> k r (shared s) = (st', p) \<Longrightarrow>
    sys_step_with allowed answered s (set_phase i A (Handling D p) (record_call i c r (s\<lparr>shared := st'\<rparr>)))"
| create: "actors s i = Some A \<Longrightarrow> a_phase A = Handling D (Do (Actor_create n h q) k) \<Longrightarrow>
    exclusive s i \<Longrightarrow> allowed s i D \<Longrightarrow> actors s pid = None \<Longrightarrow>
    k (Ret_int pid) (shared s) = (st', p) \<Longrightarrow> actor_prologue q st' = (st'', p') \<Longrightarrow>
    sys_step_with allowed answered s (set_actor pid \<lparr>a_socket = None, a_phase = Connecting p'\<rparr>
                  (set_phase i A (Handling D p) (s\<lparr>shared := st''\<rparr>)))"
| create_error: "actors s i = Some A \<Longrightarrow> a_phase A = Handling D (Do (Actor_create n h q) k) \<Longrightarrow>
    exclusive s i \<Longrightarrow> allowed s i D \<Longrightarrow> k (Exn x) (shared s) = (st', p) \<Longrightarrow>
    sys_step_with allowed answered s (set_phase i A (Handling D p) (s\<lparr>shared := st'\<rparr>))"
| next_turn: "actors s i = Some A \<Longrightarrow> a_phase A = Handling D (Done (Handled a se False)) \<Longrightarrow>
    exclusive s i \<Longrightarrow> sys_step_with allowed answered s (set_phase i A Reading s)"
| quit: "actors s i = Some A \<Longrightarrow> a_phase A = Handling D (Done (Handled a se True)) \<Longrightarrow>
    exclusive s i \<Longrightarrow> a_socket A = Some sk \<Longrightarrow>
    sys_step_with allowed answered s (set_phase i A Terminated (s\<lparr>to_command := to_command s @ [Im_actor_quit sk]\<rparr>))"
| abort: "actors s i = Some A \<Longrightarrow> a_phase A = Handling D (Done (Threw e)) \<Longrightarrow> exclusive s i \<Longrightarrow>
    sys_step_with allowed answered s (set_phase i A Terminated
                  (s\<lparr>to_command := to_command s @ [Im_simulation_aborted i e]\<rparr>))"
| crash: "actors s i = Some A \<Longrightarrow> a_phase A = Handling D (Done (Uncaught x)) \<Longrightarrow> exclusive s i \<Longrightarrow>
    sys_step_with allowed answered s (set_phase i A Crashed s)"
| deliver: "(\<And>i A. actors s i = Some A \<Longrightarrow> \<not> holds_thread (a_phase A)) \<Longrightarrow>
    strings (shared s) p = Some d \<Longrightarrow> (\<And>b'. cells (shared s) b' \<noteq> Some (Some p)) \<Longrightarrow>
    cells (shared s) b = Some None \<Longrightarrow>
    sys_step_with allowed answered s (s\<lparr>shared := (shared s)\<lparr>cells := (cells (shared s))(b \<mapsto> Some p)\<rparr>\<rparr>)"

text \<open>Without a condition on the answers.\<close>

abbreviation sys_step_if :: "(sys \<Rightarrow> int \<Rightarrow> u64 set \<Rightarrow> bool) \<Rightarrow> sys \<Rightarrow> sys \<Rightarrow> bool" where
  "sys_step_if allowed \<equiv> sys_step_with allowed (\<lambda>c r. True)"

abbreviation sys_step :: "sys \<Rightarrow> sys \<Rightarrow> bool" where
  "sys_step \<equiv> sys_step_if drops_allowed"

text \<open>The simulation starts with an empty store and the initial actors, connected.\<close>

definition init_sys :: "(int \<times> socket) list \<Rightarrow> sys" where
  "init_sys conns = \<lparr>shared = empty_server,
     actors = (\<lambda>i. map_option (\<lambda>sk. \<lparr>a_socket = Some sk, a_phase = Starting\<rparr>) (map_of conns i)),
     to_command = [], events = (\<lambda>i. [])\<rparr>"

inductive reachable :: "(int \<times> socket) list \<Rightarrow> sys \<Rightarrow> bool" for conns where
  reach_init: "reachable conns (init_sys conns)"
| reach_step: "reachable conns s \<Longrightarrow> sys_step s s' \<Longrightarrow> reachable conns s'"

section \<open>Turns and prologues are safe\<close>

lemma safe_bind:
  assumes "safe D st p" "server_ok st" "preserves D x st0 st" "fresh_pins st0 p"
    and "\<And>out x st0 st. acceptable out \<Longrightarrow> server_ok st \<Longrightarrow> preserves D x st0 st \<Longrightarrow>
           safe_code D x st0 (f out) st"
  shows "safe_code D x st0 (bind_prog p f) st"
  using assms(1-4)
proof (induction arbitrary: x st0)
  case (safe_done out st)
  with assms(5) show ?case by simp
next
  case (safe_do c st k)
  have "safe_code D x st0 (\<lambda>st. (st, Do c (\<lambda>r st'.
      bind_prog (snd (k r st')) f (fst (k r st'))))) st"
  proof (rule safe_call [OF safe_do.prems(1,2)])
    show "\<And>b. pinned_cell c = Some b \<Longrightarrow> next_ptr st0 \<le> b \<and> free_cell st b"
      using safe_do.prems(3) safe_do.hyps by (simp add: fresh_pins_def)
    fix r st' assume "interferes c st st'" "well_typed c r" "s4u_ok c r st'"
    from safe_do.IH [OF this] have
      "safe_code D (pinned_cell c) st' (bind_prog (snd (k r st')) f) (fst (k r st'))" by blast
    then show "safe_code D (pinned_cell c) st' (\<lambda>st'. bind_prog (snd (k r st')) f (fst (k r st'))) st'"
      by (simp add: safe_code_def)
  qed
  then show ?case by (simp add: safe_code_def split_beta)
qed

lemma safe_send_reply:
  assumes "acceptable out" "server_ok st" "preserves D x st0 st"
  shows "safe_code D x st0 (send_reply out) st"
proof (cases out)
  case (Handled a s q)
  with assms show ?thesis
    by (auto simp: send_reply_def call_facts intro!: safe_finish safe_call_unit)
qed (use assms in \<open>simp_all add: send_reply_def safe_code_done\<close>)

lemma safe_actor_turn:
  assumes "server_ok st" "preserves (drops (type_case d)) x st0 st"
  shows "safe_code (drops (type_case d)) x st0 (actor_turn d) st"
  using safe_handle_decision [OF assms]
    safe_bind [where f = send_reply and p = "snd (handle_decision d st)"
      and st = "fst (handle_decision d st)"] safe_send_reply
  by (auto simp: safe_code_def actor_turn_def bind_code_def split_beta)

lemma safe_actor_prologue:
  assumes "server_ok st" "preserves D x st0 st"
  shows "safe_code D x st0 (actor_prologue q) st"
proof -
  have "safe_code D y st1 (actor_connected q popped) st"
    if "server_ok st" "preserves D y st1 st" for y st1 st popped
    using that preserves_trans [OF that(2) preserves_ops(4)]
    by (auto simp: actor_connected_def safe_code_def throw_def finish_def fresh_pins_def
        acceptable_def safe_done split: option.splits)
  with assms show ?thesis
    by (auto simp: actor_prologue_def call_facts intro!: safe_call_int safe_call_unit safe_call_msg)
qed

section \<open>The invariant of the system\<close>

definition phase_ok :: "server \<Rightarrow> phase \<Rightarrow> bool" where
  "phase_ok st ph \<longleftrightarrow> (\<forall>D p. running ph = Some (D, p) \<longrightarrow> safe D st p)"

definition cell_pin :: "phase \<Rightarrow> ptr option" where
  "cell_pin ph = (case running ph of Some (D, Do c k) \<Rightarrow> pinned_cell c | _ \<Rightarrow> None)"

definition sys_ok :: "sys \<Rightarrow> bool" where
  "sys_ok s \<longleftrightarrow> server_ok (shared s) \<and>
     (\<forall>i A. actors s i = Some A \<longrightarrow> phase_ok (shared s) (a_phase A)) \<and>
     (\<forall>i j A B b. i \<noteq> j \<and> actors s i = Some A \<and> actors s j = Some B \<and>
        cell_pin (a_phase A) = Some b \<longrightarrow> cell_pin (a_phase B) \<noteq> Some b)"

definition one_holder :: "sys \<Rightarrow> bool" where
  "one_holder s \<longleftrightarrow> (\<forall>i j A B. actors s i = Some A \<and> actors s j = Some B \<and>
     holds_thread (a_phase A) \<and> holds_thread (a_phase B) \<longrightarrow> i = j)"

lemma interferes_refl: "server_ok st \<Longrightarrow> interferes c st st"
  by (simp add: interferes_def same_node_def)

lemma interferes_trans:
  "interferes c st0 st \<Longrightarrow> interferes c st st' \<Longrightarrow> interferes c st0 st'"
  by (auto simp: interferes_def intro: same_node_trans split: if_splits)

lemma safe_mono:
  assumes "safe D st (Do c k)" "interferes c st st'"
  shows "safe D st' (Do c k)"
  using assms(1)
proof (rule safe_doE)
  assume pins: "\<And>b. pinned_cell c = Some b \<Longrightarrow> free_cell st b"
    and k: "\<And>r st'. interferes c st st' \<Longrightarrow> well_typed c r \<Longrightarrow> s4u_ok c r st' \<Longrightarrow>
       server_ok (fst (k r st')) \<and> preserves D (pinned_cell c) st' (fst (k r st')) \<and>
       fresh_pins st' (snd (k r st')) \<and> safe D (fst (k r st')) (snd (k r st'))"
  show ?thesis
  proof (rule safe_do)
    show "pinned_cell c = Some b \<Longrightarrow> free_cell st' b" for b
      using pins assms(2) by (auto simp: interferes_def split: if_splits)
  qed (use k interferes_trans [OF assms(2)] in blast)
qed

text \<open>The stretch of code from one call to the next.\<close>

lemma safe_resume:
  assumes "safe D st (Do c k)" "server_ok st" "well_typed c r" "s4u_ok c r st"
    "k r st = (st', p)"
  shows "server_ok st'" "preserves D (pinned_cell c) st st'" "fresh_pins st p" "safe D st' p"
proof -
  from assms(1) have "server_ok (fst (k r st)) \<and> preserves D (pinned_cell c) st (fst (k r st)) \<and>
      fresh_pins st (snd (k r st)) \<and> safe D (fst (k r st)) (snd (k r st))"
    by (rule safe_doE) (use interferes_refl [OF assms(2)] assms(3,4) in blast)
  then show "server_ok st'" "preserves D (pinned_cell c) st st'" "fresh_pins st p" "safe D st' p"
    by (simp_all add: assms(5))
qed

lemma phase_ok_pin:
  assumes "phase_ok st ph" "cell_pin ph = Some b"
  shows "free_cell st b"
proof -
  obtain D c k where c: "running ph = Some (D, Do c k)" "pinned_cell c = Some b"
    using assms(2) by (auto simp: cell_pin_def split: option.splits prog.splits)
  with assms(1) have "safe D st (Do c k)" by (simp add: phase_ok_def)
  then show ?thesis by (rule safe_doE) (use c in blast)
qed

text \<open>What one actor does leaves the others' computations safe.\<close>

lemma phase_ok_stable:
  assumes "phase_ok st ph" "\<not> holds_thread ph" "server_ok st'" "preserves D x st st'"
    and "\<And>D' c k a. running ph = Some (D', Do c k) \<Longrightarrow> pinned_comm c = Some a \<Longrightarrow> a \<notin> D"
    and "\<And>b. cell_pin ph = Some b \<Longrightarrow> x \<noteq> Some b"
  shows "phase_ok st' ph"
  unfolding phase_ok_def
proof (intro allI impI)
  fix D' p assume run: "running ph = Some (D', p)"
  with assms(2) obtain c k where p: "p = Do c k" "\<not> io_call c"
    by (cases ph; cases p) auto
  have "interferes c st st'"
    using assms(3,4,5) run p assms(6)
    by (auto simp: interferes_def preserves_def cell_pin_def)
  moreover have "safe D' st (Do c k)" using assms(1) run p by (simp add: phase_ok_def)
  ultimately show "safe D' st' p" using safe_mono p by blast
qed

lemma sys_ok_move:
  assumes ok: "sys_ok s" and i: "actors s i = Some A" and ex: "exclusive s i"
    and dr: "drops_allowed s i D" and st': "server_ok st'"
    and pr: "preserves D (cell_pin (a_phase A)) (shared s) st'"
    and ph: "phase_ok st' (a_phase A')"
    and pin: "\<And>b. cell_pin (a_phase A') = Some b \<Longrightarrow> next_ptr (shared s) \<le> b"
    and s': "shared s' = st'" "actors s' = (actors s)(i \<mapsto> A')"
  shows "sys_ok s'"
proof -
  have others: "phase_ok st' (a_phase B)" if "j \<noteq> i" "actors s j = Some B" for j B
  proof (rule phase_ok_stable [OF _ _ st' pr])
    show "phase_ok (shared s) (a_phase B)" using ok that by (simp add: sys_ok_def)
    show "\<not> holds_thread (a_phase B)" using ex that by (simp add: exclusive_def)
    show "running (a_phase B) = Some (D', Do c k) \<Longrightarrow> pinned_comm c = Some a \<Longrightarrow> a \<notin> D"
      for D' c k a using dr that unfolding drops_allowed_def by blast
    show "cell_pin (a_phase B) = Some b \<Longrightarrow> cell_pin (a_phase A) \<noteq> Some b" for b
      using ok that i unfolding sys_ok_def by metis
  qed
  have old: "b < next_ptr (shared s)" if "actors s j = Some B" "cell_pin (a_phase B) = Some b" for j B b
  proof -
    have "phase_ok (shared s) (a_phase B)" using ok that(1) by (simp add: sys_ok_def)
    then have "free_cell (shared s) b" using that(2) by (rule phase_ok_pin)
    then show ?thesis using ok by (auto simp: sys_ok_def server_ok_def heap_ok_def free_cell_def)
  qed
  have pins: "cell_pin (a_phase C) \<noteq> Some b"
    if "j \<noteq> k" "actors s' j = Some B" "actors s' k = Some C" "cell_pin (a_phase B) = Some b" for j k B C b
    using that ok old [of j B b] old [of k C b] pin [of b]
    unfolding s' sys_ok_def by (auto split: if_splits)
  show ?thesis
    unfolding sys_ok_def
  proof (intro conjI allI impI)
    show "server_ok (shared s')" using st' s' by simp
    show "phase_ok (shared s') (a_phase B)" if "actors s' j = Some B" for j B
      using that s' ph others by (auto split: if_splits)
    show "cell_pin (a_phase C) \<noteq> Some b" if "j \<noteq> k \<and> actors s' j = Some B \<and>
        actors s' k = Some C \<and> cell_pin (a_phase B) = Some b" for j k B C b
      using that pins by blast
  qed
qed

text \<open>A change of phase that touches nothing.\<close>

lemma sys_ok_idle:
  assumes "sys_ok s" "actors s i = Some A" "exclusive s i" "running ph = None"
    and "shared s' = shared s" "actors s' = (actors s)(i \<mapsto> A\<lparr>a_phase := ph\<rparr>)"
  shows "sys_ok s'"
proof (rule sys_ok_move [OF assms(1-3), where D = "{}" and A' = "A\<lparr>a_phase := ph\<rparr>"])
  show "drops_allowed s i {}" by (simp add: drops_allowed_def)
  show "server_ok (shared s)" using assms(1) by (simp add: sys_ok_def)
qed (use assms(4-6) in \<open>simp_all add: phase_ok_def cell_pin_def\<close>)

lemma sys_ok_new_actor:
  assumes "sys_ok s" "actors s i = None" "phase_ok (shared s) (a_phase A)"
    "cell_pin (a_phase A) = None"
  shows "sys_ok (set_actor i A s)"
  using assms by (auto simp: sys_ok_def set_actor_def)

lemma shared_record_call [simp]: "shared (record_call i c r s) = shared s"
  "actors (record_call i c r s) = actors s"
  by (cases c; cases r; simp add: record_call_def log_event_def split: bool.splits)+

lemma sys_ok_resume:
  assumes ok: "sys_ok s" and i: "actors s i = Some A" and ex: "exclusive s i"
    and dr: "drops_allowed s i D" and run: "running (a_phase A) = Some (D, Do c k)"
    and r: "well_typed c r" "s4u_ok c r (shared s)" "k r (shared s) = (st', p)"
    and A': "running (a_phase A') = Some (D, p)"
    and s': "shared s' = st'" "actors s' = (actors s)(i \<mapsto> A')"
  shows "sys_ok s'"
proof -
  have "safe D (shared s) (Do c k)" "server_ok (shared s)"
    using ok i run by (auto simp: sys_ok_def phase_ok_def)
  note seg = safe_resume [OF this r]
  show ?thesis
  proof (rule sys_ok_move [OF ok i ex dr seg(1) _ _ _ s'])
    show "preserves D (cell_pin (a_phase A)) (shared s) st'"
      using seg(2) run by (simp add: cell_pin_def)
    show "phase_ok st' (a_phase A')" using seg(4) A' by (simp add: phase_ok_def)
    show "cell_pin (a_phase A') = Some b \<Longrightarrow> next_ptr (shared s) \<le> b" for b
      using seg(3) A' by (simp add: cell_pin_def fresh_pins_def split: prog.splits)
  qed
qed

lemma sys_ok_read:
  assumes ok: "sys_ok s" and i: "actors s i = Some A" and ex: "exclusive s i"
    and A: "a_phase A = Reading" and dr: "drops_allowed s i (drops (type_case d))"
    and turn: "actor_turn d (shared s) = (st', p)"
    and s': "shared s' = st'"
      "actors s' = (actors s)(i \<mapsto> A\<lparr>a_phase := Handling (drops (type_case d)) p\<rparr>)"
  shows "sys_ok s'"
proof -
  have "server_ok (shared s)" using ok by (simp add: sys_ok_def)
  then have seg: "safe_code (drops (type_case d)) None (shared s) (actor_turn d) (shared s)"
    by (rule safe_actor_turn) simp
  show ?thesis
  proof (rule sys_ok_move [OF ok i ex dr _ _ _ _ s'])
    show "server_ok st'" "preserves (drops (type_case d)) (cell_pin (a_phase A)) (shared s) st'"
      "phase_ok st' (a_phase (A\<lparr>a_phase := Handling (drops (type_case d)) p\<rparr>))"
      using seg turn A by (simp_all add: safe_code_def phase_ok_def cell_pin_def)
    show "cell_pin (a_phase (A\<lparr>a_phase := Handling (drops (type_case d)) p\<rparr>)) = Some b \<Longrightarrow>
        next_ptr (shared s) \<le> b" for b
      using seg turn by (simp add: safe_code_def cell_pin_def fresh_pins_def split: prog.splits)
  qed
qed

text \<open>The simulator writes a payload into a reception buffer.\<close>

lemma sys_ok_deliver:
  assumes ok: "sys_ok s" and free: "\<And>i A. actors s i = Some A \<Longrightarrow> \<not> holds_thread (a_phase A)"
    and p: "strings (shared s) p = Some d" "\<And>b'. cells (shared s) b' \<noteq> Some (Some p)"
    and b: "cells (shared s) b = Some None"
    and s': "s' = s\<lparr>shared := (shared s)\<lparr>cells := (cells (shared s))(b \<mapsto> Some p)\<rparr>\<rparr>"
  shows "sys_ok s'"
proof -
  let ?st = "(shared s)\<lparr>cells := (cells (shared s))(b \<mapsto> Some p)\<rparr>"
  have tab: "tables_ok ?st = tables_ok (shared s)" by (rule tables_ok_cong) simp_all
  have st: "server_ok ?st"
    using ok tab p b unfolding sys_ok_def server_ok_def heap_ok_def buffers_ok_def locks_ok_def
    by (auto split: if_splits)
  have pr: "preserves {} None (shared s) ?st"
    by (rule preserves_same) auto
  have "phase_ok ?st (a_phase A)" if "actors s i = Some A" for i A
    using ok that free by (intro phase_ok_stable [OF _ _ st pr]) (auto simp: sys_ok_def)
  with ok st show ?thesis by (simp add: sys_ok_def s')
qed

lemma sys_ok_step: "sys_step s s' \<Longrightarrow> sys_ok s \<Longrightarrow> sys_ok s'"
proof (induction rule: sys_step_with.induct)
  case (prologue s i A c k r st' p)
  show ?case
    by (rule sys_ok_resume [where D = "{}" and c = c and k = k and r = r and st' = st' and p = p
        and A' = "A\<lparr>a_socket := next_socket r (a_socket A), a_phase := Connecting p\<rparr>",
        OF prologue.prems prologue.hyps(1,3)])
      (simp_all add: prologue.hyps drops_allowed_def set_phase_def set_actor_def)
next
  case (read s i A d st' p)
  show ?case
    by (rule sys_ok_read [OF read.prems read.hyps(1,3,2,4,5)])
      (simp_all add: set_phase_def set_actor_def log_event_def)
next
  case (resume s i A D c k r st' p)
  show ?case
    by (rule sys_ok_resume [where c = c and k = k and r = r and st' = st' and p = p
        and A' = "A\<lparr>a_phase := Handling D p\<rparr>", OF resume.prems resume.hyps(1,3,4)])
      (simp_all add: resume.hyps set_phase_def set_actor_def)
next
  case (create s i A D n h q k pid st' p st'' p')
  have pro: "st'' = st'" "cell_pin (Connecting p') = None"
    using create.hyps(7) by (auto simp: actor_prologue_def call_int_def cell_pin_def pinned_cell_def)
  have ok: "sys_ok (set_phase i A (Handling D p) (s\<lparr>shared := st''\<rparr>))"
    by (rule sys_ok_resume [where c = "Actor_create n h q" and k = k and r = "Ret_int pid"
        and st' = st' and p = p and A' = "A\<lparr>a_phase := Handling D p\<rparr>",
        OF create.prems create.hyps(1,3,4)])
      (simp_all add: create.hyps pro set_phase_def set_actor_def well_typed_def call_shape_def s4u_ok_def)
  then have "server_ok st'" by (simp add: sys_ok_def set_phase_def set_actor_def pro)
  from safe_actor_prologue [OF this, where D = "{}" and q = q and x = None and ?st0.0 = st']
  have "phase_ok st' (Connecting p')"
    using create.hyps(7) by (simp add: safe_code_def phase_ok_def pro)
  then show ?case
    using create.hyps(1,5) pro by (intro sys_ok_new_actor [OF ok]) (auto simp: set_phase_def set_actor_def)
next
  case (create_error s i A D n h q k x st' p)
  show ?case
    by (rule sys_ok_resume [where c = "Actor_create n h q" and k = k and r = "Exn x"
        and st' = st' and p = p and A' = "A\<lparr>a_phase := Handling D p\<rparr>",
        OF create_error.prems create_error.hyps(1,3,4)])
      (simp_all add: create_error.hyps set_phase_def set_actor_def well_typed_def s4u_ok_def)
next
  case (deliver s p d b)
  show ?case by (rule sys_ok_deliver [OF deliver.prems deliver.hyps refl])
qed (erule (2) sys_ok_idle; simp add: set_phase_def set_actor_def)+

lemma sys_ok_init: "sys_ok (init_sys conns)"
  by (auto simp: sys_ok_def init_sys_def server_ok_empty phase_ok_def cell_pin_def)

lemma reachable_sys_ok: "reachable conns s \<Longrightarrow> sys_ok s"
  by (induction rule: reachable.induct) (auto intro: sys_ok_init sys_ok_step)


section \<open>Mutual exclusion\<close>

lemma holds_prologue: "actor_prologue q st = (st', p) \<Longrightarrow> \<not> holds_thread (Connecting p)"
  by (auto simp: actor_prologue_def call_int_def io_call_def)

lemma one_holder_move:
  assumes "exclusive s i" "actors s' = (actors s)(i \<mapsto> A)"
  shows "one_holder s'"
  using assms by (auto simp: one_holder_def exclusive_def split: if_splits)

lemma one_holder_new:
  assumes "one_holder s" "\<not> holds_thread (a_phase B)"
  shows "one_holder (set_actor j B s)"
  using assms unfolding one_holder_def set_actor_def by simp

lemma one_holder_step: "sys_step s s' \<Longrightarrow> one_holder s \<Longrightarrow> one_holder s'"
proof (induction rule: sys_step_with.induct)
  case (create s i A D n h q k pid st' p st'' p')
  have "one_holder (set_phase i A (Handling D p) (s\<lparr>shared := st''\<rparr>))"
    using create.hyps(3) by (rule one_holder_move) (simp add: set_phase_def set_actor_def)
  then show ?case
    by (rule one_holder_new) (use holds_prologue [OF create.hyps(7)] in simp)
next
  case (deliver s p d b)
  then show ?case by (simp add: one_holder_def)
qed (erule one_holder_move; simp add: set_phase_def set_actor_def log_event_def)+

lemma reachable_one_holder: "reachable conns s \<Longrightarrow> one_holder s"
proof (induction rule: reachable.induct)
  case reach_init
  show ?case by (auto simp: one_holder_def init_sys_def)
qed (rule one_holder_step)

section \<open>Requests and replies\<close>

text \<open>A history in which every decision is followed by its acknowledgment.\<close>

fun replied :: "io_event list \<Rightarrow> bool" where
  "replied [] = True"
| "replied (Rx d # Tx a # evs) = replied evs"
| "replied _ = False"

definition pending :: "io_event list \<Rightarrow> decision \<Rightarrow> decision_ack option \<Rightarrow> bool" where
  "pending evs d w \<longleftrightarrow> (\<exists>done. replied done \<and>
     evs = done @ Rx d # (case w of None \<Rightarrow> [] | Some a \<Rightarrow> [Tx a]))"

definition dialogue :: "io_event list \<Rightarrow> phase \<Rightarrow> bool" where
  "dialogue evs ph \<longleftrightarrow> (case ph of
      Handling D p \<Rightarrow> (\<exists>d w. pending evs d w \<and> D = drops (type_case d) \<and>
        tracks (turn_end (is_quit (type_case d))) w p)
    | Terminated \<Rightarrow> replied evs \<or> (\<exists>d. pending evs d None)
    | Crashed \<Rightarrow> replied evs \<or> (\<exists>d. pending evs d None)
    | _ \<Rightarrow> replied evs)"

lemma replied_append: "replied xs \<Longrightarrow> replied ys \<Longrightarrow> replied (xs @ ys)"
  by (induction xs rule: replied.induct) auto

lemma pending_Some: "pending evs d (Some a) \<Longrightarrow> replied evs"
  by (auto simp: pending_def intro: replied_append)

lemma pending_Tx: "pending evs d None \<Longrightarrow> pending (evs @ [Tx a]) d (Some a)"
  by (auto simp: pending_def)

lemma pending_ended: "pending evs d w \<Longrightarrow> replied evs \<or> (\<exists>d. pending evs d None)"
  by (cases w) (auto dest: pending_Some)

definition dialogues_ok :: "sys \<Rightarrow> bool" where
  "dialogues_ok s \<longleftrightarrow> (\<forall>i. case actors s i of None \<Rightarrow> events s i = []
     | Some A \<Rightarrow> dialogue (events s i) (a_phase A))"

lemma dialogues_ok_move:
  assumes "dialogues_ok s" "actors s' = (actors s)(i \<mapsto> A)" "\<And>j. j \<noteq> i \<Longrightarrow> events s' j = events s j"
    "dialogue (events s' i) (a_phase A)"
  shows "dialogues_ok s'"
  unfolding dialogues_ok_def
proof
  fix j
  have "case actors s j of None \<Rightarrow> events s j = [] | Some A \<Rightarrow> dialogue (events s j) (a_phase A)"
    using assms(1) unfolding dialogues_ok_def by (rule spec)
  with assms(2-4) show "case actors s' j of None \<Rightarrow> events s' j = []
      | Some A \<Rightarrow> dialogue (events s' j) (a_phase A)" by (cases "j = i") (auto split: option.splits)
qed

lemma dialogues_ok_actor: "dialogues_ok s \<Longrightarrow> actors s i = Some A \<Longrightarrow> dialogue (events s i) (a_phase A)"
  by (simp add: dialogues_ok_def) (metis option.simps(5))

text \<open>The acknowledgment that a call and its answer put on the wire.\<close>

definition sent :: "call \<Rightarrow> answer \<Rightarrow> decision_ack option" where
  "sent c r = (case c of Socket_write a \<Rightarrow> if r = Ret_unit then Some a else None | _ \<Rightarrow> None)"

definition tx :: "decision_ack option \<Rightarrow> io_event list" where
  "tx w = (case w of None \<Rightarrow> [] | Some a \<Rightarrow> [Tx a])"

lemma events_record_call:
  "events (record_call i c r s) j = (if j = i then events s i @ tx (sent c r) else events s j)"
  by (cases c; cases r; simp add: record_call_def log_event_def sent_def tx_def split: bool.splits)

lemma tracks_step:
  assumes "tracks F w (Do c k)" "error_tolerant F" "k r st = (st', p)"
  shows "tracks F (case sent c r of None \<Rightarrow> w | Some a \<Rightarrow> Some a) p"
    and "sent c r \<noteq> None \<Longrightarrow> w = None"
proof -
  have "tracks F (case sent c r of None \<Rightarrow> w | Some a \<Rightarrow> Some a) p \<and> (sent c r \<noteq> None \<longrightarrow> w = None)"
    using assms(1)
  proof (cases rule: tracks.cases)
    case (tracks_write a)
    then have k: "tracks F (Some a) (snd (k Ret_unit st))"
      "r \<noteq> Ret_unit \<Longrightarrow> snd (k r st) = Done (failure r)" by auto
    with tracks_write tracks_failure(1) [OF assms(2)] assms(3) show ?thesis
      by (cases "r = Ret_unit") (auto simp: sent_def)
  next
    case tracks_do
    then have "sent c r = None" by (cases c) (auto simp: sent_def)
    moreover have "tracks F None (snd (k r st))" using tracks_do by auto
    ultimately show ?thesis using tracks_do(1) by (simp add: assms(3))
  qed
  then show "tracks F (case sent c r of None \<Rightarrow> w | Some a \<Rightarrow> Some a) p"
    "sent c r \<noteq> None \<Longrightarrow> w = None" by auto
qed

lemma dialogue_resume:
  assumes "dialogue evs (Handling D (Do c k))" "k r st = (st', p)"
  shows "dialogue (evs @ tx (sent c r)) (Handling D p)"
proof -
  obtain d w where d: "pending evs d w" "D = drops (type_case d)"
    and tr: "tracks (turn_end (is_quit (type_case d))) w (Do c k)"
    using assms(1) by (auto simp: dialogue_def)
  note step = tracks_step [OF tr error_tolerant_ends(2) assms(2)]
  show ?thesis
  proof (cases "sent c r")
    case None
    with step(1) d show ?thesis by (auto simp: dialogue_def tx_def)
  next
    case (Some a)
    with step(2) d(1) have "pending (evs @ [Tx a]) d (Some a)" by (auto intro: pending_Tx)
    with step(1) d(2) Some show ?thesis by (auto simp: dialogue_def tx_def)
  qed
qed

lemma dialogue_done:
  assumes "dialogue evs (Handling D (Done out))"
  shows "dialogue evs Terminated" "dialogue evs Crashed"
    "out = Handled a se False \<Longrightarrow> dialogue evs Reading"
  using assms
  by (auto simp: dialogue_def turn_end_def dest: pending_ended pending_Some elim!: tracks_doneE
      split: if_splits)

lemma dialogue_read:
  "replied evs \<Longrightarrow> actor_turn d st = (st', p) \<Longrightarrow>
     dialogue (evs @ [Rx d]) (Handling (drops (type_case d)) p)"
  using tracks_actor_turn [of d] unfolding dialogue_def pending_def tracks_code_def
  by (auto intro!: exI [of _ d] exI [of _ None]) (metis snd_conv)

lemma dialogue_idle:
  "dialogue evs Starting \<Longrightarrow> dialogue evs Reading"
  "dialogue evs (Connecting p) \<Longrightarrow> dialogue evs Reading"
  "dialogue evs (Connecting p) \<Longrightarrow> dialogue evs Crashed"
  "dialogue evs (Connecting p) \<Longrightarrow> dialogue evs (Connecting p')"
  "dialogue evs Reading \<Longrightarrow> dialogue evs Terminated"
  by (simp_all add: dialogue_def)

lemma dialogues_ok_phase:
  assumes "dialogues_ok s" "actors s i = Some A" "actors s' = (actors s)(i \<mapsto> A')"
    "events s' = events s" "dialogue (events s i) (a_phase A) \<Longrightarrow> dialogue (events s i) (a_phase A')"
  shows "dialogues_ok s'"
  using assms dialogues_ok_actor by (intro dialogues_ok_move [OF assms(1)]) auto

lemmas sys_ops = set_phase_def set_actor_def log_event_def

lemma dialogues_ok_step: "sys_step s s' \<Longrightarrow> dialogues_ok s \<Longrightarrow> dialogues_ok s'"
proof (induction rule: sys_step_with.induct)
  case (read s i A d st' p)
  have "replied (events s i)"
    using dialogues_ok_actor [OF read.prems read.hyps(1)] read.hyps(2)
    by (simp add: dialogue_def)
  from dialogue_read [OF this read.hyps(5)]
  have turn: "dialogue (events s i @ [Rx d]) (Handling (drops (type_case d)) p)" .
  show ?case
    by (rule dialogues_ok_move [OF read.prems, where i = i
          and A = "A\<lparr>a_phase := Handling (drops (type_case d)) p\<rparr>"]) (simp_all add: sys_ops turn)
next
  case (resume s i A D c k r st' p)
  have "dialogue (events s i) (Handling D (Do c k))"
    using dialogues_ok_actor [OF resume.prems resume.hyps(1)] resume.hyps(2) by simp
  from dialogue_resume [OF this resume.hyps(9)]
  have turn: "dialogue (events s i @ tx (sent c r)) (Handling D p)" .
  show ?case
    by (rule dialogues_ok_move [OF resume.prems, where i = i
          and A = "A\<lparr>a_phase := Handling D p\<rparr>"]) (simp_all add: sys_ops events_record_call turn)
next
  case (create s i A D n h q k pid st' p st'' p')
  have "dialogue (events s i) (Handling D (Do (Actor_create n h q) k))"
    using dialogues_ok_actor [OF create.prems create.hyps(1)] create.hyps(2) by simp
  from dialogue_resume [OF this create.hyps(6)]
  have turn: "dialogue (events s i) (Handling D p)" by (simp add: sent_def tx_def)
  have ok: "dialogues_ok (set_phase i A (Handling D p) (s\<lparr>shared := st''\<rparr>))"
    by (rule dialogues_ok_move [OF create.prems, where i = i and A = "A\<lparr>a_phase := Handling D p\<rparr>"])
      (simp_all add: sys_ops turn)
  have "events s pid = []"
    using create.prems create.hyps(5) unfolding dialogues_ok_def by (metis option.simps(4))
  then show ?case
    by (intro dialogues_ok_move [OF ok, where i = pid
          and A = "\<lparr>a_socket = None, a_phase = Connecting p'\<rparr>"])
      (simp_all add: sys_ops dialogue_def)
next
  case (create_error s i A D n h q k x st' p)
  have "dialogue (events s i) (Handling D (Do (Actor_create n h q) k))"
    using dialogues_ok_actor [OF create_error.prems create_error.hyps(1)] create_error.hyps(2) by simp
  from dialogue_resume [OF this create_error.hyps(5)]
  have turn: "dialogue (events s i) (Handling D p)" by (simp add: sent_def tx_def)
  show ?case
    by (rule dialogues_ok_move [OF create_error.prems, where i = i
          and A = "A\<lparr>a_phase := Handling D p\<rparr>"]) (simp_all add: sys_ops turn)
next
  case (deliver s p d b)
  then show ?case by (simp add: dialogues_ok_def cong: option.case_cong)
qed (erule dialogues_ok_phase, assumption, simp add: sys_ops, simp add: sys_ops,
    auto simp: sys_ops intro: dialogue_idle dialogue_done)+

lemma reachable_dialogues_ok: "reachable conns s \<Longrightarrow> dialogues_ok s"
proof (induction rule: reachable.induct)
  case reach_init
  show ?case by (auto simp: dialogues_ok_def init_sys_def dialogue_def split: option.splits)
qed (rule dialogues_ok_step)

text \<open>C4: on every connection the server answers in strict alternation: each decision it reads is
  followed by exactly one acknowledgment before it reads the next, under every schedule; only an
  actor that quits, fails or is still working leaves its last decision without a reply.\<close>

theorem strict_request_reply:
  assumes "reachable conns s" "actors s i = Some A"
  shows "replied (events s i) \<or>
    (\<exists>done d. replied done \<and> events s i = done @ [Rx d] \<and> a_phase A \<noteq> Reading)"
proof -
  have "dialogue (events s i) (a_phase A)"
    using reachable_dialogues_ok [OF assms(1)] assms(2) by (rule dialogues_ok_actor)
  moreover have "pending evs d w \<Longrightarrow> replied evs \<or> (\<exists>done. replied done \<and> evs = done @ [Rx d])"
    for evs d w using pending_Some [of evs d "the w"] by (cases w) (simp_all add: pending_def)
  ultimately show ?thesis by (cases "a_phase A") (fastforce simp: dialogue_def)+
qed

section \<open>Entries outlive everything but their own release\<close>

lemma running_keeps:
  assumes "sys_ok s" "actors s i = Some A" "running (a_phase A) = Some (D, Do c k)"
    "well_typed c r" "s4u_ok c r (shared s)" "k r (shared s) = (st', p)"
  shows "a \<in> D \<or> same_node (shared s) st' a"
proof -
  have "safe D (shared s) (Do c k)" "server_ok (shared s)"
    using assms(1-3) by (simp_all add: sys_ok_def phase_ok_def)
  from safe_resume(2) [OF this assms(4-6)] show ?thesis by (auto simp: preserves_def)
qed

lemma drops_only: "a \<in> drops d \<Longrightarrow> d = KCommRefcountDecrease a"
  by (cases d) (simp_all add: drops_def)

lemma same_node_same: "comms st' = comms st \<Longrightarrow> same_node st st' a"
  by (simp add: same_node_def)

lemma sys_step_keeps:
  "sys_step s s' \<Longrightarrow> sys_ok s \<Longrightarrow> same_node (shared s) (shared s') a \<or>
     (\<exists>i A D p. actors s' i = Some A \<and> a_phase A = Handling D p \<and> a \<in> D)"
proof (induction rule: sys_step_with.induct)
  case (prologue s i A c k r st' p)
  show ?case
    using running_keeps [where c = c and k = k and r = r and st' = st' and p = p and D = "{}"
        and a = a, OF prologue.prems prologue.hyps(1)] prologue.hyps
      by (simp add: sys_ops)
next
  case (read s i A d st' p)
  have "server_ok (shared s)" using read.prems by (simp add: sys_ok_def)
  from safe_actor_turn [OF this preserves_refl, of d None]
  have "a \<in> drops (type_case d) \<or> same_node (shared s) st' a"
    using read.hyps(5) by (auto simp: safe_code_def preserves_def)
  then show ?case by (auto simp: sys_ops)
next
  case (resume s i A D c k r st' p)
  show ?case
    using running_keeps [where c = c and k = k and r = r and st' = st' and p = p and D = D
        and a = a, OF resume.prems resume.hyps(1)] resume.hyps
    by (auto simp: sys_ops)
next
  case (create s i A D n h q k pid st' p st'' p')
  have "st'' = st'" using create.hyps(7) by (auto simp: actor_prologue_def call_int_def)
  moreover have "pid \<noteq> i" using create.hyps(1,5) by auto
  ultimately show ?case
    using running_keeps [where c = "Actor_create n h q" and k = k and r = "Ret_int pid" and st' = st' and p = p and D = D
        and a = a, OF create.prems create.hyps(1)] create.hyps
    by (auto simp: sys_ops well_typed_def call_shape_def s4u_ok_def)
next
  case (create_error s i A D n h q k x st' p)
  show ?case
    using running_keeps [where c = "Actor_create n h q" and k = k and r = "Exn x" and st' = st' and p = p and D = D
        and a = a, OF create_error.prems create_error.hyps(1)] create_error.hyps
    by (auto simp: sys_ops well_typed_def call_shape_def s4u_ok_def)
qed (simp_all add: sys_ops same_node_same)

text \<open>C27: whatever the actors do concurrently, the server's entry of a communication disappears
  only while an actor handles its client's release of that very handle.\<close>

theorem comm_entry_lost:
  assumes "reachable conns s" "sys_step s s'" "comms (shared s) a \<noteq> None" "comms (shared s') a = None"
  shows "\<exists>i d w. pending (events s' i) d w \<and> type_case d = KCommRefcountDecrease a"
proof -
  obtain i A D p where i: "actors s' i = Some A" "a_phase A = Handling D p" "a \<in> D"
    using sys_step_keeps [OF assms(2) reachable_sys_ok [OF assms(1)], of a] assms(3,4)
    by (auto simp: same_node_def)
  have "dialogues_ok s'" using assms(1,2) by (blast intro: reachable_dialogues_ok reach_step)
  from dialogues_ok_actor [OF this i(1)] i(2,3) show ?thesis
    by (auto simp: dialogue_def dest: drops_only)
qed

text \<open>The actors run in mutual exclusion: in every reachable state at most one of them reads or
  writes its socket, waits on a queue or is between two turns.\<close>

theorem reachable_mutual_exclusion:
  assumes "reachable conns s" "actors s i = Some A" "actors s j = Some B"
    "holds_thread (a_phase A)" "holds_thread (a_phase B)"
  shows "i = j"
  using reachable_one_holder [OF assms(1)] assms(2-) unfolding one_holder_def by blast

section \<open>A lone actor\<close>

text \<open>One initial actor with identifier 2 on socket 9, and nobody else: its steps, for examples.\<close>

definition solo :: "sys \<Rightarrow> phase \<Rightarrow> server \<Rightarrow> io_event list \<Rightarrow> bool" where
  "solo s ph st evs \<longleftrightarrow> reachable [(2, 9)] s \<and> actors s = [2 \<mapsto> \<lparr>a_socket = Some 9, a_phase = ph\<rparr>] \<and>
     shared s = st \<and> events s 2 = evs"

lemma solo_facts:
  assumes "solo s ph st evs"
  shows "actors s 2 = Some \<lparr>a_socket = Some 9, a_phase = ph\<rparr>" "exclusive s 2" "drops_allowed s 2 D"
    "shared s = st" "events s 2 = evs" "reachable [(2, 9)] s"
  using assms by (auto simp: solo_def exclusive_def drops_allowed_def split: if_splits)

lemma solo_step:
  assumes "solo s ph st evs" "sys_step s s'"
    "actors s' = (actors s)(2 \<mapsto> \<lparr>a_socket = Some 9, a_phase = ph'\<rparr>)"
  shows "solo s' ph' (shared s') (events s' 2)"
  using assms reach_step by (auto simp: solo_def)

lemma solo_start: "\<exists>s. solo s Reading empty_server []"
proof -
  have "actors (init_sys [(2, 9)]) = [2 \<mapsto> \<lparr>a_socket = Some 9, a_phase = Starting\<rparr>]"
    by (auto simp: init_sys_def)
  then have s: "solo (init_sys [(2, 9)]) Starting empty_server []"
    using reach_init [of "[(2, 9)]"] by (simp add: solo_def) (simp add: init_sys_def)
  have "sys_step (init_sys [(2, 9)])
      (set_phase 2 \<lparr>a_socket = Some 9, a_phase = Starting\<rparr> Reading (init_sys [(2, 9)]))"
    using solo_facts(1,2) [OF s] by (intro sys_step_with.start) simp_all
  from solo_step [OF s this, of Reading] solo_facts(4,5) [OF s] show ?thesis
    by (auto simp: sys_ops)
qed

lemma solo_move:
  assumes s: "solo s ph st evs" and step: "sys_step s s'"
    and s': "actors s' = (actors s)(2 \<mapsto> \<lparr>a_socket = Some 9, a_phase = ph'\<rparr>)" "shared s' = st'"
      "events s' 2 = evs'"
  shows "\<exists>s'. sys_step s s' \<and> solo s' ph' st' evs'"
  using solo_step [OF s step s'(1)] s'(2,3) step by blast

lemma solo_read:
  assumes s: "solo s Reading st evs" and turn: "actor_turn d st = (st', p)"
  shows "\<exists>s'. sys_step s s' \<and> solo s' (Handling (drops (type_case d)) p) st' (evs @ [Rx d])"
proof (rule solo_move [OF s sys_step_with.read])
  show "actor_turn d (shared s) = (st', p)" using turn solo_facts(4) [OF s] by simp
  show "actors s 2 = Some \<lparr>a_socket = Some 9, a_phase = Reading\<rparr>" using s by (rule solo_facts)
qed (use solo_facts [OF s] in \<open>simp_all add: sys_ops\<close>)

lemma solo_resume:
  assumes s: "solo s (Handling D (Do c k)) st evs" and r: "well_typed c r" "s4u_ok c r st"
    "\<And>n h q. c \<noteq> Actor_create n h q" "k r st = (st', p)"
  shows "\<exists>s'. sys_step s s' \<and> solo s' (Handling D p) st' (evs @ tx (sent c r))"
proof (rule solo_move [OF s sys_step_with.resume])
  show "k r (shared s) = (st', p)" using r(4) solo_facts(4) [OF s] by simp
  show "actors s 2 = Some \<lparr>a_socket = Some 9, a_phase = Handling D (Do c k)\<rparr>"
    using s by (rule solo_facts)
qed (use solo_facts [OF s] r in \<open>simp_all add: sys_ops events_record_call\<close>)

lemma solo_next_turn:
  assumes s: "solo s (Handling D (Done (Handled a se False))) st evs"
  shows "\<exists>s'. sys_step s s' \<and> solo s' Reading st evs"
proof (rule solo_move [OF s sys_step_with.next_turn])
  show "actors s 2 = Some \<lparr>a_socket = Some 9, a_phase = Handling D (Done (Handled a se False))\<rparr>"
    using s by (rule solo_facts)
qed (use solo_facts [OF s] in \<open>simp_all add: sys_ops\<close>)

text \<open>A client that starts a reception and releases its handle.\<close>

definition no_think :: "decision_type \<Rightarrow> decision" where
  "no_think t = \<lparr>think_time = Finite 0, type_case = t\<rparr>"

lemmas turn_defs = actor_turn_def bind_code_def send_reply_def handle_decision_def no_think_def
  call_unit_def call_addr_def finish_def handle_mailbox_get_async_def new_cell_def store_new_comm_def
  handle_comm_refcount_decrease_def

lemma solo_run_get_async:
  "\<exists>s st. solo s Reading st [Rx (no_think (KMailboxGetAsync m)),
      Tx (ack_ok\<lparr>ack_data := A_mailboxGetAsync 5\<rparr>)] \<and> comms st 5 \<noteq> None \<and> comm_count st 5 = Some 1"
proof -
  obtain s0 where s0: "solo s0 Reading empty_server []" using solo_start by blast
  have "\<exists>st1 k1 st2 k2. actor_turn (no_think (KMailboxGetAsync m)) empty_server =
      (st1, Do (Mailbox_get_async m 0) k1) \<and> comms st1 5 = None \<and>
      k1 (Ret_addr 5) st1 = (st2, Do (Socket_write (ack_ok\<lparr>ack_data := A_mailboxGetAsync 5\<rparr>)) k2) \<and>
      k2 Ret_unit st2 = (st2, Done (Handled (ack_ok\<lparr>ack_data := A_mailboxGetAsync 5\<rparr>) False False)) \<and>
      comm_count st2 5 = Some 1"
    by (simp add: turn_defs split_beta empty_server_def comm_register_def add_ref_def)
  then obtain st1 k1 st2 k2 where turn: "actor_turn (no_think (KMailboxGetAsync m)) empty_server =
      (st1, Do (Mailbox_get_async m 0) k1)" "comms st1 5 = None"
    and k: "k1 (Ret_addr 5) st1 = (st2, Do (Socket_write (ack_ok\<lparr>ack_data := A_mailboxGetAsync 5\<rparr>)) k2)"
      "k2 Ret_unit st2 = (st2, Done (Handled (ack_ok\<lparr>ack_data := A_mailboxGetAsync 5\<rparr>) False False))"
      "comm_count st2 5 = Some 1" by blast
  obtain s1 where s1: "solo s1 (Handling {} (Do (Mailbox_get_async m 0) k1)) st1
      [Rx (no_think (KMailboxGetAsync m))]"
    using solo_read [OF s0 turn(1)] by (auto simp: drops_def no_think_def)
  obtain s2 where s2: "solo s2 (Handling {} (Do (Socket_write (ack_ok\<lparr>ack_data := A_mailboxGetAsync 5\<rparr>)) k2))
      st2 [Rx (no_think (KMailboxGetAsync m))]"
    using solo_resume [OF s1 _ _ _ k(1)] turn(2)
    by (auto simp: well_typed_def call_shape_def s4u_ok_def sent_def tx_def)
  obtain s3 where s3: "solo s3 (Handling {} (Done (Handled (ack_ok\<lparr>ack_data := A_mailboxGetAsync 5\<rparr>)
      False False))) st2 [Rx (no_think (KMailboxGetAsync m)), Tx (ack_ok\<lparr>ack_data := A_mailboxGetAsync 5\<rparr>)]"
    using solo_resume [OF s2 _ _ _ k(2)]
    by (auto simp: well_typed_def call_shape_def s4u_ok_def sent_def tx_def)
  from solo_next_turn [OF this] k(3) show ?thesis by auto
qed

lemma solo_run_release:
  "\<exists>s s' s'' p out evs. solo s Reading (shared s) evs \<and> sys_step s s' \<and> comms (shared s) 5 \<noteq> None \<and>
     comms (shared s') 5 = None \<and> solo s' (Handling {5} p) (shared s') (evs @ [Rx (no_think (KCommRefcountDecrease 5))]) \<and>
     solo s'' (Handling {5} (Done out)) (shared s') (evs @ [Rx (no_think (KCommRefcountDecrease 5)), Tx ack_ok])"
proof -
  obtain s st evs where s: "solo s Reading st evs" "comms st 5 \<noteq> None" "comm_count st 5 = Some 1"
    using solo_run_get_async by blast
  then obtain e where e: "comms st 5 = Some e" "rc_comm_count e = 1" by auto
  have "\<exists>st1 k1. actor_turn (no_think (KCommRefcountDecrease 5)) st = (st1, Do (Socket_write ack_ok) k1) \<and>
      comms st1 5 = None \<and> k1 Ret_unit st1 = (st1, Done (Handled ack_ok False False))"
    using e by (simp add: turn_defs split_beta comm_refcount_decrease_def ack_ok_def)
  then obtain st1 k1 where turn: "actor_turn (no_think (KCommRefcountDecrease 5)) st =
      (st1, Do (Socket_write ack_ok) k1)" "comms st1 5 = None"
    "k1 Ret_unit st1 = (st1, Done (Handled ack_ok False False))" by blast
  obtain s1 where s1: "sys_step s s1" "solo s1 (Handling {5} (Do (Socket_write ack_ok) k1)) st1
      (evs @ [Rx (no_think (KCommRefcountDecrease 5))])"
    using solo_read [OF s(1) turn(1)] by (auto simp: drops_def no_think_def)
  obtain s2 where s2: "solo s2 (Handling {5} (Done (Handled ack_ok False False))) st1
      (evs @ [Rx (no_think (KCommRefcountDecrease 5)), Tx ack_ok])"
    using solo_resume [OF s1(2) _ _ _ turn(3)]
    by (auto simp: well_typed_def call_shape_def s4u_ok_def sent_def tx_def)
  have "shared s = st" "shared s1 = st1" using s(1) s1(2) by (simp_all add: solo_def)
  with s s1 s2 turn(2) show ?thesis by blast
qed


theorem strict_request_reply_witness:
  "\<exists>s A d a. reachable [(2, 9)] s \<and> actors s 2 = Some A \<and> a_phase A = Reading \<and>
     events s 2 = [Rx d, Tx a] \<and> replied (events s 2)"
proof -
  obtain s st d a where s: "solo s Reading st [Rx d, Tx a]" using solo_run_get_async by blast
  from strict_request_reply [OF solo_facts(6) [OF s] solo_facts(1) [OF s]] solo_facts [OF s]
  show ?thesis by auto
qed

theorem comm_entry_lost_witness:
  "\<exists>s s'. reachable [(2, 9)] s \<and> sys_step s s' \<and> comms (shared s) 5 \<noteq> None \<and>
     comms (shared s') 5 = None \<and>
     (\<exists>i d w. pending (events s' i) d w \<and> type_case d = KCommRefcountDecrease 5)"
proof -
  obtain s s' evs where s: "solo s Reading (shared s) evs" "sys_step s s'" "comms (shared s) 5 \<noteq> None"
    "comms (shared s') 5 = None" using solo_run_release by blast
  from comm_entry_lost [OF solo_facts(6) [OF s(1)] s(2-4)] s solo_facts(6) [OF s(1)]
  show ?thesis by blast
qed

theorem reachable_mutual_exclusion_witness:
  "\<exists>s A. reachable [(2, 9)] s \<and> actors s 2 = Some A \<and> holds_thread (a_phase A) \<and>
     (\<forall>j B. actors s j = Some B \<and> holds_thread (a_phase B) \<longrightarrow> 2 = j)"
proof -
  obtain s where s: "solo s Reading empty_server []" using solo_start by blast
  from reachable_mutual_exclusion [OF solo_facts(6) [OF s] solo_facts(1) [OF s]]
    solo_facts(1,6) [OF s] show ?thesis by (metis holds_thread.simps(3) actor.select_convs(2))
qed

end
