(* ===== verification/Handler_Facts.thy ===== *)
theory Handler_Facts
  imports Actor_Loop
begin

text \<open>
  What the handling of a decision does: the tables of handles against their specification as
  sets, the answers to unknown handles, the way of a message through a mailbox, the creation of
  an actor, and the points where the code departs from what its interface announces.
\<close>

lemmas run_defs = run_code_def call_defs find_or_fail_def

section \<open>Handles\<close>

lemma balanced_empty:
  "comm_table.balanced empty_server" "mutex_table.balanced empty_server" "cv_table.balanced empty_server"
  using server_ok_empty by (simp_all add: server_ok_def tables_ok_def)

lemma counts_empty: "comms empty_server = Map.empty" "mutexes empty_server = Map.empty"
  "condition_variables empty_server = Map.empty"
  by (simp_all add: empty_server_def)

lemma dom_map_option: "dom (\<lambda>a. map_option f (m a)) = dom m"
  by auto

text \<open>C19: the server's three reference-counted tables implement sets of live handles. Under any
  sequence of creations (each at an address that is not live) and releases, the acknowledgments
  say success exactly for the handles that are live, the entries are exactly those of the live
  handles, and the server holds exactly one reference on the object of each live handle and none
  on any other.\<close>

theorem tables_implement_handle_sets:
  assumes "creates_fresh ops {}" "creates_fresh mops {}" "creates_fresh cops {}"
  shows "(case table_run comm_register comm_refcount_decrease ops empty_server of (bs, st) \<Rightarrow>
       (bs, dom (comms st)) = handles_run ops {} \<and>
       (\<forall>a. refs st (Comm_object a) = (if a \<in> dom (comms st) then 1 else 0))) \<and>
     (case table_run mutex_register mutex_refcount_decrease mops empty_server of (bs, st) \<Rightarrow>
       (bs, dom (mutexes st)) = handles_run mops {} \<and>
       (\<forall>a. refs st (Mutex_object a) = (if a \<in> dom (mutexes st) then 1 else 0))) \<and>
     (case table_run cv_register cv_refcount_decrease cops empty_server of (bs, st) \<Rightarrow>
       (bs, dom (condition_variables st)) = handles_run cops {} \<and>
       (\<forall>a. refs st (Cv_object a) = (if a \<in> dom (condition_variables st) then 1 else 0)))"
  using comm_table.table_refines_handles [OF balanced_empty(1), of ops]
    mutex_table.table_refines_handles [OF balanced_empty(2), of mops]
    cv_table.table_refines_handles [OF balanced_empty(3), of cops]
    comm_table.table_held [OF balanced_empty(1), of ops]
    mutex_table.table_held [OF balanced_empty(2), of mops]
    cv_table.table_held [OF balanced_empty(3), of cops] assms
  by (simp add: counts_empty dom_map_option split_beta prod_eq_iff)

theorem tables_implement_handle_sets_witness:
  "case table_run comm_register comm_refcount_decrease
      [Create_handle None 7, Drop_handle 7, Drop_handle 7, Create_handle (Some 3) 8] empty_server of
    (bs, st) \<Rightarrow> bs = [True, True, False, True] \<and> dom (comms st) = {8} \<and>
      refs st (Comm_object 8) = 1 \<and> refs st (Comm_object 7) = 0"
proof -
  let ?ops = "[Create_handle None 7, Drop_handle 7, Drop_handle 7, Create_handle (Some 3) 8]"
  have "creates_fresh ?ops {}" "creates_fresh ([] :: unit handle_op list) {}" by simp_all
  from tables_implement_handle_sets [OF this(1,2,2)]
  show ?thesis by (auto simp: split_beta prod_eq_iff)
qed

text \<open>A decision that names a handle the server does not know.\<close>

definition names_unknown :: "server \<Rightarrow> decision_type \<Rightarrow> bool" where
  "names_unknown st d = (case d of
      KCommRefcountDecrease a \<Rightarrow> comms st a = None | KCommWaitFor a t \<Rightarrow> comms st a = None
    | KCommCancel a \<Rightarrow> comms st a = None | KCommTest a \<Rightarrow> comms st a = None
    | KMutexRefcountDecrease a \<Rightarrow> mutexes st a = None | KMutexLock a \<Rightarrow> mutexes st a = None
    | KMutexUnlock a \<Rightarrow> mutexes st a = None
    | KConditionVariableRefcountDecrease c \<Rightarrow> condition_variables st c = None
    | KConditionVariableWait c m \<Rightarrow> condition_variables st c = None \<or> mutexes st m = None
    | KConditionVariableWaitUntil c m t \<Rightarrow> condition_variables st c = None \<or> mutexes st m = None
    | KConditionVariableWaitFor c m t \<Rightarrow> condition_variables st c = None \<or> mutexes st m = None
    | KConditionVariableNotifyOne c \<Rightarrow> condition_variables st c = None
    | KConditionVariableNotifyAll c \<Rightarrow> condition_variables st c = None
    | _ \<Rightarrow> False)"

text \<open>A decision on an unknown communication, mutex or condition variable is answered with a
  failure at once: no call reaches the simulator and nothing changes in the server.\<close>

theorem unknown_handle_rejected:
  assumes "names_unknown st d"
  shows "handle_type d st = (st, Done (Handled ack_ko True False))"
  using assms
  by (cases d) (auto simp: names_unknown_def handler_defs run_defs with_cv_and_lock_def
      handle_comm_refcount_decrease_def handle_mutex_refcount_decrease_def
      handle_cv_refcount_decrease_def comm_refcount_decrease_def mutex_refcount_decrease_def
      cv_refcount_decrease_def ack_ko_def split: option.splits)

theorem unknown_handle_rejected_witness:
  "handle_type (KConditionVariableWait 4 6) empty_server =
     (empty_server, Done (Handled ack_ko True False))"
  by (rule unknown_handle_rejected) (simp add: names_unknown_def empty_server_def)

text \<open>C29: \<^verbatim>\<open>try_lock\<close> looks its mutex up under the address of another field of the decision,
  which is unset and reads 0: as no object has the address 0, the decision fails whatever mutex
  it names, and the simulator's \<^verbatim>\<open>try_lock\<close> is never called.\<close>

theorem try_lock_always_fails:
  assumes "mutexes st 0 = None"
  shows "handle_type (KMutexTryLock a) st = (st, Done (Handled ack_ko True False))"
  using assms by (simp add: handler_defs run_defs mutexunlock_def)

theorem try_lock_always_fails_witness:
  "let st = mutex_register () 7 empty_server in mutexes st 7 \<noteq> None \<and>
     handle_type (KMutexTryLock 7) st = (st, Done (Handled ack_ko True False))"
  unfolding Let_def
proof
  show "mutexes (mutex_register () 7 empty_server) 7 \<noteq> None"
    by (simp add: mutex_register_def new_lock_def add_ref_def empty_server_def)
  show "handle_type (KMutexTryLock 7) (mutex_register () 7 empty_server) =
      (mutex_register () 7 empty_server, Done (Handled ack_ko True False))"
    by (rule try_lock_always_fails)
      (simp add: mutex_register_def new_lock_def add_ref_def empty_server_def)
qed

text \<open>Cancelling a communication asks the simulator to start it: whatever the simulator
  answers, the only call made for the decision is \<^verbatim>\<open>start\<close>, never \<^verbatim>\<open>cancel\<close>.\<close>

theorem cancel_starts_the_comm:
  assumes "comms st a = Some e"
  shows "\<exists>out st' u'. run_code (handle_type (KCommCancel a)) env u st =
     (out, st', u', [Comm_start (rc_comm_obj e)])"
proof -
  obtain r u1 st1 where r: "env (Comm_start (rc_comm_obj e)) u st = (r, u1, st1)"
    by (cases "env (Comm_start (rc_comm_obj e)) u st")
  then show ?thesis
    using assms by (cases r) (simp_all add: handler_defs run_defs)
qed

theorem cancel_starts_the_comm_witness:
  "\<exists>out st' u'. run_code (handle_type (KCommCancel 7)) scripted [Ret_unit]
     (comm_register None 7 empty_server) = (out, st', u', [Comm_start 7])"
  using cancel_starts_the_comm [of "comm_register None 7 empty_server" 7
      "\<lparr>rc_comm_obj = 7, reception_buffer = None, rc_comm_count = 1, rc_comm_node = 0\<rparr>" scripted "[Ret_unit]"]
  by (simp add: comm_register_def add_ref_def empty_server_def)

section \<open>The way of a message\<close>

text \<open>
  One message through a mailbox: the sender's \<^verbatim>\<open>put_async\<close>, the receiver's \<^verbatim>\<open>get_async\<close>,
  the simulator's write of the sender's pointer into the receiver's buffer, the receiver's
  wait.
\<close>

definition exchange :: "string \<Rightarrow> bytes \<Rightarrow> u64 \<Rightarrow> u64 \<Rightarrow> u64 \<Rightarrow> double \<Rightarrow> server \<Rightarrow> outcome \<times> server" where
  "exchange m d z put_addr get_addr t st =
     (case run_code (handle_mailbox_put_async m d z) scripted [Ret_addr put_addr] st of
        (out1, st1, u1, calls1) \<Rightarrow>
      case run_code (handle_mailbox_get_async m) scripted [Ret_addr get_addr] st1 of
        (out2, st2, u2, calls2) \<Rightarrow>
      case (calls1, calls2) of
        ([Mailbox_put_async m1 p z1], [Mailbox_get_async m2 b]) \<Rightarrow>
          (case run_code (handle_comm_wait_for get_addr t) scripted [Ret_unit]
                  (st2\<lparr>cells := (cells st2)(b \<mapsto> Some p)\<rparr>) of
             (out3, st3, u3, calls3) \<Rightarrow> (out3, st3))
      | _ \<Rightarrow> (Ill_typed, st2))"

lemma fresh_beyond:
  assumes "server_ok st" "next_ptr st \<le> p"
  shows "strings st p = None" "cells st p = None"
proof -
  have "heap_ok st" using assms(1) by (simp add: server_ok_def)
  then have "strings st p = Some d \<Longrightarrow> p < next_ptr st" "cells st p = Some x \<Longrightarrow> p < next_ptr st" for d x
    by (simp_all add: heap_ok_def)
  with assms(2) show "strings st p = None" "cells st p = None"
    by (metis not_Some_eq not_le)+
qed

lemma put_async_run:
  assumes "comms st a = None"
  shows "run_code (handle_mailbox_put_async m d z) scripted [Ret_addr a] st =
    (Handled (ack_ok\<lparr>ack_data := A_mailboxPutAsync a\<rparr>) True False,
     comm_register None a (snd (new_string d st)), [], [Mailbox_put_async m (next_ptr st) z])"
  using assms
  by (simp add: run_defs handle_mailbox_put_async_def new_string_def store_new_comm_def)

lemma get_async_run:
  assumes "comms st a = None"
  shows "run_code (handle_mailbox_get_async m) scripted [Ret_addr a] st =
    (Handled (ack_ok\<lparr>ack_data := A_mailboxGetAsync a\<rparr>) True False,
     comm_register (Some (next_ptr st)) a (snd (new_cell st)), [], [Mailbox_get_async m (next_ptr st)])"
  using assms
  by (simp add: run_defs handle_mailbox_get_async_def new_cell_def store_new_comm_def)

lemma wait_run:
  assumes "comms st a = Some e" "reception_buffer e = Some b" "cells st b = Some (Some p)"
    "strings st p = Some d"
  shows "run_code (handle_comm_wait_for a t) scripted [Ret_unit] st =
    (Handled (ack_ok\<lparr>ack_data := A_commWaitFor False d\<rparr>) True False,
     st\<lparr>strings := (strings st)(p := None), cells := (cells st)(b := None),
        comms := (comms st)(a \<mapsto> e\<lparr>reception_buffer := None\<rparr>)\<rparr>, [], [Comm_wait_for (rc_comm_obj e) t])"
  using assms
  by (simp add: run_defs handle_comm_wait_for_def comm_deref_def reply_received_def take_received_def)

lemma comm_register_new:
  "comms st a = None \<Longrightarrow> comm_register buf a st =
     (add_ref (Comm_object a) st)\<lparr>comms := (comms st)(a \<mapsto>
       \<lparr>rc_comm_obj = a, reception_buffer = buf, rc_comm_count = 1, rc_comm_node = next_ptr st\<rparr>),
       next_ptr := Suc (next_ptr st)\<rparr>"
  by (simp add: comm_register_def add_ref_def)

text \<open>C16: a message sent through a mailbox arrives unchanged: the receiver's wait is answered with
  exactly the bytes the sender's decision carried, and both the payload string and the reception
  buffer are freed: the heap of strings and buffers is the one before the exchange.\<close>

theorem message_arrives_unchanged:
  assumes "server_ok st" "comms st put_addr = None" "comms st get_addr = None" "put_addr \<noteq> get_addr"
  shows "\<exists>st'. exchange m d z put_addr get_addr t st =
       (Handled (ack_ok\<lparr>ack_data := A_commWaitFor False d\<rparr>) True False, st') \<and>
     strings st' = strings st \<and> cells st' = cells st \<and>
     comm_count st' put_addr = Some 1 \<and> comm_count st' get_addr = Some 1"
proof -
  let ?p = "next_ptr st" and ?b = "Suc (Suc (next_ptr st))"
  let ?st1 = "comm_register None put_addr (snd (new_string d st))"
  let ?st2 = "comm_register (Some ?b) get_addr (snd (new_cell ?st1))"
  let ?st3 = "?st2\<lparr>cells := (cells ?st2)(?b \<mapsto> Some ?p)\<rparr>"
  let ?e = "\<lparr>rc_comm_obj = get_addr, reception_buffer = Some ?b, rc_comm_count = 1,
     rc_comm_node = Suc ?b\<rparr>"
  have st1: "comms ?st1 get_addr = None" "next_ptr ?st1 = ?b" "comm_count ?st1 put_addr = Some 1"
    "strings ?st1 = (strings st)(?p \<mapsto> d)" "cells ?st1 = cells st"
    using assms(2-4) by (simp_all add: new_string_def comm_register_new add_ref_def)
  have st2: "comms ?st2 = (comms ?st1)(get_addr \<mapsto> ?e)" "strings ?st2 = strings ?st1"
    "cells ?st2 = (cells ?st1)(?b \<mapsto> None)"
    using st1(1,2) by (simp_all add: new_cell_def comm_register_new add_ref_def)
  have fresh: "strings st ?p = None" "cells st ?b = None"
    using fresh_beyond [OF assms(1)] by simp_all
  have wait: "run_code (handle_comm_wait_for get_addr t) scripted [Ret_unit] ?st3 =
      (Handled (ack_ok\<lparr>ack_data := A_commWaitFor False d\<rparr>) True False,
       ?st3\<lparr>strings := (strings ?st3)(?p := None), cells := (cells ?st3)(?b := None),
        comms := (comms ?st3)(get_addr \<mapsto> ?e\<lparr>reception_buffer := None\<rparr>)\<rparr>, [],
       [Comm_wait_for (rc_comm_obj ?e) t])"
    by (rule wait_run) (simp_all add: st1 st2)
  have "exchange m d z put_addr get_addr t st = (Handled (ack_ok\<lparr>ack_data := A_commWaitFor False d\<rparr>) True False,
      ?st3\<lparr>strings := (strings ?st3)(?p := None), cells := (cells ?st3)(?b := None),
        comms := (comms ?st3)(get_addr \<mapsto> ?e\<lparr>reception_buffer := None\<rparr>)\<rparr>)"
    using assms(2) st1(1,2) wait
    by (simp add: exchange_def put_async_run get_async_run new_string_def)
  with assms(4) fresh st1 st2 show ?thesis by (auto simp: fun_eq_iff)
qed

theorem message_arrives_unchanged_witness:
  "\<exists>st'. exchange ''mb'' [1, 2, 255] 1000 7 8 (Finite 5) empty_server =
     (Handled (ack_ok\<lparr>ack_data := A_commWaitFor False [1, 2, 255]\<rparr>) True False, st') \<and>
     strings st' = Map.empty"
proof -
  from message_arrives_unchanged [OF server_ok_empty, of 7 8 "''mb''" "[1, 2, 255]" 1000 "Finite 5"]
  show ?thesis by (auto simp: empty_server_def)
qed

text \<open>A reception is transferred once: the first successful wait answers with the message and
  frees it, and a second wait on the same communication succeeds with no data.\<close>

theorem reception_transferred_once:
  assumes "comms st a = Some e" "reception_buffer e = Some b" "cells st b = Some (Some p)"
    "strings st p = Some d"
  shows "\<exists>st1. run_code (handle_comm_wait_for a t) scripted [Ret_unit] st =
       (Handled (ack_ok\<lparr>ack_data := A_commWaitFor False d\<rparr>) True False, st1, [],
        [Comm_wait_for (rc_comm_obj e) t]) \<and>
     strings st1 p = None \<and> cells st1 b = None \<and>
     run_code (handle_comm_wait_for a t) scripted [Ret_unit] st1 =
       (Handled (ack_ok\<lparr>ack_data := A_commWaitFor False []\<rparr>) True False, st1, [],
        [Comm_wait_for (rc_comm_obj e) t])"
  using wait_run [OF assms] assms
  by (simp add: run_defs handle_comm_wait_for_def comm_deref_def reply_received_def take_received_def)

theorem reception_transferred_once_witness:
  "\<exists>st st1. run_code (handle_comm_wait_for 7 (Finite 1)) scripted [Ret_unit] st =
       (Handled (ack_ok\<lparr>ack_data := A_commWaitFor False [42]\<rparr>) True False, st1, [],
        [Comm_wait_for 7 (Finite 1)]) \<and>
     run_code (handle_comm_wait_for 7 (Finite 1)) scripted [Ret_unit] st1 =
       (Handled (ack_ok\<lparr>ack_data := A_commWaitFor False []\<rparr>) True False, st1, [],
        [Comm_wait_for 7 (Finite 1)])"
proof -
  let ?e = "\<lparr>rc_comm_obj = 7, reception_buffer = Some 1, rc_comm_count = 1, rc_comm_node = 2\<rparr>"
  let ?st = "empty_server\<lparr>comms := [7 \<mapsto> ?e], cells := [1 \<mapsto> Some 0], strings := [0 \<mapsto> [42]],
      next_ptr := 3\<rparr>"
  have "comms ?st 7 = Some ?e" "reception_buffer ?e = Some 1" "cells ?st 1 = Some (Some 0)"
    "strings ?st 0 = Some [42]" by simp_all
  from reception_transferred_once [OF this, of "Finite 1"] show ?thesis by auto
qed

text \<open>An environment in which the handle is released while the simulator works.\<close>

definition release_meanwhile :: "u64 \<Rightarrow> unit env" where
  "release_meanwhile a c u st = (Ret_unit, u, snd (comm_refcount_decrease a st))"

text \<open>The handler keeps an iterator across the blocking wait. When the entry is erased in the
  meantime (another client thread releases the handle), the wait ends in undefined behaviour: the
  discipline of the clients, not the server, excludes it.\<close>

theorem wait_uses_a_dangling_iterator:
  assumes "comm_count st a = Some 1"
  shows "fst (run_code (handle_comm_wait_for a t) (release_meanwhile a) () st) =
     Undefined Dangling_iterator"
  using assms
  by (auto simp: run_defs handle_comm_wait_for_def release_meanwhile_def comm_refcount_decrease_def
      comm_deref_def release_def)

theorem wait_uses_a_dangling_iterator_witness:
  "fst (run_code (handle_comm_wait_for 7 (Finite 1)) (release_meanwhile 7) ()
     (comm_register None 7 empty_server)) = Undefined Dangling_iterator"
  by (rule wait_uses_a_dangling_iterator)
    (simp add: comm_register_def add_ref_def empty_server_def)

text \<open>Releasing the handle of a reception that has not been waited for leaks: the reception
  buffer, and the message if it has arrived, stay allocated, and no entry refers to them.\<close>

theorem released_reception_leaks:
  assumes "server_ok st" "comms st a = Some e" "reception_buffer e = Some b"
  shows "case run_code (handle_type (KCommRefcountDecrease a)) scripted [] st of (out, st', u, calls) \<Rightarrow>
     out = Handled ack_ok True False \<and> cells st' = cells st \<and> strings st' = strings st \<and>
     cells st' b \<noteq> None \<and> \<not> attached st' b"
proof -
  have one: "rc_comm_count e = 1" using comm_entry(2) [OF assms(1,2)] .
  have cell: "cells st b \<noteq> None" using assms unfolding server_ok_def buffers_ok_def by blast
  have free: "\<not> attached (st'\<lparr>comms := (comms st)(a := None)\<rparr>) b" for st'
    using assms unfolding server_ok_def buffers_ok_def attached_def by (auto split: if_splits)
  show ?thesis
    using one assms(2) cell free [of "release (Comm_object (rc_comm_obj e)) st"]
    by (simp add: run_defs handle_comm_refcount_decrease_def comm_refcount_decrease_def ack_ok_def)
      (simp add: release_def)
qed

theorem released_reception_leaks_witness:
  "case run_code (handle_mailbox_get_async ''m'') scripted [Ret_addr 7] empty_server of (out, st, u, calls) \<Rightarrow>
   case run_code (handle_type (KCommRefcountDecrease 7)) scripted [] st of (out', st', u', calls') \<Rightarrow>
     comms st' = Map.empty \<and> cells st' 0 \<noteq> None \<and> \<not> attached st' 0"
proof -
  let ?st = "comm_register (Some 0) 7 (snd (new_cell empty_server))"
  let ?e = "\<lparr>rc_comm_obj = 7, reception_buffer = Some 0, rc_comm_count = 1, rc_comm_node = 1\<rparr>"
  have ok: "server_ok ?st"
  proof (rule server_ok_comm_register [OF server_ok_new_cell [OF server_ok_empty]])
    show "comms (snd (new_cell empty_server)) 7 = None" by (simp add: new_cell_def empty_server_def)
  qed (auto simp: new_cell_def empty_server_def attached_def)
  have e: "comms ?st = [7 \<mapsto> ?e]"
    by (simp add: comm_register_def new_cell_def add_ref_def empty_server_def)
  have run: "run_code (handle_mailbox_get_async ''m'') scripted [Ret_addr 7] empty_server =
      (Handled (ack_ok\<lparr>ack_data := A_mailboxGetAsync 7\<rparr>) True False, ?st, [], [Mailbox_get_async ''m'' 0])"
    by (subst get_async_run) (simp_all add: empty_server_def)
  obtain out st' u calls where release: "run_code (handle_type (KCommRefcountDecrease 7)) scripted [] ?st =
      (out, st', u, calls)" by (metis prod.exhaust)
  have "comms st' = Map.empty"
    using release e by (auto simp: run_defs handle_comm_refcount_decrease_def comm_refcount_decrease_def
        release_def)
  with released_reception_leaks [OF ok, of 7 ?e 0] e release show ?thesis
    by (auto simp: run simp del: handle_type.simps)
qed

section \<open>Turns\<close>

text \<open>When a turn of an actor's loop ends normally, exactly the acknowledgment of its decision
  has been written to the client's socket, once, whatever the decision, the state and the answers
  of the simulator; a client that quits gets none and is the only one that leaves the loop.\<close>

theorem turn_replies_once:
  assumes "run_code (actor_turn d) env u st = (Handled a s q, st', u', calls)"
  shows "q = is_quit (type_case d) \<and> writes calls = (if q then [] else [Socket_write a])"
  using actor_turn_writes [OF assms] by simp

theorem turn_replies_once_witness:
  "case run_code (actor_turn \<lparr>think_time = Finite 2, type_case = KMailboxPutAsync ''m'' [7] 1\<rparr>) scripted
      [Ret_unit, Ret_addr 5, Ret_unit] empty_server of
    (out, st, u, calls) \<Rightarrow> out = Handled (ack_ok\<lparr>ack_data := A_mailboxPutAsync 5\<rparr>) False False \<and>
      length calls = 3 \<and> writes calls = [Socket_write (ack_ok\<lparr>ack_data := A_mailboxPutAsync 5\<rparr>)]"
proof -
  have "\<exists>st' calls. run_code (actor_turn \<lparr>think_time = Finite 2, type_case = KMailboxPutAsync ''m'' [7] 1\<rparr>)
      scripted [Ret_unit, Ret_addr 5, Ret_unit] empty_server =
      (Handled (ack_ok\<lparr>ack_data := A_mailboxPutAsync 5\<rparr>) False False, st', [], calls) \<and> length calls = 3"
    by (simp add: run_defs actor_turn_def bind_code_def send_reply_def handle_decision_def
        handle_mailbox_put_async_def new_string_def store_new_comm_def empty_server_def)
  then obtain st' calls where run: "run_code (actor_turn \<lparr>think_time = Finite 2, type_case =
      KMailboxPutAsync ''m'' [7] 1\<rparr>) scripted [Ret_unit, Ret_addr 5, Ret_unit] empty_server =
      (Handled (ack_ok\<lparr>ack_data := A_mailboxPutAsync 5\<rparr>) False False, st', [], calls)"
    "length calls = 3" by blast
  with turn_replies_once [OF run(1)] show ?thesis by (simp add: is_quit_def)
qed

text \<open>The client's thinking time comes first: a negative time or NaN fails before anything
  else happens; a positive one is slept before the decision is looked at; with none the decision
  is handled at once.\<close>

theorem thinking_comes_first:
  "handle_decision d st =
     (if think_time d = Finite 0 then handle_type (type_case d) st
      else case think_time d of
          Plus_infinity \<Rightarrow> call_unit (Sleep_for Plus_infinity) (handle_type (type_case d)) st
        | Finite q \<Rightarrow> if 0 < q then call_unit (Sleep_for (Finite q)) (handle_type (type_case d)) st
                    else (st, Done (Threw ''Invalid actor thinking time received (%g)''))
        | _ \<Rightarrow> (st, Done (Threw ''Invalid actor thinking time received (%g)'')))"
  by (cases "think_time d") (auto simp: handle_decision_def throw_def)

section \<open>The creation of an actor\<close>

text \<open>An actor is created in this order: the host is looked up, the simulator creates the
  actor, the command thread is told of it with two new queues, its permission is awaited and read,
  and only then the client learns the new actor's identifier. The permission queue is freed; the
  connection queue stays for the new actor.\<close>

theorem actor_creation_order:
  "run_code (handle_actor_create n h) scripted
     [Ret_unit, Ret_int pid, Ret_bool True, Ret_unit, Ret_msg (Some Im_actor_create_ack), Ret_unit] st =
   (let q = next_ptr st; r = Suc q; ack = ack_ok\<lparr>ack_data := A_actorCreate pid\<rparr> in
     (Handled ack False False,
      st\<lparr>queues := insert r (queues st - {q}), next_ptr := Suc r\<rparr>, [],
      [Host_by_name h, Actor_create (c_str n) h r, Queue_push_to_command (Im_actor_create pid q r),
       Queue_wait q, Queue_pop q, Socket_write ack]))"
  by (simp add: run_defs handle_actor_create_def new_queue_def announce_actor_def
      create_acknowledged_def Let_def insert_Diff_if insert_commute)

text \<open>The message that is sent to the command thread and its answer are checked: an answer that
  is no permission, or no answer, ends the creating actor with an error before the client is told
  anything.\<close>

theorem actor_creation_refused:
  assumes "popped = None \<or> (\<exists>m. popped = Some m \<and> message_type m \<noteq> ACTOR_CREATE_ACK)"
  shows "case run_code (handle_actor_create n h) scripted
     [Ret_unit, Ret_int pid, Ret_bool True, Ret_unit, Ret_msg popped] st of (out, st', u, calls) \<Rightarrow>
       (\<exists>e. out = Threw e) \<and> writes calls = []"
  using assms
  by (auto simp: run_defs handle_actor_create_def new_queue_def announce_actor_def
      create_acknowledged_def writes_def)

theorem actor_creation_refused_witness:
  "case run_code (handle_actor_create ''a'' ''h'') scripted [Ret_unit, Ret_int 3, Ret_bool True,
     Ret_unit, Ret_msg (Some (Im_actor_connected 4))] empty_server of (out, st', u, calls) \<Rightarrow>
       (\<exists>e. out = Threw e) \<and> writes calls = []"
  by (rule actor_creation_refused) simp

end
