(* ===== verification/Turn_Queues.thy ===== *)
theory Turn_Queues
  imports Actor_System Handler_Facts
begin

text \<open>
  What an actor does with the inter-thread queues: the creation of an actor, from the two
  queues that it makes to the acknowledgment that tells the client the new identifier, and the
  prologue of the new actor, which waits for its client. Every other turn leaves the queues alone.
\<close>

section \<open>Creating an actor\<close>

text \<open>The identifier that an acknowledgment tells the client.\<close>

definition tells :: "decision_ack \<Rightarrow> int option" where
  "tells ack = (if success ack then (case ack_data ack of A_actorCreate i \<Rightarrow> Some i | _ \<Rightarrow> None) else None)"

definition queue_call :: "call \<Rightarrow> bool" where
  "queue_call c = (case c of
      Queue_push_to_command m \<Rightarrow> True | Queue_wait q \<Rightarrow> True | Queue_pop q \<Rightarrow> True | _ \<Rightarrow> False)"

text \<open>The creator's turn once SimGrid has created the actor \<open>pid\<close>, call by call.\<close>

definition announcing :: "queue \<Rightarrow> queue \<Rightarrow> int \<Rightarrow> prog" where
  "announcing q r pid = snd (bind_code (announce_actor q r pid) send_reply empty_server)"

definition awaiting :: "queue \<Rightarrow> int \<Rightarrow> prog" where
  "awaiting q pid = snd (bind_code (call_unit (Queue_wait q) (call_msg (Queue_pop q) (create_acknowledged pid q)))
     send_reply empty_server)"

definition collecting :: "queue \<Rightarrow> int \<Rightarrow> prog" where
  "collecting q pid = snd (bind_code (call_msg (Queue_pop q) (create_acknowledged pid q)) send_reply empty_server)"

definition report_ack :: "int \<Rightarrow> decision_ack" where
  "report_ack pid = ack_ok\<lparr>ack_data := A_actorCreate pid\<rparr>"

definition reporting :: "int \<Rightarrow> prog" where
  "reporting pid = snd (bind_code (call_unit (Socket_write (report_ack pid)) (finish (report_ack pid) False False))
     send_reply empty_server)"

lemmas creation_defs = announcing_def awaiting_def collecting_def reporting_def bind_code_def

lemma announcing_step:
  "\<exists>k. announcing q r pid = Do (Queue_push_to_command (Im_actor_create pid q r)) k \<and>
     (\<forall>st. k (Ret_bool True) st = (st, awaiting q pid))"
  by (simp add: creation_defs announce_actor_def call_bool_def call_unit_def)

lemma awaiting_step:
  "\<exists>k. awaiting q pid = Do (Queue_wait q) k \<and> (\<forall>st. k Ret_unit st = (st, collecting q pid))"
  by (simp add: creation_defs call_unit_def call_msg_def)

lemma collecting_step:
  "\<exists>k. collecting q pid = Do (Queue_pop q) k \<and>
     (\<forall>st. k (Ret_msg (Some Im_actor_create_ack)) st = (st\<lparr>queues := queues st - {q}\<rparr>, reporting pid))"
  by (simp add: creation_defs call_unit_def call_msg_def create_acknowledged_def report_ack_def Let_def)

lemma reporting_step:
  "\<exists>k. reporting pid = Do (Socket_write (report_ack pid)) k \<and>
     (\<forall>r st. \<exists>out. k r st = (st, Done out))"
proof -
  have "\<exists>out. (case r of
        Ret_unit \<Rightarrow> bind_prog (Done (Handled (report_ack pid) False False)) send_reply st
      | _ \<Rightarrow> send_reply (failure r) st) = (st, Done out)" for r st
    by (cases r) (simp_all add: send_reply_def finish_def)
  then show ?thesis
    by (auto simp: creation_defs call_unit_def finish_def send_reply_def split: answer.splits)
qed

text \<open>Asking SimGrid for the actor, with two new queues.\<close>

definition creates :: "queue \<Rightarrow> queue \<Rightarrow> prog \<Rightarrow> bool" where
  "creates q r p \<longleftrightarrow> (\<exists>n h k. p = Do (Actor_create n h r) k \<and>
     (\<forall>pid st. k (Ret_int pid) st = (st, announcing q r pid)) \<and>
     (\<forall>x st. \<exists>out. k (Exn x) st = (st, Done out)))"

text \<open>A computation that leaves the queues alone, tells no identifier and creates no actor.\<close>

definition calm :: "server \<Rightarrow> server \<Rightarrow> bool" where
  "calm st st' \<longleftrightarrow> queues st' = queues st"

primrec quiet :: "prog \<Rightarrow> bool" where
  "quiet (Done out) \<longleftrightarrow> (\<forall>a q. out = Handled a True q \<longrightarrow> tells a = None)"
| "quiet (Do c k) \<longleftrightarrow> \<not> queue_call c \<and> (\<forall>n h q. c \<noteq> Actor_create n h q) \<and>
     (\<forall>a. c = Socket_write a \<longrightarrow> tells a = None) \<and>
     (\<forall>r st. calm st (fst (k r st)) \<and> snd (map_prod id quiet (k r st)))"

lemma quiet_do: "quiet (Do c k) \<longleftrightarrow> \<not> queue_call c \<and> (\<forall>n h q. c \<noteq> Actor_create n h q) \<and>
     (\<forall>a. c = Socket_write a \<longrightarrow> tells a = None) \<and> (\<forall>r st. calm st (fst (k r st)) \<and> quiet (snd (k r st)))"
  by simp

declare quiet.simps(2) [simp del] quiet_do [simp]

definition quiet_code :: "code \<Rightarrow> bool" where
  "quiet_code m \<longleftrightarrow> (\<forall>st. calm st (fst (m st)) \<and> quiet (snd (m st)))"

text \<open>The turn that creates an actor, before it makes the queues: it may think, and asks for the host.\<close>

definition asks_host :: "prog \<Rightarrow> bool" where
  "asks_host p \<longleftrightarrow> (\<exists>h k. p = Do (Host_by_name h) k \<and> (\<forall>r st.
     (\<exists>out. k r st = (st, Done out)) \<or>
     (queues (fst (k r st)) = insert (Suc (next_ptr st)) (insert (next_ptr st) (queues st)) \<and>
      next_ptr (fst (k r st)) = Suc (Suc (next_ptr st)) \<and>
      creates (next_ptr st) (Suc (next_ptr st)) (snd (k r st)))))"

definition thinks_first :: "prog \<Rightarrow> bool" where
  "thinks_first p \<longleftrightarrow> (\<exists>t k. p = Do (Sleep_for t) k \<and> (\<forall>r st. fst (k r st) = st \<and>
     ((\<exists>out. snd (k r st) = Done out) \<or> asks_host (snd (k r st)))))"

definition plain_turn :: "prog \<Rightarrow> bool" where
  "plain_turn p \<longleftrightarrow> quiet p \<or> asks_host p \<or> thinks_first p"

section \<open>The handlers\<close>

lemma tells_ack [simp]: "tells (ack_ok\<lparr>success := b\<rparr>) = None" "tells ack_ok = None" "tells ack_ko = None"
  "tells (ack_ok\<lparr>ack_data := x\<rparr>) = (case x of A_actorCreate i \<Rightarrow> Some i | _ \<Rightarrow> None)"
  by (simp_all add: tells_def ack_ok_def ack_ko_def decision_ack0_def)

lemma quiet_simple:
  "quiet_code handle_quit" "quiet_code (handle_execute t)" "quiet_code (handle_sleep_for t)"
  "quiet_code (handle_sleep_until t)" "quiet_code handle_yield" "quiet_code (handle_actor_get_name i)"
  "quiet_code (handle_actor_get_host i)" "quiet_code (handle_actor_join i t)" "quiet_code (handle_comm_cancel a)"
  "quiet_code handle_engine_get_clock" "quiet_code (handle_host_by_name_or_null n)" "quiet_code handle_host_current"
  "quiet_code (handle_mailbox_empty n)" "quiet_code (handle_mailbox_listen n)" "quiet_code (handle_mailbox_ready n)"
  "quiet_code handle_mutex_create" "quiet_code (handle_mutex_lock a)" "quiet_code (handle_mutex_unlock a)"
  "quiet_code (handle_mutex_try_lock d)" "quiet_code handle_cv_create" "quiet_code (handle_cv_notify_one a)"
  "quiet_code (handle_cv_notify_all a)"
  by (auto simp: quiet_code_def calm_def handler_defs run_defs queue_call_def on_host_failure_def
      mutex_register_def cv_register_def new_lock_def add_ref_def Let_def
      split: answer.splits option.splits if_splits)

lemma quiet_cv_handlers:
  "quiet_code (handle_cv_wait c m)" "quiet_code (handle_cv_wait_until c m t)" "quiet_code (handle_cv_wait_for c m t)"
  by (auto simp: quiet_code_def calm_def handle_cv_wait_def handle_cv_wait_until_def handle_cv_wait_for_def
      with_cv_and_lock_def run_defs queue_call_def split: answer.splits option.splits prod.splits)

lemma quiet_drop_handlers:
  "quiet_code (handle_comm_refcount_decrease a)" "quiet_code (handle_mutex_refcount_decrease a)"
  "quiet_code (handle_cv_refcount_decrease a)"
  by (auto simp: quiet_code_def calm_def handle_comm_refcount_decrease_def handle_mutex_refcount_decrease_def
      handle_cv_refcount_decrease_def comm_refcount_decrease_def mutex_refcount_decrease_def cv_refcount_decrease_def
      release_def call_defs queue_call_def Let_def split: option.splits)

lemma take_received_queues: "take_received a e st = Inr (d, st') \<Longrightarrow> queues st' = queues st"
  by (auto simp: take_received_def Let_def split: option.splits if_splits)

lemma quiet_received:
  assumes "\<And>d'. tells (ack_ok\<lparr>ack_data := mk d'\<rparr>) = None"
  shows "queues (fst (reply_received a e mk st)) = queues st" "quiet (snd (reply_received a e mk st))"
  using assms take_received_queues [of a e st] by (auto simp: reply_received_def call_defs calm_def queue_call_def split: sum.splits)

lemma quiet_comm_handlers:
  "quiet_code (handle_comm_wait_for a t)" "quiet_code (handle_comm_test a)" "quiet_code (handle_comm_wait_any_for as t)"
  by (auto simp: quiet_code_def calm_def handler_defs run_defs queue_call_def Let_def intro!: quiet_received
      split: answer.splits option.splits if_splits)

lemma quiet_mailbox_handlers:
  "quiet_code (handle_mailbox_put n d z)" "quiet_code (handle_mailbox_put_async n d z)"
  "quiet_code (handle_mailbox_get n)" "quiet_code (handle_mailbox_get_async n)"
  by (auto simp: quiet_code_def calm_def handle_mailbox_put_def handle_mailbox_put_async_def handle_mailbox_get_def
      handle_mailbox_get_async_def deliver_message_def store_new_comm_def new_string_def new_cell_def call_defs
      queue_call_def comm_register_def add_ref_def Let_def split: answer.splits option.splits)

lemma quiet_handle_type: "quiet_code (handle_type d) \<or> (\<exists>n h. d = KActorCreate n h)"
  by (cases d) (simp_all add: quiet_simple quiet_cv_handlers quiet_drop_handlers quiet_comm_handlers quiet_mailbox_handlers,
    simp_all add: quiet_code_def calm_def throw_def)

section \<open>The whole turn\<close>

lemma failure_not_handled [simp]: "failure r \<noteq> Handled a s q"
  by (cases r) simp_all

lemma quiet_send_reply:
  assumes "quiet (Done out)"
  shows "calm st (fst (send_reply out st)) \<and> quiet (snd (send_reply out st))"
  using assms by (cases out) (auto simp: send_reply_def call_defs calm_def queue_call_def split: answer.splits)

lemma quiet_bind:
  "quiet p \<Longrightarrow> calm st (fst (bind_prog p send_reply st)) \<and> quiet (snd (bind_prog p send_reply st))"
proof (induction p arbitrary: st)
  case (Done out)
  then show ?case using quiet_send_reply by simp
next
  case (Do c k)
  have "calm st2 (fst (bind_prog (snd (k r st2)) send_reply (fst (k r st2)))) \<and>
      quiet (snd (bind_prog (snd (k r st2)) send_reply (fst (k r st2))))" for r st2
  proof -
    have "snd (k r st2) \<in> Basic_BNFs.snds (k r st2)" by (cases "k r st2") simp
    from Do.IH [OF rangeI rangeI this, of "fst (k r st2)"] Do.prems show ?thesis by (simp add: calm_def)
  qed
  with Do.prems show ?case by (simp add: split_beta calm_def)
qed

lemma quiet_turn: "quiet_code m \<Longrightarrow> quiet_code (bind_code m send_reply)"
  using quiet_bind by (simp add: quiet_code_def bind_code_def split_beta calm_def)

lemma send_failure [simp]: "send_reply Ill_typed st = (st, Done Ill_typed)" "send_reply (Uncaught x) st = (st, Done (Uncaught x))"
  "send_reply (Threw e) st = (st, Done (Threw e))"
  by (simp_all add: send_reply_def)

lemma handle_actor_create_queues:
  "handle_actor_create n h = call_unit (Host_by_name h) (\<lambda>st.
     call_int (Actor_create (c_str n) h (Suc (next_ptr st))) (announce_actor (next_ptr st) (Suc (next_ptr st)))
       (st\<lparr>queues := insert (Suc (next_ptr st)) (insert (next_ptr st) (queues st)), next_ptr := Suc (Suc (next_ptr st))\<rparr>))"
  by (simp add: handle_actor_create_def new_queue_def Let_def)

lemma create_asks_host:
  "fst (bind_code (handle_actor_create n h) send_reply st) = st"
  "asks_host (snd (bind_code (handle_actor_create n h) send_reply st))"
proof -
  show "fst (bind_code (handle_actor_create n h) send_reply st) = st"
    by (simp add: bind_code_def handle_actor_create_def call_defs)
  have "creates q r (snd (bind_code (call_int (Actor_create m h r) (announce_actor q r)) send_reply st))" for q r m st
    by (auto simp: creates_def bind_code_def call_int_def announcing_def announce_actor_def call_bool_def)
  then show "asks_host (snd (bind_code (handle_actor_create n h) send_reply st))"
    by (auto simp: asks_host_def bind_code_def handle_actor_create_queues call_unit_def call_int_def
        split: answer.splits)
qed

lemma plain_actor_turn: "calm st (fst (actor_turn d st)) \<and> plain_turn (snd (actor_turn d st))"
proof (cases "\<exists>n h. type_case d = KActorCreate n h")
  case False
  then have "quiet_code (handle_type (type_case d))" using quiet_handle_type by blast
  then have "quiet_code (handle_decision d)"
    by (auto simp: quiet_code_def calm_def handle_decision_def call_defs queue_call_def split: answer.splits)
  from quiet_turn [OF this] show ?thesis by (simp add: quiet_code_def plain_turn_def actor_turn_def)
next
  case True
  then obtain n h where d: "type_case d = KActorCreate n h" by blast
  show ?thesis
  proof (cases "double_ge0 (think_time d)")
    case ge: True
    show ?thesis
    proof (cases "double_gt0 (think_time d)")
      case True
      have "thinks_first (snd (actor_turn d st))"
        using create_asks_host [of n h] ge True
        by (auto simp: thinks_first_def actor_turn_def bind_code_def handle_decision_def d call_unit_def split_beta split: answer.splits)
      with ge True show ?thesis by (simp add: plain_turn_def calm_def actor_turn_def bind_code_def handle_decision_def d call_unit_def)
    next
      case False
      with ge create_asks_host [of n h st] show ?thesis
        by (simp add: plain_turn_def calm_def actor_turn_def bind_code_def handle_decision_def d split_beta)
    qed
  next
    case False
    then show ?thesis by (simp add: plain_turn_def calm_def actor_turn_def bind_code_def handle_decision_def throw_def send_reply_def)
  qed
qed

lemma plain_turn_done [simp]: "plain_turn (Done out) \<longleftrightarrow> (\<forall>a q. out = Handled a True q \<longrightarrow> tells a = None)"
  by (auto simp: plain_turn_def asks_host_def thinks_first_def)

lemma plain_turn_do:
  assumes "plain_turn (Do c k)"
  shows "\<not> queue_call c" "c \<noteq> Actor_create n h q" "c = Socket_write a \<Longrightarrow> tells a = None"
    "(calm st (fst (k r st)) \<and> (plain_turn (snd (k r st)) \<or> (\<exists>out. snd (k r st) = Done out))) \<or>
     (queues (fst (k r st)) = insert (Suc (next_ptr st)) (insert (next_ptr st) (queues st)) \<and>
      next_ptr (fst (k r st)) = Suc (Suc (next_ptr st)) \<and>
      creates (next_ptr st) (Suc (next_ptr st)) (snd (k r st)))"
proof -
  from assms consider (quiet) "quiet (Do c k)" | (asks) "asks_host (Do c k)" | (thinks) "thinks_first (Do c k)"
    by (auto simp: plain_turn_def)
  note kinds = this
  have call: "asks_host (Do c k) \<Longrightarrow> \<exists>h. c = Host_by_name h" "thinks_first (Do c k) \<Longrightarrow> \<exists>t. c = Sleep_for t"
    by (simp_all add: asks_host_def thinks_first_def)
  from kinds have "quiet (Do c k) \<or> (\<exists>h. c = Host_by_name h) \<or> (\<exists>t. c = Sleep_for t)" using call by cases blast+
  then show "\<not> queue_call c" "c \<noteq> Actor_create n h q" "c = Socket_write a \<Longrightarrow> tells a = None"
    by (elim disjE exE; simp add: queue_call_def)+
  from kinds show "(calm st (fst (k r st)) \<and> (plain_turn (snd (k r st)) \<or> (\<exists>out. snd (k r st) = Done out))) \<or>
     (queues (fst (k r st)) = insert (Suc (next_ptr st)) (insert (next_ptr st) (queues st)) \<and>
      next_ptr (fst (k r st)) = Suc (Suc (next_ptr st)) \<and>
      creates (next_ptr st) (Suc (next_ptr st)) (snd (k r st)))"
  proof cases
    case quiet
    then show ?thesis by (simp add: plain_turn_def)
  next
    case asks
    then have "(\<exists>out. k r st = (st, Done out)) \<or>
      (queues (fst (k r st)) = insert (Suc (next_ptr st)) (insert (next_ptr st) (queues st)) \<and>
       next_ptr (fst (k r st)) = Suc (Suc (next_ptr st)) \<and>
       creates (next_ptr st) (Suc (next_ptr st)) (snd (k r st)))" by (simp add: asks_host_def)
    then show ?thesis by (elim disjE exE) (simp_all add: calm_def)
  next
    case thinks
    then have "fst (k r st) = st \<and> ((\<exists>out. snd (k r st) = Done out) \<or> asks_host (snd (k r st)))"
      by (simp add: thinks_first_def)
    then show ?thesis by (auto simp add: plain_turn_def calm_def)
  qed
qed

section \<open>The prologue of the new actor\<close>

definition entering0 :: "queue \<Rightarrow> prog" where
  "entering0 r = snd (actor_prologue r empty_server)"

definition entering1 :: "queue \<Rightarrow> prog" where
  "entering1 r = snd (call_unit Yield (call_unit (Queue_wait r) (call_msg (Queue_pop r) (actor_connected r))) empty_server)"

definition entering2 :: "queue \<Rightarrow> prog" where
  "entering2 r = snd (call_unit (Queue_wait r) (call_msg (Queue_pop r) (actor_connected r)) empty_server)"

definition entering3 :: "queue \<Rightarrow> prog" where
  "entering3 r = snd (call_msg (Queue_pop r) (actor_connected r) empty_server)"

lemma entering_steps:
  "actor_prologue r st = (st, entering0 r)"
  "\<exists>k. entering0 r = Do Get_pid k \<and> (\<forall>i st. k (Ret_int i) st = (st, entering1 r))"
  "\<exists>k. entering1 r = Do Yield k \<and> (\<forall>st. k Ret_unit st = (st, entering2 r))"
  "\<exists>k. entering2 r = Do (Queue_wait r) k \<and> (\<forall>st. k Ret_unit st = (st, entering3 r))"
  "\<exists>k. entering3 r = Do (Queue_pop r) k \<and> (\<forall>sk st. k (Ret_msg (Some (Im_actor_connected sk))) st =
     (st\<lparr>queues := queues st - {r}\<rparr>, Done (Handled decision_ack0 False False)))"
  by (simp_all add: entering0_def entering1_def entering2_def entering3_def actor_prologue_def call_defs actor_connected_def)

end
