(* ===== verification/Queue_Channels.thy ===== *)
theory Queue_Channels
  imports Launch Turn_Queues
begin

text \<open>
  The queues between the two threads of the server during the creation of actors. Every actor is in
  a stage of a creation, and every queue belongs to the one stage that reads it; the invariant
  \<open>channels\<close> says for each stage what is in its queues, what is under way to the command thread and what the
  command thread knows. The lemmas show that the actors and the command thread keep it.
\<close>

section \<open>The queues\<close>

text \<open>What the effects of the command thread do to the contents of the queues.\<close>

fun pushes :: "effect list \<Rightarrow> (queue \<Rightarrow> interthread_message list) \<Rightarrow> queue \<Rightarrow> interthread_message list" where
  "pushes [] B = B"
| "pushes (Push q m # es) B = pushes es (B(q := B q @ [m]))"
| "pushes (Start_simulation m # es) B = pushes es B"
| "pushes (Write_ack sk a # es) B = pushes es B"

text \<open>
  The answers of the queues. A push succeeds (the queue allocates), a wait ends when there is a
  message; \<^verbatim>\<open>get_pid\<close> and \<^verbatim>\<open>yield\<close> do not throw.
\<close>

definition answered_by :: "(queue \<Rightarrow> interthread_message list) \<Rightarrow> call \<Rightarrow> answer \<Rightarrow> bool" where
  "answered_by B c r \<longleftrightarrow> (case c of
      Queue_wait q \<Rightarrow> r = Ret_unit \<and> B q \<noteq> []
    | Queue_pop q \<Rightarrow> False
    | Queue_push_to_command m \<Rightarrow> r = Ret_bool True
    | Get_pid \<Rightarrow> (\<exists>i. r = Ret_int i)
    | Yield \<Rightarrow> r = Ret_unit
    | _ \<Rightarrow> True)"

definition popped :: "queue \<Rightarrow> interthread_message option \<Rightarrow> call \<Rightarrow> answer \<Rightarrow> bool" where
  "popped q m c r \<longleftrightarrow> c = Queue_pop q \<and> r = Ret_msg m"

definition pop_box :: "queue \<Rightarrow> (queue \<Rightarrow> interthread_message list) \<Rightarrow>
    interthread_message option \<times> (queue \<Rightarrow> interthread_message list)" where
  "pop_box q B = (case B q of [] \<Rightarrow> (None, B) | m # ms \<Rightarrow> (Some m, B(q := ms)))"

definition at_call :: "call \<Rightarrow> actor \<Rightarrow> bool" where
  "at_call c A \<longleftrightarrow> (\<exists>D k. running (a_phase A) = Some (D, Do c k))"

section \<open>Where an actor is in a creation\<close>

text \<open>
  \<open>Away\<close>: no such actor. A creator goes through \<open>Creating\<close> (its two queues), \<open>Announcing\<close>, \<open>Awaiting\<close>,
  \<open>Collecting\<close> and \<open>Reporting\<close>; the new actor is \<open>Entering\<close> and, when its message is there, \<open>Greeted\<close>.
\<close>

datatype stage =
    Away
  | Plain
  | Creating queue queue
  | Announcing queue queue int
  | Awaiting queue int
  | Collecting queue int
  | Reporting int
  | Entering queue
  | Greeted queue

definition plain_phase :: "phase \<Rightarrow> bool" where
  "plain_phase ph \<longleftrightarrow> (case ph of
      Handling D p \<Rightarrow> plain_turn p \<or> (\<exists>out. p = Done out)
    | Connecting p \<Rightarrow> (\<exists>a se q. p = Done (Handled a se q))
    | _ \<Rightarrow> True)"

fun in_stage :: "stage \<Rightarrow> actor option \<Rightarrow> bool" where
  "in_stage Away X \<longleftrightarrow> X = None"
| "in_stage Plain X \<longleftrightarrow> (\<exists>A. X = Some A \<and> a_socket A \<noteq> None \<and> plain_phase (a_phase A))"
| "in_stage (Creating q r) X \<longleftrightarrow> (\<exists>A D p. X = Some A \<and> a_socket A \<noteq> None \<and> a_phase A = Handling D p \<and> creates q r p)"
| "in_stage (Announcing q r pid) X \<longleftrightarrow>
     (\<exists>A D. X = Some A \<and> a_socket A \<noteq> None \<and> a_phase A = Handling D (announcing q r pid))"
| "in_stage (Awaiting q pid) X \<longleftrightarrow> (\<exists>A D. X = Some A \<and> a_socket A \<noteq> None \<and> a_phase A = Handling D (awaiting q pid))"
| "in_stage (Collecting q pid) X \<longleftrightarrow>
     (\<exists>A D. X = Some A \<and> a_socket A \<noteq> None \<and> a_phase A = Handling D (collecting q pid))"
| "in_stage (Reporting pid) X \<longleftrightarrow> (\<exists>A D. X = Some A \<and> a_socket A \<noteq> None \<and> a_phase A = Handling D (reporting pid))"
| "in_stage (Entering r) X \<longleftrightarrow> (\<exists>A p. X = Some A \<and> a_socket A = None \<and> a_phase A = Connecting p \<and>
     p \<in> {entering0 r, entering1 r, entering2 r})"
| "in_stage (Greeted r) X \<longleftrightarrow> (\<exists>A. X = Some A \<and> a_socket A = None \<and> a_phase A = Connecting (entering3 r))"

text \<open>The queues that only this actor reads, and the actor that only it makes known.\<close>

fun reads :: "stage \<Rightarrow> queue set" where
  "reads (Creating q r) = {q, r}"
| "reads (Announcing q r pid) = {q}"
| "reads (Awaiting q pid) = {q}"
| "reads (Collecting q pid) = {q}"
| "reads (Entering r) = {r}"
| "reads (Greeted r) = {r}"
| "reads _ = {}"

fun makes :: "stage \<Rightarrow> int set" where
  "makes (Announcing q r pid) = {pid}"
| "makes (Awaiting q pid) = {pid}"
| "makes _ = {}"

fun created_ids :: "interthread_message list \<Rightarrow> int list" where
  "created_ids [] = []"
| "created_ids (Im_actor_create i q r # ms) = i # created_ids ms"
| "created_ids (m # ms) = created_ids ms"

text \<open>What the stage of \<open>i\<close> supposes of the boxes, the unread messages and the expected connections.\<close>

abbreviation known :: "connections \<Rightarrow> int \<Rightarrow> bool" where
  "known C i \<equiv> umap_find C i \<noteq> None"

definition greeting :: "connections \<Rightarrow> (queue \<Rightarrow> interthread_message list) \<Rightarrow> int \<Rightarrow> queue \<Rightarrow> bool" where
  "greeting C B i r \<longleftrightarrow> (\<exists>c sk. umap_find C i = Some c \<and> connect_ack c = Some r \<and> conn_socket c = Some sk \<and>
     B r = [Im_actor_connected sk])"

definition stage_ok :: "connections \<Rightarrow> (queue \<Rightarrow> interthread_message list) \<Rightarrow> interthread_message list \<Rightarrow>
    (int \<Rightarrow> stage) \<Rightarrow> int \<Rightarrow> stage \<Rightarrow> bool" where
  "stage_ok C B U \<sigma> i x \<longleftrightarrow> (case x of
      Creating q r \<Rightarrow> q \<noteq> r \<and> B q = [] \<and> B r = []
    | Announcing q r pid \<Rightarrow> B q = [] \<and> \<not> known C pid \<and> \<sigma> pid = Entering r \<and> pid \<notin> set (created_ids U)
    | Awaiting q pid \<Rightarrow> (B q = [] \<and> (\<exists>r. Im_actor_create pid q r \<in> set U)) \<or>
        (B q = [Im_actor_create_ack] \<and> known C pid)
    | Collecting q pid \<Rightarrow> B q = [Im_actor_create_ack] \<and> known C pid
    | Reporting pid \<Rightarrow> known C pid
    | Entering r \<Rightarrow> (\<not> known C i \<and> B r = []) \<or> greeting C B i r \<or>
        (\<exists>c. umap_find C i = Some c \<and> connect_ack c = Some r \<and> conn_socket c = None \<and> B r = [])
    | Greeted r \<Rightarrow> greeting C B i r
    | _ \<Rightarrow> True)"

text \<open>What an unread message supposes.\<close>

definition report_ok :: "connections \<Rightarrow> (int \<Rightarrow> stage) \<Rightarrow> interthread_message \<Rightarrow> bool" where
  "report_ok C \<sigma> m \<longleftrightarrow> (case m of
      Im_actor_create pid q r \<Rightarrow> \<not> known C pid \<and> \<sigma> pid = Entering r \<and> (\<exists>i. \<sigma> i = Awaiting q pid)
    | Im_actor_quit sk \<Rightarrow> True | Im_simulation_finished \<Rightarrow> True
    | Im_simulation_aborted i e \<Rightarrow> True | Im_launch_aborted i h \<Rightarrow> True
    | _ \<Rightarrow> False)"

definition channels :: "(int \<Rightarrow> stage) \<Rightarrow> connections \<Rightarrow> (queue \<Rightarrow> interthread_message list) \<Rightarrow>
    interthread_message list \<Rightarrow> queue set \<Rightarrow> (int \<rightharpoonup> actor) \<Rightarrow> bool" where
  "channels \<sigma> C B U Q acts \<longleftrightarrow>
     (\<forall>i. in_stage (\<sigma> i) (acts i) \<and> reads (\<sigma> i) \<subseteq> Q \<and> stage_ok C B U \<sigma> i (\<sigma> i)) \<and>
     (\<forall>i j. i \<noteq> j \<longrightarrow> reads (\<sigma> i) \<inter> reads (\<sigma> j) = {} \<and> makes (\<sigma> i) \<inter> makes (\<sigma> j) = {}) \<and>
     (\<forall>q. B q \<noteq> [] \<longrightarrow> (\<exists>i. q \<in> reads (\<sigma> i))) \<and>
     (\<forall>m \<in> set U. report_ok C \<sigma> m) \<and> distinct (created_ids U) \<and>
     (\<forall>i c r. umap_find C i = Some c \<and> conn_socket c = None \<and> connect_ack c = Some r \<longrightarrow> \<sigma> i = Entering r) \<and>
     ((\<exists>j. \<sigma> j \<noteq> Away) \<longrightarrow> (\<forall>i. known C i \<longrightarrow> \<sigma> i \<noteq> Away))"

lemma channelsD:
  assumes "channels \<sigma> C B U Q acts"
  shows "in_stage (\<sigma> i) (acts i)" "reads (\<sigma> i) \<subseteq> Q" "stage_ok C B U \<sigma> i (\<sigma> i)"
    "i \<noteq> j \<Longrightarrow> reads (\<sigma> i) \<inter> reads (\<sigma> j) = {}" "i \<noteq> j \<Longrightarrow> makes (\<sigma> i) \<inter> makes (\<sigma> j) = {}"
    "B q \<noteq> [] \<Longrightarrow> \<exists>i. q \<in> reads (\<sigma> i)" "m \<in> set U \<Longrightarrow> report_ok C \<sigma> m" "distinct (created_ids U)"
    "umap_find C i = Some c \<Longrightarrow> conn_socket c = None \<Longrightarrow> connect_ack c = Some r \<Longrightarrow> \<sigma> i = Entering r"
    "\<sigma> j \<noteq> Away \<Longrightarrow> known C i \<Longrightarrow> \<sigma> i \<noteq> Away"
  using assms unfolding channels_def by blast+

lemma created_ids_append [simp]: "created_ids (U @ V) = created_ids U @ created_ids V"
  by (induction U rule: created_ids.induct) simp_all

lemma created_ids_set: "Im_actor_create i q r \<in> set U \<Longrightarrow> i \<in> set (created_ids U)"
  by (induction U rule: created_ids.induct) auto

lemma created_ids_in: "i \<in> set (created_ids U) \<Longrightarrow> \<exists>q r. Im_actor_create i q r \<in> set U"
  by (induction U rule: created_ids.induct) auto

section \<open>One actor moves\<close>

text \<open>
  The actor \<open>i\<close> goes to the stage \<open>x\<close>: it may make new queues, give up its own, change what is in them,
  and send messages about the actor that it makes known.
\<close>

lemma channels_move:
  assumes ch: "channels \<sigma> C B U Q acts" and there: "\<sigma> j0 \<noteq> Away"
    and new: "in_stage x (Some A')" "stage_ok C B' (U @ V) (\<sigma>(i := x)) i x"
      "\<And>j. j \<noteq> i \<Longrightarrow> makes x \<inter> makes (\<sigma> j) = {}"
    and queues: "Q - reads (\<sigma> i) \<subseteq> Q'" "reads x \<subseteq> Q'" "\<And>j. j \<noteq> i \<Longrightarrow> reads x \<inter> reads (\<sigma> j) = {}"
    and box: "\<And>q. q \<notin> reads (\<sigma> i) \<Longrightarrow> B' q = B q" "\<And>q. q \<in> reads (\<sigma> i) - reads x \<Longrightarrow> B' q = []"
    and entered: "\<And>r. \<sigma> i = Entering r \<Longrightarrow>
      x = Entering r \<or> (\<exists>c sk. umap_find C i = Some c \<and> conn_socket c = Some sk)"
    and waited: "\<And>q pid. \<sigma> i = Awaiting q pid \<Longrightarrow> x = Awaiting q pid \<or> known C pid"
    and sent: "\<And>m. m \<in> set V \<Longrightarrow> report_ok C (\<sigma>(i := x)) m" "set (created_ids V) \<subseteq> makes (\<sigma> i)"
      "distinct (created_ids (U @ V))"
  shows "channels (\<sigma>(i := x)) C B' (U @ V) Q' (acts(i \<mapsto> A'))"
proof -
  let ?\<sigma> = "\<sigma>(i := x)"
  note D = channelsD [OF ch]
  have others: "stage_ok C B' (U @ V) ?\<sigma> j (\<sigma> j)" if j: "j \<noteq> i" for j
  proof -
    have b: "B' q = B q" if "q \<in> reads (\<sigma> j)" for q
      using box(1) D(4) [OF j] that by blast
    have ok: "stage_ok C B U \<sigma> j (\<sigma> j)" by (rule D(3))
    show ?thesis
    proof (cases "\<sigma> j")
      case (Announcing q r pid)
      have "\<sigma> pid = Entering r" "\<not> known C pid" "pid \<notin> set (created_ids U)" "B q = []"
        using ok Announcing by (simp_all add: stage_ok_def)
      moreover have "?\<sigma> pid = Entering r"
        using calculation(1,2) entered by (cases "pid = i") auto
      moreover have "pid \<notin> set (created_ids V)" using sent(2) D(5) [OF j] Announcing by auto
      ultimately show ?thesis using Announcing b by (simp add: stage_ok_def)
    next
      case (Awaiting q pid)
      with ok b show ?thesis by (auto simp: stage_ok_def)
    qed (use ok b in \<open>simp_all add: stage_ok_def greeting_def\<close>)
  qed
  have reports: "report_ok C ?\<sigma> m" if "m \<in> set U" for m
  proof -
    have ok: "report_ok C \<sigma> m" using D(7) that .
    show ?thesis
    proof (cases m)
      case (Im_actor_create pid q r)
      with ok obtain k where k: "\<not> known C pid" "\<sigma> pid = Entering r" "\<sigma> k = Awaiting q pid"
        by (auto simp: report_ok_def)
      then have "?\<sigma> pid = Entering r" using entered by (cases "pid = i") auto
      moreover have "?\<sigma> k = Awaiting q pid" using k waited by (cases "k = i") auto
      ultimately show ?thesis using k(1) unfolding Im_actor_create report_ok_def
        by (simp only: interthread_message.case) blast
    qed (use ok in \<open>simp_all add: report_ok_def\<close>)
  qed
  have full: "\<exists>j. q \<in> reads (?\<sigma> j)" if "B' q \<noteq> []" for q
  proof (cases "q \<in> reads (\<sigma> i)")
    case True
    then have "q \<in> reads x" using box(2) that by blast
    then show ?thesis by (intro exI [of _ i]) simp
  next
    case False
    with that box(1) have "B q \<noteq> []" by simp
    then obtain j where "q \<in> reads (\<sigma> j)" using D(6) by blast
    with False show ?thesis by (intro exI [of _ j]) auto
  qed
  have "x \<noteq> Away" using new(1) by auto
  then have all: "known C j \<Longrightarrow> ?\<sigma> j \<noteq> Away" for j using D(10) [OF there] by simp
  have waits: "?\<sigma> j = Entering r" if "umap_find C j = Some c" "conn_socket c = None" "connect_ack c = Some r" for j c r
    using D(9) [OF that] entered that(1,2) by (cases "j = i") auto
  have "in_stage (?\<sigma> j) ((acts(i \<mapsto> A')) j) \<and> reads (?\<sigma> j) \<subseteq> Q' \<and> stage_ok C B' (U @ V) ?\<sigma> j (?\<sigma> j)" for j
    using D(1,2) [of j] new(1,2) queues(1,2) others [of j] D(4) [of j i] by (cases "j = i") auto
  moreover have "reads (?\<sigma> j) \<inter> reads (?\<sigma> k) = {} \<and> makes (?\<sigma> j) \<inter> makes (?\<sigma> k) = {}" if "j \<noteq> k" for j k
    using D(4,5) [OF that] queues(3) [of j] queues(3) [of k] new(3) [of j] new(3) [of k] that by auto
  ultimately show ?thesis
    unfolding channels_def using full reports sent all waits by auto
qed

section \<open>The simulation moves\<close>

text \<open>Which client an actor has, and what the clients have been told.\<close>

definition client :: "connections \<Rightarrow> int \<Rightarrow> socket \<Rightarrow> bool" where
  "client C i sk \<longleftrightarrow> (\<exists>c. umap_find C i = Some c \<and> conn_socket c = Some sk)"

definition told :: "connections \<Rightarrow> (int \<Rightarrow> io_event list) \<Rightarrow> bool" where
  "told C evs \<longleftrightarrow> (\<forall>i a pid. Tx a \<in> set (evs i) \<and> tells a = Some pid \<longrightarrow> known C pid)"

definition linked :: "(int \<Rightarrow> stage) \<Rightarrow> connections \<Rightarrow> (queue \<Rightarrow> interthread_message list) \<Rightarrow> nat \<Rightarrow> sys \<Rightarrow> bool" where
  "linked \<sigma> C B n s \<longleftrightarrow> channels \<sigma> C B (drop n (to_command s)) (queues (shared s)) (actors s) \<and>
     n \<le> length (to_command s) \<and> (\<forall>q \<in> queues (shared s). q < next_ptr (shared s)) \<and>
     (\<forall>i A sk. actors s i = Some A \<and> a_socket A = Some sk \<longrightarrow> client C i sk) \<and> told C (events s)"

lemma linkedD:
  assumes "linked \<sigma> C B n s"
  shows "channels \<sigma> C B (drop n (to_command s)) (queues (shared s)) (actors s)" "n \<le> length (to_command s)"
    "q \<in> queues (shared s) \<Longrightarrow> q < next_ptr (shared s)"
    "actors s i = Some A \<Longrightarrow> a_socket A = Some sk \<Longrightarrow> client C i sk" "told C (events s)"
  using assms unfolding linked_def by blast+

lemma linked_change:
  assumes l: "linked \<sigma> C B n s" and there: "\<sigma> j0 \<noteq> Away"
    and new: "in_stage x (Some A')" "stage_ok C B' (drop n (to_command s) @ V) (\<sigma>(i := x)) i x"
      "\<And>j. j \<noteq> i \<Longrightarrow> makes x \<inter> makes (\<sigma> j) = {}"
    and queues: "queues (shared s) - reads (\<sigma> i) \<subseteq> queues (shared s')" "reads x \<subseteq> queues (shared s')"
      "\<And>j. j \<noteq> i \<Longrightarrow> reads x \<inter> reads (\<sigma> j) = {}"
    and box: "\<And>q. q \<notin> reads (\<sigma> i) \<Longrightarrow> B' q = B q" "\<And>q. q \<in> reads (\<sigma> i) - reads x \<Longrightarrow> B' q = []"
    and entered: "\<And>r. \<sigma> i = Entering r \<Longrightarrow> x = Entering r \<or> (\<exists>sk. client C i sk)"
    and waited: "\<And>q pid. \<sigma> i = Awaiting q pid \<Longrightarrow> x = Awaiting q pid \<or> known C pid"
    and sent: "\<And>m. m \<in> set V \<Longrightarrow> report_ok C (\<sigma>(i := x)) m" "set (created_ids V) \<subseteq> makes (\<sigma> i)"
      "distinct (created_ids (drop n (to_command s) @ V))"
    and s': "actors s' = (actors s)(i \<mapsto> A')" "to_command s' = to_command s @ V" "told C (events s')"
      "\<And>q. q \<in> queues (shared s') \<Longrightarrow> q < next_ptr (shared s')" "\<And>sk. a_socket A' = Some sk \<Longrightarrow> client C i sk"
  shows "linked (\<sigma>(i := x)) C B' n s'"
proof -
  note D = linkedD [OF l]
  have drop: "drop n (to_command s') = drop n (to_command s) @ V" using D(2) s'(2) by simp
  have "channels (\<sigma>(i := x)) C B' (drop n (to_command s) @ V) (queues (shared s')) ((actors s)(i \<mapsto> A'))"
    by (rule channels_move [OF D(1) there new queues box _ waited sent])
      (use entered in \<open>auto simp: client_def\<close>)
  moreover have "n \<le> length (to_command s')" using D(2) s'(2) by simp
  moreover have "client C j sk" if "actors s' j = Some B0" "a_socket B0 = Some sk" for j B0 sk
    using D(4) [of j B0 sk] s'(5) that unfolding s'(1) by (cases "j = i") auto
  ultimately show ?thesis unfolding linked_def drop s'(1) [symmetric] using s'(3,4) by blast
qed

lemma linked_there: "linked \<sigma> C B n s \<Longrightarrow> actors s i = Some A \<Longrightarrow> \<sigma> i \<noteq> Away"
  using channelsD(1) [OF linkedD(1), of \<sigma> C B n s i] by auto

lemmas linked_move = linked_change [where ?j0.0 = i and i = i and \<sigma> = \<sigma> and C = C and B = B and n = n and s = s,
    OF _ linked_there [where i = i and \<sigma> = \<sigma> and C = C and B = B and n = n and s = s]] for \<sigma> C B n s i

definition news :: "interthread_message \<Rightarrow> bool" where
  "news m \<longleftrightarrow> (case m of Im_actor_quit sk \<Rightarrow> True | Im_simulation_finished \<Rightarrow> True
     | Im_simulation_aborted i e \<Rightarrow> True | Im_launch_aborted i h \<Rightarrow> True | _ \<Rightarrow> False)"

lemma created_news: "\<forall>m \<in> set V. news m \<Longrightarrow> created_ids V = []"
  by (induction V rule: created_ids.induct) (auto simp: news_def)

lemma report_news: "news m \<Longrightarrow> report_ok C \<sigma> m"
  by (cases m) (simp_all add: news_def report_ok_def)

text \<open>The actor is, or is again, in no creation.\<close>

lemma linked_plain:
  assumes l: "linked \<sigma> C B n s" and i: "actors s i = Some A"
    and from_stage: "\<sigma> i = Plain \<or> (\<exists>pid. \<sigma> i = Reporting pid) \<or> (\<exists>q r. \<sigma> i = Creating q r)"
    and A': "plain_phase (a_phase A')" "a_socket A' = a_socket A"
    and s': "actors s' = (actors s)(i \<mapsto> A')" "to_command s' = to_command s @ V" "told C (events s')"
      "queues (shared s') = queues (shared s)" "next_ptr (shared s) \<le> next_ptr (shared s')"
    and V: "\<forall>m \<in> set V. news m"
  shows "linked (\<sigma>(i := Plain)) C B n s'"
proof -
  note D = linkedD [OF l]
  note ch = channelsD [OF D(1)]
  have "in_stage (\<sigma> i) (Some A)" using ch(1) [of i] i by simp
  then have sk: "a_socket A \<noteq> None" using from_stage by auto
  have empty: "B q = []" if "q \<in> reads (\<sigma> i) - reads Plain" for q
    using that from_stage ch(3) [of i] by (auto simp: stage_ok_def)
  have "distinct (created_ids (drop n (to_command s) @ V))" using ch(8) created_news [OF V] by simp
  moreover have "q < next_ptr (shared s')" if "q \<in> queues (shared s')" for q
    using that D(3) [of q] s'(4,5) by simp
  moreover have "client C i k" if "a_socket A' = Some k" for k using D(4) [OF i] A'(2) that by simp
  moreover have "in_stage Plain (Some A')" using A' sk by simp
  ultimately show ?thesis
    using V from_stage empty s' report_news created_news [OF V]
    by (intro linked_move [OF l l i, where V = V]) (auto simp: stage_ok_def)
qed

subsection \<open>The stage and the call\<close>

lemma creation_calls:
  "announcing q r pid \<noteq> Done out" "awaiting q pid \<noteq> Done out" "collecting q pid \<noteq> Done out"
  "reporting pid \<noteq> Done out" "\<not> creates q r (Done out)" "entering0 r \<noteq> Done out" "entering1 r \<noteq> Done out"
  "entering2 r \<noteq> Done out" "entering3 r \<noteq> Done out"
  using announcing_step [of q r pid] awaiting_step [of q pid] collecting_step [of q pid] reporting_step [of pid]
    entering_steps [of r] by (auto simp: creates_def)

lemma stage_at_rest:
  assumes "in_stage x (Some A)" "\<And>D c k. running (a_phase A) \<noteq> Some (D, Do c k)"
  shows "x = Plain"
proof -
  have rest: "\<exists>out. p = Done out" if "running (a_phase A) = Some (D, p)" for D p
    using assms(2) that by (cases p) auto
  show ?thesis
  proof (cases x)
    case (Creating q r)
    then obtain D p where "a_phase A = Handling D p" "creates q r p" using assms(1) by auto
    with rest [of D p] show ?thesis by (auto simp: creation_calls)
  next
    case (Announcing q r pid)
    then obtain D where "a_phase A = Handling D (announcing q r pid)" using assms(1) by auto
    with rest [of D] show ?thesis by (auto simp: creation_calls)
  next
    case (Awaiting q pid)
    then obtain D where "a_phase A = Handling D (awaiting q pid)" using assms(1) by auto
    with rest [of D] show ?thesis by (auto simp: creation_calls)
  next
    case (Collecting q pid)
    then obtain D where "a_phase A = Handling D (collecting q pid)" using assms(1) by auto
    with rest [of D] show ?thesis by (auto simp: creation_calls)
  next
    case (Reporting pid)
    then obtain D where "a_phase A = Handling D (reporting pid)" using assms(1) by auto
    with rest [of D] show ?thesis by (auto simp: creation_calls)
  next
    case (Entering r)
    then obtain p where "a_phase A = Connecting p" "p \<in> {entering0 r, entering1 r, entering2 r}" using assms(1) by auto
    with rest [of "{}" p] show ?thesis by (auto simp: creation_calls creation_calls(6-8) [symmetric])
  next
    case (Greeted r)
    then have "a_phase A = Connecting (entering3 r)" using assms(1) by auto
    with rest [of "{}"] show ?thesis by (auto simp: creation_calls)
  qed (use assms(1) in simp_all)
qed

lemma stage_handling:
  assumes "in_stage x (Some A)" "a_phase A = Handling D p"
  shows "(x = Plain \<and> (plain_turn p \<or> (\<exists>out. p = Done out))) \<or> (\<exists>q r. x = Creating q r \<and> creates q r p) \<or>
     (\<exists>q r pid. x = Announcing q r pid \<and> p = announcing q r pid) \<or> (\<exists>q pid. x = Awaiting q pid \<and> p = awaiting q pid) \<or>
     (\<exists>q pid. x = Collecting q pid \<and> p = collecting q pid) \<or> (\<exists>pid. x = Reporting pid \<and> p = reporting pid)"
  using assms by (cases x) (auto simp: plain_phase_def)

lemma stage_connecting:
  assumes "in_stage x (Some A)" "a_phase A = Connecting (Do c k)"
  shows "(\<exists>r. x = Entering r \<and> Do c k \<in> {entering0 r, entering1 r, entering2 r}) \<or> (\<exists>r. x = Greeted r \<and> Do c k = entering3 r)"
  using assms by (cases x) (auto simp: plain_phase_def)

lemma tell_sent:
  assumes "told C (events s)" "\<And>a pid. c = Socket_write a \<Longrightarrow> tells a = Some pid \<Longrightarrow> known C pid"
  shows "told C (events (record_call i c r s))"
  using assms by (cases c; cases r) (auto simp: record_call_def log_event_def told_def split: bool.splits)

lemma to_command_record_call:
  "\<not> queue_call c \<Longrightarrow> to_command (record_call i c r s) = to_command s"
  by (cases c; cases r) (simp_all add: record_call_def log_event_def queue_call_def)

text \<open>A turn goes on.\<close>

lemma linked_resume:
  assumes l: "linked \<sigma> C B n s" and i: "actors s i = Some A" "a_phase A = Handling D (Do c k)"
    and r: "answered_by B c r" "\<And>n h q. c \<noteq> Actor_create n h q" "k r (shared s) = (st', p)"
    and st': "next_ptr (shared s) \<le> next_ptr st'"
    and s': "s' = set_phase i A (Handling D p) (record_call i c r (s\<lparr>shared := st'\<rparr>))"
  shows "\<exists>\<sigma>'. linked \<sigma>' C B n s'"
proof -
  note L = linkedD [OF l]
  note ch = channelsD [OF L(1)]
  let ?A = "A\<lparr>a_phase := Handling D p\<rparr>"
  have acts: "actors s' = (actors s)(i \<mapsto> ?A)" and sh: "shared s' = st'"
    and ev: "events s' = events (record_call i c r (s\<lparr>shared := st'\<rparr>))"
    and com: "to_command s' = to_command (record_call i c r (s\<lparr>shared := st'\<rparr>))"
    unfolding s' by (simp_all add: sys_ops)
  have st: "in_stage (\<sigma> i) (Some A)" using ch(1) [of i] i(1) by simp
  have sk: "a_socket A = Some x \<Longrightarrow> client C i x" for x using L(4) [OF i(1)] .
  have fresh: "q \<notin> reads (\<sigma> j)" if "next_ptr (shared s) \<le> q" for q j
    using ch(2) [of j] L(3) [of q] that by auto
  note stage_handling [OF st i(2)]
  then consider (plain) "\<sigma> i = Plain" "plain_turn (Do c k)"
    | (creating) q r where "creates q r (Do c k)"
    | (announcing) q r pid where "\<sigma> i = Announcing q r pid" "Do c k = announcing q r pid"
    | (awaiting) q pid where "\<sigma> i = Awaiting q pid" "Do c k = awaiting q pid"
    | (collecting) q pid where "Do c k = collecting q pid"
    | (reporting) pid where "\<sigma> i = Reporting pid" "Do c k = reporting pid"
    by auto
  then show ?thesis
  proof cases
    case plain
    note T = plain_turn_do [OF plain(2)]
    have told: "told C (events s')" unfolding ev using T(3) L(5) by (intro tell_sent) auto
    have com': "to_command s' = to_command s @ []"
      unfolding com using T(1) by (simp add: to_command_record_call)
    from T(4) [of "shared s" r] r(3) consider
        (go) "queues st' = queues (shared s)" "plain_turn p \<or> (\<exists>out. p = Done out)"
      | (make) "queues st' = insert (Suc (next_ptr (shared s))) (insert (next_ptr (shared s)) (queues (shared s)))"
          "next_ptr st' = Suc (Suc (next_ptr (shared s)))" "creates (next_ptr (shared s)) (Suc (next_ptr (shared s))) p"
      by (auto simp: calm_def)
    then show ?thesis
    proof cases
      case go
      have "linked (\<sigma>(i := Plain)) C B n s'"
        using plain(1) go st' told com' by (intro linked_plain [OF l i(1) _ _ _ acts com' told]) (auto simp: plain_phase_def sh)
      then show ?thesis by blast
    next
      case make
      let ?q = "next_ptr (shared s)"
      have empty: "B ?q = []" "B (Suc ?q) = []" using fresh [of ?q] fresh [of "Suc ?q"] ch(6) [of ?q] ch(6) [of "Suc ?q"] by auto
      have "linked (\<sigma>(i := Creating ?q (Suc ?q))) C B n s'"
      proof (rule linked_move [OF l l i(1), where V = "[]", OF _ _ _ _ _ _ _ _ _ _ _ _ _ acts com' told])
        show "in_stage (Creating ?q (Suc ?q)) (Some ?A)" using make(3) st plain(1) by auto
        show "reads (Creating ?q (Suc ?q)) \<inter> reads (\<sigma> j) = {}" for j using fresh by simp
        show "q < next_ptr (shared s')" if "q \<in> queues (shared s')" for q
          using that L(3) [of q] make(1,2) by (auto simp: sh)
        show "client C i x" if "a_socket ?A = Some x" for x using sk that by simp
      qed (use plain(1) empty make(1) ch(8) in \<open>auto simp: stage_ok_def sh\<close>)
      then show ?thesis by blast
    qed
  next
    case creating
    then show ?thesis using r(2) by (auto simp: creates_def)
  next
    case (announcing q r' pid)
    obtain k' where k': "c = Queue_push_to_command (Im_actor_create pid q r')" "k (Ret_bool True) (shared s) = (shared s, awaiting q pid)"
      using announcing_step [of q r' pid] announcing(2) by auto
    then have "r = Ret_bool True" using r(1) by (simp add: answered_by_def)
    with k' r(3) have p: "p = awaiting q pid" "st' = shared s" by simp_all
    let ?m = "Im_actor_create pid q r'"
    have com': "to_command s' = to_command s @ [?m]" and told: "told C (events s')"
      using L(5) unfolding com ev k'(1) \<open>r = Ret_bool True\<close> by (simp_all add: record_call_def)
    have ok: "B q = []" "\<not> known C pid" "\<sigma> pid = Entering r'" "pid \<notin> set (created_ids (drop n (to_command s)))"
      using ch(3) [of i] announcing(1) by (simp_all add: stage_ok_def)
    then have "pid \<noteq> i" using announcing(1) by auto
    have "linked (\<sigma>(i := Awaiting q pid)) C B n s'"
    proof (rule linked_move [OF l l i(1), where V = "[?m]", OF _ _ _ _ _ _ _ _ _ _ _ _ _ acts com' told])
      show "in_stage (Awaiting q pid) (Some ?A)" using st announcing(1) p by auto
      show "stage_ok C B (drop n (to_command s) @ [?m]) (\<sigma>(i := Awaiting q pid)) i (Awaiting q pid)"
        using ok by (auto simp: stage_ok_def)
      show "makes (Awaiting q pid) \<inter> makes (\<sigma> j) = {}" if "j \<noteq> i" for j using ch(5) [OF that] announcing(1) by auto
      show "reads (Awaiting q pid) \<inter> reads (\<sigma> j) = {}" if "j \<noteq> i" for j using ch(4) [OF that] announcing(1) by auto
      show "report_ok C (\<sigma>(i := Awaiting q pid)) m" if "m \<in> set [?m]" for m
        using that ok \<open>pid \<noteq> i\<close> by (auto simp: report_ok_def)
      show "reads (Awaiting q pid) \<subseteq> queues (shared s')" using ch(2) [of i] announcing(1) by (simp add: sh p)
    qed (use announcing(1) ok ch(8) L(3) sk in \<open>auto simp: sh p\<close>)
    then show ?thesis by blast
  next
    case (awaiting q pid)
    then have c: "c = Queue_wait q" using awaiting_step [of q pid] by auto
    with r(1) have rr: "r = Ret_unit" "B q \<noteq> []" by (simp_all add: answered_by_def)
    have p: "p = collecting q pid" "st' = shared s" using awaiting_step [of q pid] awaiting(2) r(3) rr(1) by auto
    have com': "to_command s' = to_command s @ []" and told: "told C (events s')"
      using L(5) unfolding com ev c rr(1) by (simp_all add: record_call_def)
    have ok: "B q = [Im_actor_create_ack]" "known C pid" using ch(3) [of i] awaiting(1) rr(2) by (auto simp: stage_ok_def)
    have "linked (\<sigma>(i := Collecting q pid)) C B n s'"
    proof (rule linked_move [OF l l i(1), where V = "[]", OF _ _ _ _ _ _ _ _ _ _ _ _ _ acts com' told])
      show "in_stage (Collecting q pid) (Some ?A)" using st awaiting(1) p by auto
      show "reads (Collecting q pid) \<inter> reads (\<sigma> j) = {}" if "j \<noteq> i" for j using ch(4) [OF that] awaiting(1) by auto
      show "reads (Collecting q pid) \<subseteq> queues (shared s')" using ch(2) [of i] awaiting(1) by (simp add: sh p)
    qed (use awaiting(1) ok ch(8) L(3) sk in \<open>auto simp: sh p stage_ok_def\<close>)
    then show ?thesis by blast
  next
    case (collecting q pid)
    then show ?thesis using r(1) collecting_step [of q pid] by (auto simp: answered_by_def)
  next
    case (reporting pid)
    obtain out where out: "c = Socket_write (report_ack pid)" "p = Done out" "st' = shared s"
      using reporting_step [of pid] reporting(2) r(3) by (metis prod.inject prog.inject(2))
    have kn: "known C pid" using ch(3) [of i] reporting(1) by (simp add: stage_ok_def)
    have told: "told C (events s')"
      unfolding ev using L(5) kn by (intro tell_sent) (auto simp: out(1) report_ack_def)
    have com': "to_command s' = to_command s @ []" unfolding com by (subst to_command_record_call) (simp_all add: out(1) queue_call_def)
    have "linked (\<sigma>(i := Plain)) C B n s'"
      using reporting(1) st' by (intro linked_plain [OF l i(1) _ _ _ acts com' told]) (auto simp: plain_phase_def sh out)
    then show ?thesis by blast
  qed
qed

text \<open>A new actor goes on to wait for its client.\<close>

lemma linked_prologue:
  assumes l: "linked \<sigma> C B n s" and i: "actors s i = Some A" "a_phase A = Connecting (Do c k)"
    and r: "answered_by B c r" "k r (shared s) = (st', p)"
    and s': "s' = set_phase i (A\<lparr>a_socket := next_socket r (a_socket A)\<rparr>) (Connecting p) (s\<lparr>shared := st'\<rparr>)"
  shows "\<exists>\<sigma>'. linked \<sigma>' C B n s'"
proof -
  note L = linkedD [OF l]
  note ch = channelsD [OF L(1)]
  let ?A = "A\<lparr>a_socket := next_socket r (a_socket A), a_phase := Connecting p\<rparr>"
  have acts: "actors s' = (actors s)(i \<mapsto> ?A)" and com: "to_command s' = to_command s @ []"
    and told: "told C (events s')" and sh: "shared s' = st'"
    unfolding s' using L(5) by (simp_all add: sys_ops)
  have st: "in_stage (\<sigma> i) (Some A)" using ch(1) [of i] i(1) by simp
  from stage_connecting [OF st i(2)] obtain x where
      "(\<sigma> i = Entering x \<and> Do c k \<in> {entering0 x, entering1 x, entering2 x}) \<or> Do c k = entering3 x" by blast
  then consider (zero) "\<sigma> i = Entering x" "Do c k = entering0 x" | (one) "\<sigma> i = Entering x" "Do c k = entering1 x"
    | (two) "\<sigma> i = Entering x" "Do c k = entering2 x" | (three) "Do c k = entering3 x" by blast
  then show ?thesis
  proof cases
    case three
    then show ?thesis using r(1) entering_steps(5) [of x] by (auto simp: answered_by_def)
  next
    case two
    then have "c = Queue_wait x" using entering_steps(4) [of x] by auto
    with r(1) have rr: "r = Ret_unit" "B x \<noteq> []" by (simp_all add: answered_by_def)
    have p: "p = entering3 x" "st' = shared s" using entering_steps(4) [of x] two(2) r(2) rr(1) by auto
    have gr: "greeting C B i x" using ch(3) [of i] two(1) rr(2) by (auto simp: stage_ok_def)
    have sk: "a_socket ?A = None" using st two(1) rr(1) by (auto simp: next_socket_def)
    have "linked (\<sigma>(i := Greeted x)) C B n s'"
    proof (rule linked_move [OF l l i(1), where V = "[]", OF _ _ _ _ _ _ _ _ _ _ _ _ _ acts com told])
      show "reads (Greeted x) \<inter> reads (\<sigma> j) = {}" if "j \<noteq> i" for j using ch(4) [OF that] two(1) by auto
      show "reads (Greeted x) \<subseteq> queues (shared s')" using ch(2) [of i] two(1) by (simp add: sh p)
      show "Greeted x = Entering y \<or> (\<exists>sk. client C i sk)" for y using gr by (auto simp: greeting_def client_def)
    qed (use two(1) gr ch(8) L(3) sk in \<open>auto simp: sh p stage_ok_def\<close>)
    then show ?thesis by blast
  next
    case zero
    then have "c = Get_pid" using entering_steps(2) [of x] by auto
    with r(1) obtain i' where rr: "r = Ret_int i'" by (auto simp: answered_by_def)
    have p: "p = entering1 x" "st' = shared s" using entering_steps(2) [of x] zero(2) r(2) rr by auto
    have sk: "a_socket ?A = None" using st zero(1) rr by (auto simp: next_socket_def)
    have "linked (\<sigma>(i := Entering x)) C B n s'"
    proof (rule linked_move [OF l l i(1), where V = "[]", OF _ _ _ _ _ _ _ _ _ _ _ _ _ acts com told])
      show "reads (Entering x) \<inter> reads (\<sigma> j) = {}" if "j \<noteq> i" for j using ch(4) [OF that] zero(1) by auto
      show "reads (Entering x) \<subseteq> queues (shared s')" using ch(2) [of i] zero(1) by (simp add: sh p)
    qed (use zero(1) ch(3) [of i] ch(8) L(3) sk in \<open>auto simp: sh p stage_ok_def\<close>)
    then show ?thesis by blast
  next
    case one
    then have "c = Yield" using entering_steps(3) [of x] by auto
    with r(1) have rr: "r = Ret_unit" by (simp add: answered_by_def)
    have p: "p = entering2 x" "st' = shared s" using entering_steps(3) [of x] one(2) r(2) rr by auto
    have sk: "a_socket ?A = None" using st one(1) rr by (auto simp: next_socket_def)
    have "linked (\<sigma>(i := Entering x)) C B n s'"
    proof (rule linked_move [OF l l i(1), where V = "[]", OF _ _ _ _ _ _ _ _ _ _ _ _ _ acts com told])
      show "reads (Entering x) \<inter> reads (\<sigma> j) = {}" if "j \<noteq> i" for j using ch(4) [OF that] one(1) by auto
      show "reads (Entering x) \<subseteq> queues (shared s')" using ch(2) [of i] one(1) by (simp add: sh p)
    qed (use one(1) ch(3) [of i] ch(8) L(3) sk in \<open>auto simp: sh p stage_ok_def\<close>)
    then show ?thesis by blast
  qed
qed

text \<open>SimGrid creates an actor, in three moves: the creator leaves its queues, the new actor takes its
  own, the creator goes on to announce it.\<close>

lemma linked_birth:
  assumes l: "linked \<sigma> C B n s" and i: "actors s i = Some A" "a_phase A = Handling D (Do (Actor_create m h q') k)"
    and pid: "actors s pid = None" and r: "k (Ret_int pid) (shared s) = (st', p)" "actor_prologue q' st' = (st'', p')"
    and s': "s' = set_actor pid \<lparr>a_socket = None, a_phase = Connecting p'\<rparr>
      (set_phase i A (Handling D p) (s\<lparr>shared := st''\<rparr>))"
  shows "\<exists>\<sigma>'. linked \<sigma>' C B n s'"
proof -
  note L = linkedD [OF l]
  note ch = channelsD [OF L(1)]
  have st: "in_stage (\<sigma> i) (Some A)" using ch(1) [of i] i(1) by simp
  have "\<not> plain_turn (Do (Actor_create m h q') k)" using plain_turn_do(2) [of "Actor_create m h q'" k m h q'] by blast
  with stage_handling [OF st i(2)] announcing_step awaiting_step collecting_step reporting_step
  obtain q r' where cr: "\<sigma> i = Creating q r'" "creates q r' (Do (Actor_create m h q') k)"
    by (metis call.distinct prog.inject(2) prog.distinct(1))
  then have k': "q' = r'" "\<And>st. k (Ret_int pid) st = (st, announcing q r' pid)" by (auto simp: creates_def)
  then have p: "p = announcing q r' pid" "st'' = shared s" "p' = entering0 r'"
    using r entering_steps(1) [of r'] by simp_all
  have ok: "q \<noteq> r'" "B q = []" "B r' = []" using ch(3) [of i] cr(1) by (simp_all add: stage_ok_def)
  have away: "\<sigma> pid = Away" using ch(1) [of pid] pid by (cases "\<sigma> pid") auto
  have unknown: "\<not> known C pid" using ch(10) [of i pid] cr(1) away by (metis stage.distinct(3))
  have mine: "{q, r'} \<subseteq> queues (shared s)" "\<And>j. j \<noteq> i \<Longrightarrow> {q, r'} \<inter> reads (\<sigma> j) = {}"
    using ch(2) [of i] ch(4) [of i] cr(1) by auto
  have unsent: "pid \<notin> set (created_ids (drop n (to_command s)))"
    using ch(7) away by (fastforce dest!: created_ids_in simp: report_ok_def)
  have unmade: "pid \<notin> makes (\<sigma> j)" for j
    using ch(3) [of j] away unknown unsent by (cases "\<sigma> j") (auto simp: stage_ok_def dest: created_ids_set)
  have other: "pid \<noteq> i" using i(1) pid by auto
  let ?s1 = "set_phase i A Reading s"
  let ?N = "\<lparr>a_socket = None, a_phase = Connecting (entering0 r')\<rparr>"
  let ?s2 = "set_actor pid ?N ?s1"
  have "linked (\<sigma>(i := Plain)) C B n ?s1"
    using cr(1) L(5) by (intro linked_plain [OF l i(1), where V = "[]" and A' = "A\<lparr>a_phase := Reading\<rparr>"])
      (simp_all add: plain_phase_def sys_ops)
  then have l2: "linked (\<sigma>(i := Plain, pid := Entering r')) C B n ?s2"
  proof (rule linked_change [where V = "[]" and A' = ?N])
    show "(\<sigma>(i := Plain)) i \<noteq> Away" by simp
    show "reads (Entering r') \<inter> reads ((\<sigma>(i := Plain)) j) = {}" if "j \<noteq> pid" for j
      using mine(2) [of j] by (cases "j = i") auto
    show "queues (shared ?s1) - reads ((\<sigma>(i := Plain)) pid) \<subseteq> queues (shared ?s2)" by (auto simp: sys_ops)
  qed (use other away unknown ok mine L ch(8) in \<open>auto simp: stage_ok_def sys_ops\<close>)
  have "linked (\<sigma>(i := Plain, pid := Entering r', i := Announcing q r' pid)) C B n s'"
  proof (rule linked_change [OF l2, where V = "[]" and A' = "A\<lparr>a_phase := Handling D p\<rparr>"])
    show "(\<sigma>(i := Plain, pid := Entering r')) pid \<noteq> Away" by simp
    show "in_stage (Announcing q r' pid) (Some (A\<lparr>a_phase := Handling D p\<rparr>))" using st cr(1) p(1) by auto
    show "makes (Announcing q r' pid) \<inter> makes ((\<sigma>(i := Plain, pid := Entering r')) j) = {}" if "j \<noteq> i" for j
      using unmade [of j] that by auto
    show "reads (Announcing q r' pid) \<inter> reads ((\<sigma>(i := Plain, pid := Entering r')) j) = {}" if "j \<noteq> i" for j
      using mine(2) [OF that] that ok(1) by auto
    show "actors s' = (actors ?s2)(i \<mapsto> A\<lparr>a_phase := Handling D p\<rparr>)"
      using other by (auto simp: s' sys_ops p fun_eq_iff)
  qed (use other unknown unsent ok mine(1) L ch(8) i(1) in \<open>auto simp: stage_ok_def sys_ops s' p(2)\<close>)
  then show ?thesis by blast
qed

lemma call_next_ptr:
  assumes "sys_ok s" "actors s i = Some A" "running (a_phase A) = Some (D, Do c k)"
    "well_typed c r" "s4u_ok c r (shared s)" "k r (shared s) = (st', p)"
  shows "next_ptr (shared s) \<le> next_ptr st'"
proof -
  have "safe D (shared s) (Do c k)" "server_ok (shared s)"
    using assms(1-3) by (simp_all add: sys_ok_def phase_ok_def)
  from safe_resume(2) [OF this assms(4-6)] show ?thesis by (simp add: preserves_def)
qed

text \<open>An actor between two calls.\<close>

lemma linked_rest:
  assumes l: "linked \<sigma> C B n s" and i: "actors s i = Some A" "\<And>D c k. running (a_phase A) \<noteq> Some (D, Do c k)"
    and ph: "plain_phase ph" and V: "\<forall>m \<in> set V. news m"
  shows "\<exists>\<sigma>'. linked \<sigma>' C B n (set_phase i A ph (s\<lparr>to_command := to_command s @ V\<rparr>))"
proof -
  have "in_stage (\<sigma> i) (Some A)" using channelsD(1) [OF linkedD(1) [OF l], of i] i(1) by simp
  from stage_at_rest [OF this i(2)] have p: "\<sigma> i = Plain" .
  have "linked (\<sigma>(i := Plain)) C B n (set_phase i A ph (s\<lparr>to_command := to_command s @ V\<rparr>))"
    using ph p linkedD(5) [OF l] by (intro linked_plain [OF l i(1) _ _ _ _ _ _ _ _ V]) (simp_all add: sys_ops)
  then show ?thesis by blast
qed

lemma linked_simulate:
  "sys_step_with allowed (answered_by B) s s' \<Longrightarrow> sys_ok s \<Longrightarrow> linked \<sigma> C B n s \<Longrightarrow> \<exists>\<sigma>'. linked \<sigma>' C B n s'"
proof (induction rule: sys_step_with.induct)
  case (start s i A)
  then show ?case using linked_rest [OF start.prems(2) start.hyps(1), of Reading "[]"] by (simp add: plain_phase_def)
next
  case (prologue s i A c k r st' p)
  show ?case by (rule linked_prologue [where k = k and r = r and c = c and st' = st' and p = p, OF prologue.prems(2) prologue.hyps(1,2,6,7) refl])
next
  case (connected s i A a se q)
  then show ?case using linked_rest [OF connected.prems(2) connected.hyps(1), of Reading "[]"] by (simp add: plain_phase_def)
next
  case (not_connected s i A out)
  have st: "in_stage (\<sigma> i) (Some A)" using channelsD(1) [OF linkedD(1) [OF not_connected.prems(2)], of i] not_connected.hyps(1) by simp
  then have "\<sigma> i = Plain" by (rule stage_at_rest) (simp add: not_connected.hyps(2))
  with st not_connected.hyps(2,3) show ?case by (auto simp: plain_phase_def)
next
  case (read s i A d st' p)
  note l = read.prems(2)
  have st: "in_stage (\<sigma> i) (Some A)" using channelsD(1) [OF linkedD(1) [OF l], of i] read.hyps(1) by simp
  then have plain: "\<sigma> i = Plain" by (rule stage_at_rest) (simp add: read.hyps(2))
  have turn: "queues st' = queues (shared s)" "plain_turn p"
    using plain_actor_turn [of "shared s" d] read.hyps(5) by (simp_all add: calm_def)
  have "server_ok (shared s)" using read.prems(1) by (simp add: sys_ok_def)
  from safe_actor_turn [OF this preserves_refl, of d None] have "next_ptr (shared s) \<le> next_ptr st'"
    using read.hyps(5) by (simp add: safe_code_def preserves_def)
  moreover have "told C (events (log_event i (Rx d) (s\<lparr>shared := st'\<rparr>)))"
    using linkedD(5) [OF l] by (simp add: told_def log_event_def)
  ultimately have "linked (\<sigma>(i := Plain)) C B n (set_phase i A (Handling (drops (type_case d)) p)
      (log_event i (Rx d) (s\<lparr>shared := st'\<rparr>)))"
    using plain turn by (intro linked_plain [OF l read.hyps(1), where V = "[]"
        and A' = "A\<lparr>a_phase := Handling (drops (type_case d)) p\<rparr>"]) (simp_all add: sys_ops plain_phase_def)
  then show ?case by blast
next
  case (read_error s i A e)
  then show ?case using linked_rest [OF read_error.prems(2) read_error.hyps(1), of Terminated "[Im_simulation_aborted i e]"]
    by (simp add: plain_phase_def news_def)
next
  case (resume s i A D c k r st' p)
  have "next_ptr (shared s) \<le> next_ptr st'"
    using call_next_ptr [where k = k and r = r and c = c and st' = st' and p = p and D = D, OF resume.prems(1) resume.hyps(1) _ resume.hyps(5,6,9)] resume.hyps(2) by simp
  then show ?case by (rule linked_resume [where k = k and r = r and c = c and st' = st' and p = p and D = D, OF resume.prems(2) resume.hyps(1,2,7,8,9) _ refl])
next
  case (create s i A D m h q k pid st' p st'' p')
  show ?case by (rule linked_birth [where k = k and q' = q and st' = st' and p = p and D = D, OF create.prems(2) create.hyps(1,2,5,6,7) refl])
next
  case (create_error s i A D m h q k x st' p)
  note l = create_error.prems(2)
  have st: "in_stage (\<sigma> i) (Some A)" using channelsD(1) [OF linkedD(1) [OF l], of i] create_error.hyps(1) by simp
  have "\<not> plain_turn (Do (Actor_create m h q) k)" using plain_turn_do(2) [of "Actor_create m h q" k m h q] by blast
  with stage_handling [OF st create_error.hyps(2)] announcing_step awaiting_step collecting_step reporting_step
  obtain q' r' where cr: "\<sigma> i = Creating q' r'" "creates q' r' (Do (Actor_create m h q) k)"
    by (metis call.distinct prog.inject(2) prog.distinct(1))
  then obtain out where out: "p = Done out" "st' = shared s"
    using create_error.hyps(5) unfolding creates_def by (metis prod.inject prog.inject(2))
  have "linked (\<sigma>(i := Plain)) C B n (set_phase i A (Handling D p) (s\<lparr>shared := st'\<rparr>))"
    using cr(1) out linkedD(5) [OF l]
    by (intro linked_plain [OF l create_error.hyps(1), where V = "[]" and A' = "A\<lparr>a_phase := Handling D p\<rparr>"])
      (simp_all add: sys_ops plain_phase_def)
  then show ?case by blast
next
  case (next_turn s i A D a se)
  then show ?case using linked_rest [OF next_turn.prems(2) next_turn.hyps(1), of Reading "[]"] by (simp add: plain_phase_def)
next
  case (quit s i A D a se sk)
  then show ?case using linked_rest [OF quit.prems(2) quit.hyps(1), of Terminated "[Im_actor_quit sk]"]
    by (simp add: plain_phase_def news_def)
next
  case (abort s i A D e)
  then show ?case using linked_rest [OF abort.prems(2) abort.hyps(1), of Terminated "[Im_simulation_aborted i e]"]
    by (simp add: plain_phase_def news_def)
next
  case (crash s i A D x)
  then show ?case using linked_rest [OF crash.prems(2) crash.hyps(1), of Crashed "[]"] by (simp add: plain_phase_def)
next
  case (deliver s p d b)
  have "linked \<sigma> C B n (s\<lparr>shared := (shared s)\<lparr>cells := (cells (shared s))(b \<mapsto> Some p)\<rparr>\<rparr>) \<longleftrightarrow> linked \<sigma> C B n s"
    unfolding linked_def by simp
  with deliver.prems(2) have "linked \<sigma> C B n (s\<lparr>shared := (shared s)\<lparr>cells := (cells (shared s))(b \<mapsto> Some p)\<rparr>\<rparr>)"
    by blast
  then show ?case by blast
qed

subsection \<open>Taking a message\<close>

lemma at_pop_running: "at_call c A \<Longrightarrow> \<exists>D k. running (a_phase A) = Some (D, Do c k)"
  by (simp add: at_call_def)

lemma set_other: "actors (set_phase j A' ph s) i = (if i = j then Some (A'\<lparr>a_phase := ph\<rparr>) else actors s i)"
  by (simp add: sys_ops)

lemma pop_step:
  assumes "sys_step_with allowed (popped q m) s s'" "actors s i = Some A" "at_call (Queue_pop q) A" "actors s' i \<noteq> Some A"
  shows "(\<exists>k st' p. a_phase A = Connecting (Do (Queue_pop q) k) \<and> k (Ret_msg m) (shared s) = (st', p) \<and>
      s4u_ok (Queue_pop q) (Ret_msg m) (shared s) \<and>
      s' = set_phase i (A\<lparr>a_socket := next_socket (Ret_msg m) (a_socket A)\<rparr>) (Connecting p) (s\<lparr>shared := st'\<rparr>)) \<or>
    (\<exists>D k st' p. a_phase A = Handling D (Do (Queue_pop q) k) \<and> k (Ret_msg m) (shared s) = (st', p) \<and>
      s4u_ok (Queue_pop q) (Ret_msg m) (shared s) \<and>
      s' = set_phase i A (Handling D p) (record_call i (Queue_pop q) (Ret_msg m) (s\<lparr>shared := st'\<rparr>)))"
proof -
  obtain D k where run: "running (a_phase A) = Some (D, Do (Queue_pop q) k)" using assms(3) by (auto simp: at_call_def)
  from assms(1,2,4) run show ?thesis
  proof (induction rule: sys_step_with.induct)
    case (prologue s j A' c k' r st' p)
    then have "j = i" by (auto simp: set_other split: if_splits)
    with prologue show ?case by (auto simp: popped_def)
  next
    case (resume s j A' D' c k' r st' p)
    then have "j = i" by (auto simp: set_other split: if_splits)
    with resume show ?case by (auto simp: popped_def)
  next
    case (create s j A' D' m' h q' k' pid st' p st'' p')
    then have "pid \<noteq> i" by auto
    with create have "j = i" by (auto simp: sys_ops split: if_splits)
    with create show ?case by auto
  next
    case (create_error s j A' D' m' h q' k' x st' p)
    then have "j = i" by (auto simp: set_other split: if_splits)
    with create_error show ?case by auto
  next
    case (read s j A' d st' p)
    then have "j = i" by (auto simp: set_other log_event_def split: if_splits)
    with read show ?case by auto
  next
    case (deliver s p d b)
    then show ?case by simp
  qed (auto simp: set_other split: if_splits)
qed

lemma linked_pop:
  assumes l: "linked \<sigma> C B n s" and ok: "sys_ok s" and i: "actors s i = Some A" "at_call (Queue_pop q) A"
    and pop: "pop_box q B = (m, B')" and step: "sys_step_with allowed (popped q m) s s'" "actors s' i \<noteq> Some A"
  shows "\<exists>\<sigma>'. linked \<sigma>' C B' n s'"
proof -
  note L = linkedD [OF l]
  note ch = channelsD [OF L(1)]
  have st: "in_stage (\<sigma> i) (Some A)" using ch(1) [of i] i(1) by simp
  from pop_step [OF step(1) i step(2)] show ?thesis
  proof (elim disjE exE conjE)
    fix k st' p assume A: "a_phase A = Connecting (Do (Queue_pop q) k)" and k: "k (Ret_msg m) (shared s) = (st', p)"
      and s': "s' = set_phase i (A\<lparr>a_socket := next_socket (Ret_msg m) (a_socket A)\<rparr>) (Connecting p) (s\<lparr>shared := st'\<rparr>)"
    have "Do (Queue_pop q) k \<notin> {entering0 x, entering1 x, entering2 x}" for x using entering_steps(2-4) [of x] by auto
    then obtain r where r: "\<sigma> i = Greeted r" "Do (Queue_pop q) k = entering3 r"
      using stage_connecting [OF st A] by blast
    with entering_steps(5) [of r] have q: "q = r" by auto
    from r(1) ch(3) [of i] obtain c sk where g: "umap_find C i = Some c" "conn_socket c = Some sk" "B r = [Im_actor_connected sk]"
      by (auto simp: stage_ok_def greeting_def)
    have m: "m = Some (Im_actor_connected sk)" "B' = B(r := [])" using pop g(3) q by (simp_all add: pop_box_def)
    have p: "st' = (shared s)\<lparr>queues := queues (shared s) - {r}\<rparr>" "p = Done (Handled decision_ack0 False False)"
      using entering_steps(5) [of r] r(2) k m(1) by auto
    let ?A = "A\<lparr>a_socket := Some sk, a_phase := Connecting p\<rparr>"
    have acts: "actors s' = (actors s)(i \<mapsto> ?A)" and com: "to_command s' = to_command s @ []"
      and told: "told C (events s')" and sh: "shared s' = st'"
      unfolding s' using L(5) by (simp_all add: sys_ops next_socket_def m)
    have "linked (\<sigma>(i := Plain)) C B' n s'"
    proof (rule linked_move [OF l l i(1), where V = "[]", OF _ _ _ _ _ _ _ _ _ _ _ _ _ acts com told])
      show "client C i x" if "a_socket ?A = Some x" for x using that g by (auto simp: client_def)
    qed (use r(1) g ch(8) L(3) in \<open>auto simp: sh p stage_ok_def plain_phase_def m(2) client_def\<close>)
    then show ?thesis by blast
  next
    fix D k st' p assume A: "a_phase A = Handling D (Do (Queue_pop q) k)" and k: "k (Ret_msg m) (shared s) = (st', p)"
      and s': "s' = set_phase i A (Handling D p) (record_call i (Queue_pop q) (Ret_msg m) (s\<lparr>shared := st'\<rparr>))"
    have "\<not> plain_turn (Do (Queue_pop q) k)" using plain_turn_do(1) [of "Queue_pop q" k] by (auto simp: queue_call_def)
    moreover have "\<not> creates x y (Do (Queue_pop q) k)" for x y by (simp add: creates_def)
    moreover have "Do (Queue_pop q) k \<noteq> announcing x y z" for x y z using announcing_step [of x y z] by auto
    moreover have "Do (Queue_pop q) k \<noteq> awaiting x y" for x y using awaiting_step [of x y] by auto
    moreover have "Do (Queue_pop q) k \<noteq> reporting x" for x using reporting_step [of x] by auto
    ultimately obtain q' pid where
      r: "\<sigma> i = Collecting q' pid" "Do (Queue_pop q) k = collecting q' pid" using stage_handling [OF st A] by blast
    with collecting_step [of q' pid] have q: "q = q'" by auto
    from r(1) ch(3) [of i] have g: "B q = [Im_actor_create_ack]" "known C pid" by (simp_all add: stage_ok_def q)
    have m: "m = Some Im_actor_create_ack" "B' = B(q := [])" using pop g(1) by (simp_all add: pop_box_def)
    have p: "st' = (shared s)\<lparr>queues := queues (shared s) - {q}\<rparr>" "p = reporting pid"
      using collecting_step [of q' pid] r(2) k m(1) q by auto
    let ?A = "A\<lparr>a_phase := Handling D p\<rparr>"
    have acts: "actors s' = (actors s)(i \<mapsto> ?A)" and com: "to_command s' = to_command s @ []"
      and told: "told C (events s')" and sh: "shared s' = st'"
      unfolding s' using L(5) by (simp_all add: sys_ops record_call_def)
    have "linked (\<sigma>(i := Reporting pid)) C B' n s'"
    proof (rule linked_move [OF l l i(1), where V = "[]", OF _ _ _ _ _ _ _ _ _ _ _ _ _ acts com told])
      show "in_stage (Reporting pid) (Some ?A)" using st r(1) p(2) by auto
      show "client C i x" if "a_socket ?A = Some x" for x using that L(4) [OF i(1)] by simp
    qed (use r(1) g ch(8) L(3) q in \<open>auto simp: sh p stage_ok_def m(2)\<close>)
    then show ?thesis by blast
  qed
qed

section \<open>The command thread moves\<close>

lemma created_ids_news: "news m \<Longrightarrow> created_ids (m # U) = created_ids U"
  by (cases m) (simp_all add: news_def)

lemma stage_ok_news:
  assumes "news m"
  shows "stage_ok C B (m # U) \<sigma> i x = stage_ok C B U \<sigma> i x" "stage_ok C B (U @ [m]) \<sigma> i x = stage_ok C B U \<sigma> i x"
proof -
  have "Im_actor_create p q r \<noteq> m" for p q r using assms by (auto simp: news_def)
  then show "stage_ok C B (m # U) \<sigma> i x = stage_ok C B U \<sigma> i x" "stage_ok C B (U @ [m]) \<sigma> i x = stage_ok C B U \<sigma> i x"
    using created_ids_news [OF assms, of U] created_news [of "[m]"] assms
    by (cases x; simp add: stage_ok_def)+
qed

lemma channels_news:
  assumes "news m"
  shows "channels \<sigma> C B (m # U) Q acts \<longleftrightarrow> channels \<sigma> C B U Q acts" "channels \<sigma> C B (U @ [m]) Q acts \<longleftrightarrow> channels \<sigma> C B U Q acts"
  using created_ids_news [OF assms, of U] created_news [of "[m]"] assms report_news [OF assms]
  by (simp_all add: channels_def stage_ok_news [OF assms] ball_Un)

text \<open>The command thread learns of a new actor: its client may connect, its creator goes on.\<close>

lemma channels_register:
  assumes ch: "channels \<sigma> C B (Im_actor_create pid q r # U) Q acts"
    and c: "conn_socket c = None" "connect_ack c = Some r"
  shows "channels \<sigma> (umap_insert pid c C) (B(q := B q @ [Im_actor_create_ack])) U Q acts"
    (is "channels \<sigma> ?C ?B U Q acts")
proof -
  note D = channelsD [OF ch]
  have "report_ok C \<sigma> (Im_actor_create pid q r)" using D(7) by simp
  then obtain k where k: "\<not> known C pid" "\<sigma> pid = Entering r" "\<sigma> k = Awaiting q pid"
    by (auto simp: report_ok_def)
  have "B q = []" using D(3) [of k] k(1,3) by (auto simp: stage_ok_def)
  have "B r = []" using D(3) [of pid] k(1,2) by (auto simp: stage_ok_def greeting_def)
  have "k \<noteq> pid" using k(2,3) by auto
  from D(4) [OF this] k(2,3) have "q \<noteq> r" by auto
  have find: "umap_find ?C j = (if j = pid then Some c else umap_find C j)" for j
    using k(1) by (simp add: umap_simps)
  have box: "?B x = B x" if "x \<in> reads (\<sigma> j)" "j \<noteq> k" for x j
    using D(4) [OF that(2)] that(1) k(3) by auto
  have unsent: "pid \<notin> set (created_ids U)" using D(8) by simp
  have stages: "stage_ok ?C ?B U \<sigma> j (\<sigma> j)" for j
  proof (cases "j = k \<or> j = pid")
    case True
    then show ?thesis
    proof
      assume "j = k"
      then show ?thesis using k(3) \<open>B q = []\<close> by (simp add: stage_ok_def find)
    next
      assume "j = pid"
      then show ?thesis using k(2) c \<open>B r = []\<close> \<open>q \<noteq> r\<close> by (simp add: stage_ok_def find)
    qed
  next
    case False
    then have j: "j \<noteq> k" "j \<noteq> pid" by auto
    have ok: "stage_ok C B (Im_actor_create pid q r # U) \<sigma> j (\<sigma> j)" by (rule D(3))
    have b: "\<And>x. x \<in> reads (\<sigma> j) \<Longrightarrow> ?B x = B x" using box j by blast
    show ?thesis
    proof (cases "\<sigma> j")
      case (Awaiting q' pid')
      have "q' \<noteq> q" using D(4) [OF j(1)] Awaiting k(3) by auto
      with ok b Awaiting show ?thesis by (auto simp: stage_ok_def find)
    next
      case (Announcing q' r' pid')
      with ok b show ?thesis by (auto simp: stage_ok_def find)
    next
      case (Creating q' r')
      with ok b [of q'] b [of r'] show ?thesis by (simp add: stage_ok_def)
    next
      case (Collecting q' pid')
      with ok b [of q'] show ?thesis by (simp add: stage_ok_def find)
    next
      case (Entering r')
      with ok b [of r'] j(2) show ?thesis by (simp add: stage_ok_def find greeting_def)
    next
      case (Greeted r')
      with ok b [of r'] j(2) show ?thesis by (simp add: stage_ok_def find greeting_def)
    qed (use ok in \<open>simp_all add: stage_ok_def find\<close>)
  qed
  have reports: "report_ok ?C \<sigma> m" if "m \<in> set U" for m
  proof (cases m)
    case (Im_actor_create pid' q' r')
    then have "pid' \<noteq> pid" using that unsent created_ids_set by blast
    moreover have "report_ok C \<sigma> m" using D(7) that by simp
    ultimately show ?thesis unfolding Im_actor_create report_ok_def by (simp add: find)
  qed (use D(7) [of m] that in \<open>simp_all add: report_ok_def\<close>)
  have full: "\<exists>j. x \<in> reads (\<sigma> j)" if "?B x \<noteq> []" for x
    using that D(6) [of x] k(3) by (cases "x = q") (auto intro: exI [of _ k])
  have waits: "\<sigma> j = Entering r'" if "umap_find ?C j = Some c'" "conn_socket c' = None" "connect_ack c' = Some r'" for j c' r'
    using that D(9) [of j c' r'] c k(2) by (auto simp: find split: if_splits)
  have all: "\<sigma> j \<noteq> Away" if "known ?C j" for j
  proof (cases "j = pid")
    case False
    then have "known C j" using that by (simp add: find)
    then show ?thesis using D(10) [of k j] k(3) by simp
  qed (simp add: k(2))
  have "distinct (created_ids U)" using D(8) by simp
  then show ?thesis
    unfolding channels_def using D(1,2,4,5) stages reports full waits all by blast
qed

text \<open>The client of a new actor connects.\<close>

lemma channels_connect:
  assumes ch: "channels \<sigma> C B U Q acts"
    and c: "umap_find C i = Some c" "conn_socket c = None" "connect_ack c = Some r"
  shows "channels \<sigma> (umap_set i (c\<lparr>conn_socket := Some sk\<rparr>) C) (B(r := B r @ [Im_actor_connected sk])) U Q acts"
    (is "channels \<sigma> ?C ?B U Q acts")
proof -
  note D = channelsD [OF ch]
  have e: "\<sigma> i = Entering r" using D(9) [OF c] .
  have "B r = []" using D(3) [of i] e c by (auto simp: stage_ok_def greeting_def)
  have find: "umap_find ?C j = (if j = i then Some (c\<lparr>conn_socket := Some sk\<rparr>) else umap_find C j)" for j
    using c(1) by (simp add: umap_simps)
  have known: "known ?C j \<longleftrightarrow> known C j" for j using c(1) by (simp add: find)
  have known': "umap_find ?C j = None \<longleftrightarrow> umap_find C j = None"
      "(\<exists>y. umap_find ?C j = Some y) \<longleftrightarrow> (\<exists>y. umap_find C j = Some y)" for j
    using c(1) by (simp_all add: find)
  have stages: "stage_ok ?C ?B U \<sigma> j (\<sigma> j)" for j
  proof (cases "j = i")
    case True
    then show ?thesis using e c \<open>B r = []\<close> by (simp add: stage_ok_def find greeting_def)
  next
    case False
    have b: "\<And>x. x \<in> reads (\<sigma> j) \<Longrightarrow> ?B x = B x" using D(4) [OF False] e by auto
    have "umap_find ?C j = umap_find C j" using False by (simp add: find)
    then show ?thesis
      using D(3) [of j] b by (cases "\<sigma> j") (simp_all add: stage_ok_def known' greeting_def)
  qed
  have reports: "report_ok ?C \<sigma> m" if "m \<in> set U" for m
    using D(7) [OF that] by (cases m) (simp_all add: report_ok_def known')
  have full: "\<exists>j. x \<in> reads (\<sigma> j)" if "?B x \<noteq> []" for x
    using that D(6) [of x] e by (cases "x = r") (auto intro: exI [of _ i])
  have waits: "\<sigma> j = Entering r'" if "umap_find ?C j = Some c'" "conn_socket c' = None" "connect_ack c' = Some r'" for j c' r'
    using that D(9) [of j c' r'] by (auto simp: find split: if_splits)
  show ?thesis
    unfolding channels_def known using D(1,2,4,5,8,10) stages reports full waits by blast
qed

text \<open>What a command does to the connections and the queues.\<close>

definition fresh_connection :: "actor_connection \<Rightarrow> bool" where
  "fresh_connection c \<longleftrightarrow> conn_socket c = None \<and> connect_ack c = None"

lemma command_connections:
  assumes "handle_command cmd sk cs = Inr (d, effs, cs')"
  shows "(actor_connections cs' = actor_connections cs \<and> (\<forall>B. pushes effs B = B)) \<or>
    (\<exists>i c. server_state cs = ACCEPTING_NEW_ACTORS \<and> fresh_connection c \<and>
       actor_connections cs' = umap_insert i c (actor_connections cs) \<and> (\<forall>B. pushes effs B = B)) \<or>
    (\<exists>i c. umap_find (actor_connections cs) i = Some c \<and> conn_socket c = None \<and>
       actor_connections cs' = umap_set i (c\<lparr>conn_socket := Some sk\<rparr>) (actor_connections cs) \<and>
       (if server_state cs = SIMULATION_RUNNING
        then \<exists>r. connect_ack c = Some r \<and> (\<forall>B. pushes effs B = B(r := B r @ [Im_actor_connected sk]))
        else \<forall>B. pushes effs B = B) \<and>
       server_state cs \<in> {ACCEPTING_NEW_ACTORS, WAITING_FOR_ALL_ACTORS_CONNECTION, SIMULATION_RUNNING})"
proof (cases cmd)
  case (KAddActor n h)
  show ?thesis
  proof (cases "server_state cs = ACCEPTING_NEW_ACTORS")
    case True
    let ?i = "to_int32 (int (length (actor_connections cs)) + 2)"
    let ?c = "new_connection\<lparr>actor_name := c_str n, host_name := c_str h, actor_id := ?i\<rparr>"
    have "fresh_connection ?c" by (simp add: fresh_connection_def new_connection_def)
    moreover have "actor_connections cs' = umap_insert ?i ?c (actor_connections cs)" "\<forall>B. pushes effs B = B"
      using assms True by (auto simp: KAddActor command_defs Let_def)
    ultimately show ?thesis using True by blast
  next
    case False
    then show ?thesis using assms by (auto simp: KAddActor command_defs split: if_splits)
  qed
next
  case (KConnect i)
  show ?thesis
  proof (cases "server_state cs = KILLED")
    case True
    then show ?thesis using assms by (auto simp: KConnect command_defs)
  next
    case False
    with assms obtain c where c: "umap_find (actor_connections cs) i = Some c" "conn_socket c = None"
      by (auto simp: KConnect command_defs split: if_splits option.splits)
    have C: "actor_connections cs' = umap_set i (c\<lparr>conn_socket := Some sk\<rparr>) (actor_connections cs)"
      using assms False c by (auto simp: KConnect command_defs Let_def split: if_splits option.splits)
    have "if server_state cs = SIMULATION_RUNNING
        then \<exists>r. connect_ack c = Some r \<and> (\<forall>B. pushes effs B = B(r := B r @ [Im_actor_connected sk]))
        else \<forall>B. pushes effs B = B"
      using assms False c by (auto simp: KConnect command_defs Let_def split: if_splits option.splits)
    moreover have "server_state cs \<in> {ACCEPTING_NEW_ACTORS, WAITING_FOR_ALL_ACTORS_CONNECTION, SIMULATION_RUNNING}"
      using assms False by (auto simp: KConnect command_defs split: if_splits)
    ultimately show ?thesis using c C by blast
  qed
qed (use assms in \<open>auto simp: command_defs split: if_splits\<close>)

lemma command_starts:
  assumes "handle_command cmd sk cs = Inr (d, effs, cs')" "Start_simulation m \<in> set effs"
  shows "actor_connections cs' = m"
  using assms by (auto simp: command_defs Let_def split: command.splits if_splits option.splits sum.splits)

end
