(* ===== verification/Whole_Server.thy ===== *)
theory Whole_Server
  imports Queue_Channels
begin

text \<open>
  The two threads of the server together: the command thread of \<open>Command_Server\<close>, the launch of
  \<open>Launch\<close> and the actors of \<open>Actor_System\<close>, which exchange messages on the queue to the command
  thread and on the two queues of each creation. The theory shows that each side finds the messages
  it expects, that no wait for a message is in vain, and that every actor serves the client that
  connected as that actor.
\<close>

section \<open>The threads and their queues\<close>

text \<open>
  \<open>boxes\<close>: what is in the queues to the actors. \<open>messages_read\<close>: how many messages of the simulation the
  command thread has taken. \<open>last_words\<close>: what maestro tells when the simulation is over.
\<close>

record whole =
  cmds :: command_state
  trace :: "effect list"
  sim :: sys
  boxes :: "queue \<Rightarrow> interthread_message list"
  messages_read :: nat
  launched :: bool
  last_words :: "interthread_message option"

definition init_whole :: whole where
  "init_whole = \<lparr>cmds = init_command_state, trace = [], sim = init_sys [], boxes = (\<lambda>q. []), messages_read = 0,
     launched = False, last_words = None\<rparr>"

definition unread :: "whole \<Rightarrow> interthread_message list" where
  "unread W = drop (messages_read W) (to_command (sim W))"

text \<open>The actors that maestro starts with their sockets, and its message after the simulation.\<close>

definition initial_actors :: "maestro_call list \<Rightarrow> (int \<times> socket) list" where
  "initial_actors calls = map (\<lambda>(n, h, sk, i). (i, sk)) (created calls)"

definition final_message :: "maestro_call list \<Rightarrow> interthread_message option" where
  "final_message calls = (case rev calls of M_push m # cs \<Rightarrow> Some m | _ \<Rightarrow> None)"

definition over :: "actor \<Rightarrow> bool" where
  "over A \<longleftrightarrow> a_phase A = Terminated \<or> a_phase A = Crashed"

text \<open>
  The steps. A command comes from a socket that is no actor's (\<open>Serve_Loop\<close>). \<open>hosts\<close>, \<open>platform\<close>, \<open>opts\<close>
  are those of \<open>start_simulation\<close>.
\<close>

inductive whole_step :: "(string \<Rightarrow> string list) \<Rightarrow> string \<Rightarrow> string list \<Rightarrow> whole \<Rightarrow> whole \<Rightarrow> bool"
  for hosts platform opts W where
  command: "handle_command cmd sk (cmds W) = Inr (d, effs, cs') \<Longrightarrow>
    (\<And>i c. umap_find (actor_connections (cmds W)) i = Some c \<Longrightarrow> conn_socket c \<noteq> Some sk) \<Longrightarrow>
    whole_step hosts platform opts W (W\<lparr>cmds := cs', trace := trace W @ effs, boxes := pushes effs (boxes W)\<rparr>)"
| launch: "Start_simulation m \<in> set (trace W) \<Longrightarrow> \<not> launched W \<Longrightarrow>
    start_simulation hosts (start_simulation_in_another_thread platform opts m) = (lcs, Inr calls) \<Longrightarrow>
    whole_step hosts platform opts W
      (W\<lparr>launched := True, sim := init_sys (initial_actors calls), last_words := final_message calls\<rparr>)"
| report: "unread W = m # ms \<Longrightarrow> receive_report m (cmds W) = Inr (effs, cs') \<Longrightarrow>
    whole_step hosts platform opts W (W\<lparr>cmds := cs', trace := trace W @ effs, boxes := pushes effs (boxes W),
      messages_read := Suc (messages_read W)\<rparr>)"
| simulate: "sys_step_with drops_allowed (answered_by (boxes W)) (sim W) s' \<Longrightarrow>
    whole_step hosts platform opts W (W\<lparr>sim := s'\<rparr>)"
| pop: "actors (sim W) i = Some A \<Longrightarrow> at_call (Queue_pop q) A \<Longrightarrow> pop_box q (boxes W) = (m, B) \<Longrightarrow>
    sys_step_with drops_allowed (popped q m) (sim W) s' \<Longrightarrow> actors s' i \<noteq> Some A \<Longrightarrow>
    whole_step hosts platform opts W (W\<lparr>sim := s', boxes := B\<rparr>)"
| finished: "launched W \<Longrightarrow> (\<And>i A. actors (sim W) i = Some A \<Longrightarrow> over A) \<Longrightarrow> last_words W = Some m \<Longrightarrow>
    whole_step hosts platform opts W
      (W\<lparr>sim := (sim W)\<lparr>to_command := to_command (sim W) @ [m]\<rparr>, last_words := None\<rparr>)"

text \<open>Fewer than 2^31 - 2 actors are ever added.\<close>

inductive whole_reach :: "(string \<Rightarrow> string list) \<Rightarrow> string \<Rightarrow> string list \<Rightarrow> whole \<Rightarrow> bool"
  for hosts platform opts where
  whole_init: "whole_reach hosts platform opts init_whole"
| whole_next: "whole_reach hosts platform opts W \<Longrightarrow> whole_step hosts platform opts W W' \<Longrightarrow>
    fits (actor_connections (cmds W')) \<Longrightarrow> whole_reach hosts platform opts W'"

section \<open>The launch\<close>

lemma maestro_created:
  "created (maestro e v) = [] \<or> created (maestro e v) = map (\<lambda>c. (actor_name c, host_name c, the (conn_socket c), actor_id c)) v"
proof (cases "\<forall>c \<in> set v. e (host_name c)")
  case True
  have "created (map (\<lambda>c. M_host_by_name_or_null (host_name c)) v) = []" by (rule created_checks) auto
  with check_hosts_ok [OF True] show ?thesis by (simp add: maestro_def created_spawn)
next
  case False
  from check_hosts_bad [OF False] show ?thesis by (auto simp: maestro_def created_checks)
qed

lemma maestro_final: "final_message (maestro e v) = Some m \<Longrightarrow> news m"
  by (auto simp: maestro_def final_message_def news_def split: prod.splits option.splits)

lemma linked_start:
  assumes "\<And>i c. umap_find C i = Some c \<Longrightarrow> connect_ack c = None"
    and "\<And>i sk. map_of conns i = Some sk \<Longrightarrow> client C i sk"
    and "\<And>i. conns \<noteq> [] \<Longrightarrow> known C i \<Longrightarrow> map_of conns i \<noteq> None"
  shows "linked (\<lambda>i. if map_of conns i = None then Away else Plain) C (\<lambda>q. []) 0 (init_sys conns)"
proof -
  let ?s = "init_sys conns" and ?\<sigma> = "\<lambda>i. if map_of conns i = None then Away else Plain"
  have s: "to_command ?s = []" "queues (shared ?s) = {}" "events ?s = (\<lambda>i. [])"
    "actors ?s i = map_option (\<lambda>sk. \<lparr>a_socket = Some sk, a_phase = Starting\<rparr>) (map_of conns i)" for i
    by (simp_all add: init_sys_def empty_server_def)
  have st: "in_stage (?\<sigma> i) (actors ?s i)" for i by (cases "map_of conns i") (simp_all add: s plain_phase_def)
  have "(\<exists>j. ?\<sigma> j \<noteq> Away) \<longrightarrow> (\<forall>i. known C i \<longrightarrow> ?\<sigma> i \<noteq> Away)"
  proof (intro impI allI, elim exE)
    fix i j assume "?\<sigma> j \<noteq> Away" "known C i"
    then have "conns \<noteq> []" by auto
    from assms(3) [OF this \<open>known C i\<close>] show "?\<sigma> i \<noteq> Away" by simp
  qed
  moreover have "connect_ack c \<noteq> Some r" if "umap_find C i = Some c" for i c r using assms(1) [OF that] by simp
  ultimately have "channels ?\<sigma> C (\<lambda>q. []) [] {} (actors ?s)"
    unfolding channels_def using st by (intro conjI) (simp_all add: stage_ok_def)
  moreover have "client C i sk" if "actors ?s i = Some A" "a_socket A = Some sk" for i A sk
    using that assms(2) by (cases "map_of conns i") (auto simp: s)
  ultimately show ?thesis by (auto simp: linked_def s told_def)
qed

lemma linked_launch:
  assumes m: "launch_ok m" "\<And>i c. umap_find m i = Some c \<Longrightarrow> connect_ack c = None"
    and start: "start_simulation hosts (start_simulation_in_another_thread platform opts m) = (lcs, Inr calls)"
  shows "\<exists>\<sigma>. linked \<sigma> m (\<lambda>q. []) 0 (init_sys (initial_actors calls))" "final_message calls = Some x \<Longrightarrow> news x"
proof -
  have ids: "initial_ids m" using m(1) by (simp add: launch_ok_def)
  let ?v = "sort_key actor_id (map snd m)"
  obtain e where calls: "calls = maestro e ?v"
    using start vector_of_initial [OF ids]
    by (auto simp: start_simulation_def start_simulation_in_another_thread_def Let_def split: list.splits)
  then show "final_message calls = Some x \<Longrightarrow> news x" using maestro_final by blast
  have ini: "initial_actors calls = [] \<or> initial_actors calls = map (\<lambda>c. (actor_id c, the (conn_socket c))) ?v"
    using maestro_created [of e ?v] by (auto simp: initial_actors_def calls comp_def)
  have u: "umap_ok m" using ids by (simp add: initial_ids_def)
  have mem: "umap_find m (actor_id c) = Some c \<and> conn_socket c \<noteq> None" if "c \<in> set ?v" for c
  proof -
    from that obtain i where i: "(i, c) \<in> set m" by auto
    then have "actor_id c = i" using ids by (auto simp: initial_ids_def)
    then show ?thesis using i u m(1) by (auto simp: umap_find_set_iff launch_ok_def)
  qed
  have "linked (\<lambda>i. if map_of (initial_actors calls) i = None then Away else Plain) m (\<lambda>q. []) 0 (init_sys (initial_actors calls))"
  proof (rule linked_start [OF m(2)])
    fix i sk assume "map_of (initial_actors calls) i = Some sk"
    then have "(i, sk) \<in> set (initial_actors calls)" by (rule map_of_SomeD)
    then obtain c where "c \<in> set ?v" "i = actor_id c" "sk = the (conn_socket c)"
      using ini by (fastforce simp del: set_sort)
    with mem [of c] show "client m i sk" by (auto simp: client_def)
  next
    fix i assume "initial_actors calls \<noteq> []" "known m i"
    then obtain c where "(i, c) \<in> set m" and ini': "initial_actors calls = map (\<lambda>c. (actor_id c, the (conn_socket c))) ?v"
      using ini by (auto dest: umap_find_mem)
    then have "c \<in> set ?v" "actor_id c = i" using ids by (force simp: initial_ids_def)+
    then show "map_of (initial_actors calls) i \<noteq> None" unfolding ini' map_of_eq_None_iff by force
  qed
  then show "\<exists>\<sigma>. linked \<sigma> m (\<lambda>q. []) 0 (init_sys (initial_actors calls))" by blast
qed

section \<open>The invariant of the server\<close>

text \<open>No two actors have the same client.\<close>

definition sole :: "connections \<Rightarrow> bool" where
  "sole C \<longleftrightarrow> (\<forall>i j sk. client C i sk \<and> client C j sk \<longrightarrow> i = j)"

definition before_launch :: "whole \<Rightarrow> bool" where
  "before_launch W \<longleftrightarrow> sim W = init_sys [] \<and> messages_read W = 0 \<and> boxes W = (\<lambda>q. []) \<and>
     (\<forall>i c. umap_find (actor_connections (cmds W)) i = Some c \<longrightarrow> connect_ack c = None) \<and>
     (\<forall>m. Start_simulation m \<in> set (trace W) \<longrightarrow> actor_connections (cmds W) = m)"

definition whole_ok :: "whole \<Rightarrow> bool" where
  "whole_ok W \<longleftrightarrow> lives (cmds W) (trace W) \<and> sys_ok (sim W) \<and>
     (\<exists>\<sigma>. linked \<sigma> (actor_connections (cmds W)) (boxes W) (messages_read W) (sim W)) \<and>
     sole (actor_connections (cmds W)) \<and> (\<not> launched W \<longrightarrow> before_launch W) \<and>
     (launched W \<longrightarrow> (\<exists>m. Start_simulation m \<in> set (trace W))) \<and> (\<forall>m. last_words W = Some m \<longrightarrow> news m)"

lemma whole_okD:
  assumes "whole_ok W"
  shows "lives (cmds W) (trace W)" "sys_ok (sim W)"
    "\<exists>\<sigma>. linked \<sigma> (actor_connections (cmds W)) (boxes W) (messages_read W) (sim W)"
    "sole (actor_connections (cmds W))" "\<not> launched W \<Longrightarrow> before_launch W"
    "launched W \<Longrightarrow> \<exists>m. Start_simulation m \<in> set (trace W)" "last_words W = Some m \<Longrightarrow> news m"
  using assms unfolding whole_ok_def by blast+

lemma sole_set:
  assumes "sole C" "\<And>j. \<not> client C j sk"
  shows "sole (umap_set i (c\<lparr>conn_socket := Some sk\<rparr>) C)"
proof -
  have "client C j x \<or> (j = i \<and> x = sk)" if "client (umap_set i (c\<lparr>conn_socket := Some sk\<rparr>) C) j x" for j x
    using that by (auto simp: client_def umap_simps split: if_splits)
  with assms show ?thesis unfolding sole_def by metis
qed

lemma client_insert: "conn_socket c = None \<Longrightarrow> client (umap_insert i c C) j x \<longleftrightarrow> client C j x"
  by (auto simp: client_def umap_simps)

lemma client_set: "umap_find C i = Some c \<Longrightarrow> conn_socket c = None \<Longrightarrow> client C j x \<Longrightarrow> client (umap_set i c' C) j x"
  by (auto simp: client_def umap_simps)

lemma told_known: "told C evs \<Longrightarrow> (\<And>i. known C i \<Longrightarrow> known C' i) \<Longrightarrow> told C' evs"
  unfolding told_def by blast

lemma command_sole:
  assumes "handle_command cmd sk cs = Inr (d, effs, cs')" "sole (actor_connections cs)"
    and "\<And>j. \<not> client (actor_connections cs) j sk"
  shows "sole (actor_connections cs')"
  using command_connections [OF assms(1)]
proof (elim disjE exE conjE)
  fix i c assume "fresh_connection c" "actor_connections cs' = umap_insert i c (actor_connections cs)"
  then show ?thesis using assms(2) unfolding sole_def by (simp add: client_insert fresh_connection_def)
qed (use assms(2) sole_set [OF assms(2,3)] in simp_all)

text \<open>Once the simulation starts, a command only connects the client of a new actor.\<close>

lemma command_started:
  assumes "handle_command cmd sk cs = Inr (d, effs, cs')" "cs_ok cs tr" "0 < launches tr"
  shows "(actor_connections cs' = actor_connections cs \<and> (\<forall>B. pushes effs B = B)) \<or>
    (\<exists>i c r. umap_find (actor_connections cs) i = Some c \<and> conn_socket c = None \<and> connect_ack c = Some r \<and>
       actor_connections cs' = umap_set i (c\<lparr>conn_socket := Some sk\<rparr>) (actor_connections cs) \<and>
       (\<forall>B. pushes effs B = B(r := B r @ [Im_actor_connected sk])))"
proof -
  have "server_state cs \<notin> {ACCEPTING_NEW_ACTORS, WAITING_FOR_ALL_ACTORS_CONNECTION}"
    using assms(2,3) by (auto simp: cs_ok_def)
  with command_connections [OF assms(1)] show ?thesis by (elim disjE exE conjE) auto
qed

lemma whole_ok_command:
  assumes ok: "whole_ok W" and cmd: "handle_command cmd sk (cmds W) = Inr (d, effs, cs')"
    and new: "\<And>i c. umap_find (actor_connections (cmds W)) i = Some c \<Longrightarrow> conn_socket c \<noteq> Some sk"
    and fit: "fits (actor_connections cs')"
  shows "whole_ok (W\<lparr>cmds := cs', trace := trace W @ effs, boxes := pushes effs (boxes W)\<rparr>)" (is "whole_ok ?W")
proof -
  note D = whole_okD [OF ok]
  let ?C = "actor_connections (cmds W)" and ?C' = "actor_connections cs'"
  have "fits ?C" using fit command_grows [OF cmd] by (rule fits_mono)
  from lives_ok [OF D(1) this] have cs: "cs_ok (cmds W) (trace W)"
    "\<And>m. Start_simulation m \<in> set (trace W) \<Longrightarrow> launch_ok m" by auto
  have lives: "lives cs' (trace W @ effs)" using D(1) cmd by (rule lives_command)
  have sole: "sole ?C'" using new by (intro command_sole [OF cmd D(4)]) (auto simp: client_def)
  show ?thesis
  proof (cases "launched W")
    case True
    then obtain m where m: "Start_simulation m \<in> set (trace W)" using D(6) by blast
    obtain \<sigma> where l: "linked \<sigma> ?C (boxes W) (messages_read W) (sim W)" using D(3) by blast
    note L = linkedD [OF l]
    from command_started [OF cmd cs(1) launches_pos [OF m]]
    have "linked \<sigma> ?C' (pushes effs (boxes W)) (messages_read W) (sim W)"
    proof (elim disjE exE conjE)
      fix i c r assume c: "umap_find ?C i = Some c" "conn_socket c = None" "connect_ack c = Some r"
        and C': "?C' = umap_set i (c\<lparr>conn_socket := Some sk\<rparr>) ?C"
        and B: "\<forall>B. pushes effs B = B(r := B r @ [Im_actor_connected sk])"
      have "told ?C' (events (sim W))" unfolding C' by (rule told_known [OF L(5)]) (auto simp: umap_simps)
      then show ?thesis
        unfolding linked_def using channels_connect [OF L(1) c, of sk] L(2-4) client_set [OF c(1,2)]
        by (auto simp: C' B)
    qed (use l in simp)
    then show ?thesis unfolding whole_ok_def using lives sole D(2,7) True m by auto
  next
    case False
    then have b: "before_launch W" by (rule D(5))
    have acks: "\<And>i c. umap_find ?C i = Some c \<Longrightarrow> connect_ack c = None" using b by (simp add: before_launch_def)
    have quiet: "?C' = ?C" if "Start_simulation m \<in> set (trace W)" for m
    proof -
      have "launch_ok ?C" using b cs(2) [OF that] that by (simp add: before_launch_def)
      then have "conn_socket c \<noteq> None" if "umap_find ?C i = Some c" for i c using that by (simp add: launch_ok_def)
      then show ?thesis using command_started [OF cmd cs(1) launches_pos [OF that]] by blast
    qed
    have acks': "connect_ack c = None" if "umap_find ?C' i = Some c" for i c
      using command_connections [OF cmd] that acks
      by (elim disjE exE conjE) (auto simp: umap_simps fresh_connection_def split: if_splits)
    have "pushes effs B = B" for B
      using command_connections [OF cmd] acks by (elim disjE exE conjE) (auto split: if_splits)
    then have b': "before_launch ?W"
      using b acks' quiet command_starts [OF cmd] by (auto simp: before_launch_def)
    have "\<exists>\<sigma>. linked \<sigma> ?C' (\<lambda>q. []) 0 (init_sys [])"
      by (rule exI, rule linked_start) (use acks' in auto)
    then have "\<exists>\<sigma>. linked \<sigma> (actor_connections (cmds ?W)) (boxes ?W) (messages_read ?W) (sim ?W)"
      using b' by (auto simp: before_launch_def)
    then show ?thesis unfolding whole_ok_def using lives sole D(2,7) False b' by auto
  qed
qed

lemma register_create:
  assumes "register_actor i q r cs = Inr (effs, cs')"
  shows "\<exists>c. conn_socket c = None \<and> connect_ack c = Some r \<and>
    actor_connections cs' = umap_insert i c (actor_connections cs) \<and> pushes effs B = B(q := B q @ [Im_actor_create_ack])"
  using assms by (intro exI [of _ "new_connection\<lparr>actor_id := i, connect_ack := Some r\<rparr>"])
    (auto simp: register_actor_def new_connection_def split: if_splits)

lemma whole_ok_report:
  assumes ok: "whole_ok W" and m: "unread W = m # ms" and rep: "receive_report m (cmds W) = Inr (effs, cs')"
  shows "whole_ok (W\<lparr>cmds := cs', trace := trace W @ effs, boxes := pushes effs (boxes W),
    messages_read := Suc (messages_read W)\<rparr>)"
proof -
  note D = whole_okD [OF ok]
  let ?C = "actor_connections (cmds W)" and ?n = "messages_read W" and ?s = "sim W"
  have launched: "launched W"
    using D(5) m by (cases "launched W") (auto simp: before_launch_def unread_def init_sys_def)
  then obtain x where x: "Start_simulation x \<in> set (trace W)" using D(6) by blast
  obtain \<sigma> where l: "linked \<sigma> ?C (boxes W) ?n ?s" using D(3) by blast
  note L = linkedD [OF l]
  have U: "drop ?n (to_command ?s) = m # ms" using m by (simp add: unread_def)
  then have ms: "drop (Suc ?n) (to_command ?s) = ms" "Suc ?n \<le> length (to_command ?s)"
    by (metis drop_Suc tl_drop list.sel(3), metis Suc_leI drop_all list.distinct(1) not_le)
  have ch: "channels \<sigma> ?C (boxes W) (m # ms) (queues (shared ?s)) (actors ?s)" using L(1) by (simp add: U)
  have "report_ok ?C \<sigma> m" using channelsD(7) [OF ch] by simp
  show ?thesis
  proof (cases "news m")
    case True
    then have r: "effs = []" "cs' = cmds W \<or> cs' = (cmds W)\<lparr>server_state := SIMULATION_FINISHED\<rparr>"
      using rep by (auto simp: receive_report_def news_def split: interthread_message.splits)
    then have "lives cs' (trace W)" using D(1) lives_finish [OF D(1) x] by auto
    moreover have "linked \<sigma> ?C (boxes W) (Suc ?n) ?s"
      using L ch ms by (simp add: linked_def channels_news(1) [OF True])
    moreover have "actor_connections cs' = ?C" using r(2) by auto
    ultimately show ?thesis unfolding whole_ok_def using r(1) D(2,4,7) launched x by auto
  next
    case False
    then obtain i q r where c: "m = Im_actor_create i q r"
      using \<open>report_ok ?C \<sigma> m\<close> by (cases m) (auto simp: news_def report_ok_def)
    then have reg: "register_actor i q r (cmds W) = Inr (effs, cs')" using rep by (simp add: receive_report_def)
    from register_create [OF reg] obtain c' where c': "conn_socket c' = None" "connect_ack c' = Some r"
      "actor_connections cs' = umap_insert i c' ?C" "pushes effs (boxes W) = (boxes W)(q := boxes W q @ [Im_actor_create_ack])" by blast
    have "lives cs' (trace W @ effs)" using D(1) x reg by (rule lives_create)
    moreover have "linked \<sigma> (actor_connections cs') (pushes effs (boxes W)) (Suc ?n) ?s"
    proof -
      have "told (umap_insert i c' ?C) (events ?s)" by (rule told_known [OF L(5)]) (auto simp: umap_simps)
      then show ?thesis
        unfolding linked_def ms c'(3,4) using channels_register [OF ch [unfolded c] c'(1,2)] ms(2) L(3,4)
        by (simp add: client_insert [OF c'(1)])
    qed
    moreover have "sole (actor_connections cs')" using D(4) unfolding sole_def c'(3) by (simp add: client_insert [OF c'(1)])
    ultimately show ?thesis unfolding whole_ok_def using D(2,7) launched x by auto
  qed
qed

lemma sys_step_mono:
  assumes "sys_step_with allowed answered s s'"
  shows "sys_step_with allowed (\<lambda>c r. True) s s'"
  using assms
proof (cases rule: sys_step_with.cases)
  case (prologue i A c k r st' p)
  then show ?thesis by (metis sys_step_with.prologue)
next
  case (resume i A D c k r st' p)
  then show ?thesis by (metis sys_step_with.resume)
qed (auto intro: sys_step_with.intros)

lemma whole_ok_sim:
  assumes ok: "whole_ok W" and "launched W" "sys_ok s'"
    and "\<exists>\<sigma>. linked \<sigma> (actor_connections (cmds W)) B (messages_read W) s'"
  shows "whole_ok (W\<lparr>sim := s', boxes := B\<rparr>)"
  using assms whole_okD [OF ok] unfolding whole_ok_def by auto

lemma no_step_before_launch: "\<not> sys_step_with allowed answered (init_sys []) s'"
proof
  assume "sys_step_with allowed answered (init_sys []) s'"
  then show False by (cases rule: sys_step_with.cases) (simp_all add: init_sys_def empty_server_def)
qed

lemma whole_ok_launch:
  assumes ok: "whole_ok W" and m: "Start_simulation m \<in> set (trace W)" "\<not> launched W" and fit: "fits (actor_connections (cmds W))"
    and start: "start_simulation hosts (start_simulation_in_another_thread platform opts m) = (lcs, Inr calls)"
  shows "whole_ok (W\<lparr>launched := True, sim := init_sys (initial_actors calls), last_words := final_message calls\<rparr>)"
proof -
  note D = whole_okD [OF ok]
  have b: "before_launch W" using D(5) m(2) by blast
  then have C: "actor_connections (cmds W) = m" and acks: "\<And>i c. umap_find m i = Some c \<Longrightarrow> connect_ack c = None"
    using m(1) by (auto simp: before_launch_def)
  have "launch_ok m" using lives_ok [OF D(1) fit] m(1) by blast
  have l: "\<exists>\<sigma>. linked \<sigma> m (\<lambda>q. []) 0 (init_sys (initial_actors calls))" "final_message calls = Some x \<Longrightarrow> news x" for x
    using linked_launch [OF \<open>launch_ok m\<close> _ start] acks by blast+
  have "messages_read W = 0" "boxes W = (\<lambda>q. [])" using b by (simp_all add: before_launch_def)
  then have "\<exists>\<sigma>. linked \<sigma> (actor_connections (cmds W)) (boxes W) (messages_read W) (init_sys (initial_actors calls))"
    using l(1) by (simp add: C)
  moreover have "\<forall>x. final_message calls = Some x \<longrightarrow> news x" using l(2) by blast
  moreover have "\<exists>m. Start_simulation m \<in> set (trace W)" using m(1) by blast
  ultimately show ?thesis
    unfolding whole_ok_def using D(1,4) sys_ok_init [of "initial_actors calls"] by simp
qed

lemma linked_news:
  assumes "linked \<sigma> C B n s" "news m"
  shows "linked \<sigma> C B n (s\<lparr>to_command := to_command s @ [m]\<rparr>)"
proof -
  note L = linkedD [OF assms(1)]
  have "channels \<sigma> C B (drop n (to_command s) @ [m]) (queues (shared s)) (actors s)"
    using L(1) by (simp add: channels_news(2) [OF assms(2)])
  moreover have "drop n (to_command s @ [m]) = drop n (to_command s) @ [m]" using L(2) by simp
  ultimately show ?thesis
    unfolding linked_def using L(2,3,5) L(4) by simp
qed

lemma whole_reach_ok: "whole_reach hosts platform opts W \<Longrightarrow> whole_ok W \<and> fits (actor_connections (cmds W))"
proof (induction rule: whole_reach.induct)
  case whole_init
  have "\<exists>\<sigma>. linked \<sigma> [] (\<lambda>q. []) 0 (init_sys [])"
    by (rule exI, rule linked_start) (auto simp: umap_find_def)
  then have "whole_ok init_whole"
    using lives_init sys_ok_init [of "[]"]
    by (simp add: whole_ok_def init_whole_def init_command_state_def before_launch_def sole_def client_def umap_find_def)
  then show ?case by (simp add: init_whole_def init_command_state_def fits_def)
next
  case (whole_next W W')
  then have ok: "whole_ok W" and fit: "fits (actor_connections (cmds W))" by auto
  note D = whole_okD [OF ok]
  have moves: "launched W" if "sys_step_with allowed answered (sim W) s'" for allowed answered s'
    using D(5) no_step_before_launch that by (cases "launched W") (auto simp: before_launch_def)
  from whole_next.hyps(2) have "whole_ok W'"
  proof (cases rule: whole_step.cases)
    case (command cmd sk d effs cs')
    with whole_next.hyps(3) show ?thesis using whole_ok_command [OF ok command(2,3)] by simp
  next
    case (launch m lcs calls)
    with whole_ok_launch [OF ok launch(2,3) fit launch(4)] show ?thesis by simp
  next
    case (report m ms effs cs')
    with whole_ok_report [OF ok report(2,3)] show ?thesis by simp
  next
    case (simulate s')
    have "sys_ok s'" using sys_ok_step sys_step_mono [OF simulate(2)] D(2) by blast
    moreover have "\<exists>\<sigma>. linked \<sigma> (actor_connections (cmds W)) (boxes W) (messages_read W) s'"
      using D(3) linked_simulate [OF simulate(2) D(2)] by blast
    ultimately show ?thesis using whole_ok_sim [OF ok moves [OF simulate(2)], of s' "boxes W"] simulate(1) by simp
  next
    case (pop i A q m B s')
    have "sys_ok s'" using sys_ok_step sys_step_mono [OF pop(5)] D(2) by blast
    moreover have "\<exists>\<sigma>. linked \<sigma> (actor_connections (cmds W)) B (messages_read W) s'"
      using D(3) linked_pop [OF _ D(2) pop(2-6)] by blast
    ultimately show ?thesis using whole_ok_sim [OF ok moves [OF pop(5)], of s' B] pop(1) by simp
  next
    case (finished m)
    let ?s = "(sim W)\<lparr>to_command := to_command (sim W) @ [m]\<rparr>"
    have m: "news m" using D(7) finished(4) by blast
    obtain \<sigma> where l: "linked \<sigma> (actor_connections (cmds W)) (boxes W) (messages_read W) (sim W)" using D(3) by blast
    from linked_news [OF this m] have "linked \<sigma> (actor_connections (cmds W)) (boxes W) (messages_read W) ?s" .
    moreover have "sys_ok ?s" using D(2) by (simp add: sys_ok_def)
    ultimately show ?thesis using D finished unfolding whole_ok_def by auto
  qed
  with whole_next.hyps(3) show ?case by blast
qed

section \<open>The clients that have gone\<close>

text \<open>An actor that its client quits ends, and says once which socket is to be dropped.\<close>

fun quits :: "interthread_message list \<Rightarrow> socket list" where
  "quits [] = []"
| "quits (Im_actor_quit sk # ms) = sk # quits ms"
| "quits (m # ms) = quits ms"

definition ended_with :: "sys \<Rightarrow> socket \<Rightarrow> bool" where
  "ended_with s sk \<longleftrightarrow> (\<exists>i. actors s i = Some \<lparr>a_socket = Some sk, a_phase = Terminated\<rparr>)"

definition quits_ok :: "sys \<Rightarrow> bool" where
  "quits_ok s \<longleftrightarrow> distinct (quits (to_command s)) \<and> (\<forall>sk \<in> set (quits (to_command s)). ended_with s sk)"

definition own_sockets :: "sys \<Rightarrow> bool" where
  "own_sockets s \<longleftrightarrow> (\<forall>i j A B sk. actors s i = Some A \<and> actors s j = Some B \<and> a_socket A = Some sk \<and> a_socket B = Some sk \<longrightarrow> i = j)"

lemma quits_append [simp]: "quits (ms @ ns) = quits ms @ quits ns"
  by (induction ms rule: quits.induct) simp_all

lemma quits_in: "sk \<in> set (quits ms) \<longleftrightarrow> Im_actor_quit sk \<in> set ms"
  by (induction ms rule: quits.induct) auto

lemma quits_record_call: "quits (to_command (record_call i c r s)) = quits (to_command s) @ quits (case c of Queue_push_to_command m \<Rightarrow>
    (if r = Ret_bool True then [m] else []) | _ \<Rightarrow> [])"
  by (cases c; cases r) (simp_all add: record_call_def log_event_def split: bool.splits)

lemma ended_with_move:
  assumes "ended_with s sk" "actors s' = (actors s)(i \<mapsto> A')" "\<And>A. actors s i = Some A \<Longrightarrow> a_phase A \<noteq> Terminated"
  shows "ended_with s' sk"
proof -
  obtain j where j: "actors s j = Some \<lparr>a_socket = Some sk, a_phase = Terminated\<rparr>" using assms(1) by (auto simp: ended_with_def)
  with assms(3) have "j \<noteq> i" by auto
  with j show ?thesis by (auto simp: ended_with_def assms(2))
qed

lemma quits_ok_move:
  assumes "quits_ok s" "quits (to_command s') = quits (to_command s)" "actors s' = (actors s)(i \<mapsto> A')"
    "\<And>A. actors s i = Some A \<Longrightarrow> a_phase A \<noteq> Terminated"
  shows "quits_ok s'"
  using assms ended_with_move unfolding quits_ok_def by metis

text \<open>A turn sends no such message by itself.\<close>

lemma linked_push:
  assumes l: "linked \<sigma> C B n s" and i: "actors s i = Some A" "a_phase A = Handling D (Do (Queue_push_to_command m) k)"
  shows "\<exists>pid q r. m = Im_actor_create pid q r"
proof -
  have st: "in_stage (\<sigma> i) (Some A)" using channelsD(1) [OF linkedD(1) [OF l], of i] i(1) by simp
  let ?p = "Do (Queue_push_to_command m) k"
  have "\<not> plain_turn ?p" using plain_turn_do(1) [of "Queue_push_to_command m" k] by (auto simp: queue_call_def)
  moreover have "\<not> creates x y ?p" for x y by (simp add: creates_def)
  moreover have "?p \<noteq> awaiting x y" for x y using awaiting_step [of x y] by auto
  moreover have "?p \<noteq> collecting x y" for x y using collecting_step [of x y] by auto
  moreover have "?p \<noteq> reporting x" for x using reporting_step [of x] by auto
  ultimately obtain q r pid where "?p = announcing q r pid" using stage_handling [OF st i(2)] by blast
  with announcing_step [of q r pid] show ?thesis by auto
qed

lemma quits_ok_step:
  "sys_step_with allowed answered s s' \<Longrightarrow> linked \<sigma> C B n s \<Longrightarrow> own_sockets s \<Longrightarrow> quits_ok s \<Longrightarrow> quits_ok s'"
proof (induction rule: sys_step_with.induct)
  case (resume s i A D c k r st' p)
  have "quits (to_command (record_call i c r (s\<lparr>shared := st'\<rparr>))) = quits (to_command s)"
    using linked_push [OF resume.prems(1) resume.hyps(1)] resume.hyps(2)
    by (cases c) (auto simp: quits_record_call)
  then show ?case
    using resume.hyps(1,2) by (intro quits_ok_move [OF resume.prems(3), where i = i]) (auto simp: sys_ops)
next
  case (create s i A D m h q k pid st' p st'' p')
  have other: "pid \<noteq> i" using create.hyps(1,5) by auto
  have "quits_ok (set_phase i A (Handling D p) (s\<lparr>shared := st''\<rparr>))"
    using create.hyps(1,2) by (intro quits_ok_move [OF create.prems(3), where i = i]) (auto simp: sys_ops)
  then show ?case
    by (rule quits_ok_move [where i = pid]) (use create.hyps(5) other in \<open>auto simp: sys_ops\<close>)
next
  case (quit s i A D a se sk)
  let ?s = "set_phase i A Terminated (s\<lparr>to_command := to_command s @ [Im_actor_quit sk]\<rparr>)"
  have acts: "actors ?s = (actors s)(i \<mapsto> A\<lparr>a_phase := Terminated\<rparr>)" by (simp add: sys_ops)
  have "ended_with ?s sk" using quit.hyps(4) acts by (auto simp: ended_with_def intro!: exI [of _ i])
  moreover have "ended_with ?s x" if "ended_with s x" for x
    by (rule ended_with_move [OF that acts]) (use quit.hyps(1,2) in auto)
  moreover have "sk \<notin> set (quits (to_command s))"
  proof
    assume "sk \<in> set (quits (to_command s))"
    then obtain j where j: "actors s j = Some \<lparr>a_socket = Some sk, a_phase = Terminated\<rparr>"
      using quit.prems(3) by (auto simp: quits_ok_def ended_with_def)
    have "a_socket \<lparr>a_socket = Some sk, a_phase = Terminated\<rparr> = Some sk" by simp
    with quit.prems(2) j quit.hyps(1,4) have "j = i" unfolding own_sockets_def by blast
    with j quit.hyps(1,2) show False by simp
  qed
  ultimately show ?case using quit.prems(3) by (auto simp: quits_ok_def sys_ops)
next
  case (deliver s p d b)
  then show ?case by (simp add: quits_ok_def ended_with_def)
qed (erule quits_ok_move, simp add: sys_ops, simp add: sys_ops, simp)+

lemma own_sockets_whole: "whole_ok W \<Longrightarrow> own_sockets (sim W)"
proof -
  assume ok: "whole_ok W"
  from whole_okD(3) [OF ok] obtain \<sigma> where l: "linked \<sigma> (actor_connections (cmds W)) (boxes W) (messages_read W) (sim W)" by blast
  show "own_sockets (sim W)"
    using linkedD(4) [OF l] whole_okD(4) [OF ok] unfolding own_sockets_def sole_def by metis
qed

lemma final_no_quit:
  "start_simulation hosts args = (lcs, Inr calls) \<Longrightarrow> final_message calls = Some m \<Longrightarrow> quits [m] = []"
  by (auto simp: start_simulation_def maestro_def final_message_def Let_def
      split: sum.splits list.splits prod.splits option.splits)

lemma whole_reach_quits:
  "whole_reach hosts platform opts W \<Longrightarrow> quits_ok (sim W) \<and> (\<forall>m. last_words W = Some m \<longrightarrow> quits [m] = [])"
proof (induction rule: whole_reach.induct)
  case whole_init
  then show ?case by (simp add: init_whole_def quits_ok_def init_sys_def)
next
  case (whole_next W W')
  have ok: "whole_ok W" using whole_reach_ok [OF whole_next.hyps(1)] by blast
  from whole_okD(3) [OF ok] obtain \<sigma> where
    l: "linked \<sigma> (actor_connections (cmds W)) (boxes W) (messages_read W) (sim W)" by blast
  have q: "quits_ok (sim W)" "\<And>m. last_words W = Some m \<Longrightarrow> quits [m] = []" using whole_next.IH by blast+
  from whole_next.hyps(2) show ?case
  proof (cases rule: whole_step.cases)
    case (launch m lcs calls)
    have "quits_ok (init_sys (initial_actors calls))" by (simp add: quits_ok_def init_sys_def)
    with final_no_quit [OF launch(4)] show ?thesis by (simp add: launch(1))
  next
    case (simulate s')
    with quits_ok_step [OF simulate(2) l own_sockets_whole [OF ok] q(1)] q(2) show ?thesis by simp
  next
    case (pop i A qu m B s')
    with quits_ok_step [OF pop(5) l own_sockets_whole [OF ok] q(1)] q(2) show ?thesis by simp
  next
    case (finished m)
    with q show ?thesis by (simp add: quits_ok_def ended_with_def)
  qed (use q in simp_all)
qed

section \<open>What the threads rely on\<close>

lemma waiting_stage:
  assumes "in_stage x (Some A)" "at_call (Queue_wait q) A"
  shows "(\<exists>pid. x = Awaiting q pid \<and> a_socket A \<noteq> None) \<or> (x = Entering q \<and> a_socket A = None)"
proof -
  obtain D k where run: "running (a_phase A) = Some (D, Do (Queue_wait q) k)" using assms(2) by (auto simp: at_call_def)
  note A = assms(1)
  show ?thesis
  proof (cases "a_phase A")
    case (Connecting p)
    then have p: "a_phase A = Connecting (Do (Queue_wait q) k)" using run by simp
    from stage_connecting [OF A p] obtain r where r: "(x = Entering r \<and> Do (Queue_wait q) k \<in> {entering0 r, entering1 r, entering2 r}) \<or>
        Do (Queue_wait q) k = entering3 r" by blast
    then have "x = Entering q" using entering_steps(2-5) [of r] by auto
    with A show ?thesis by auto
  next
    case (Handling D' p)
    then have p: "a_phase A = Handling D (Do (Queue_wait q) k)" using run by simp
    have "\<not> plain_turn (Do (Queue_wait q) k)" using plain_turn_do(1) [of "Queue_wait q" k] by (auto simp: queue_call_def)
    moreover have "\<not> creates y z (Do (Queue_wait q) k)" for y z by (simp add: creates_def)
    moreover have "Do (Queue_wait q) k \<noteq> announcing y z w" for y z w using announcing_step [of y z w] by auto
    moreover have "Do (Queue_wait q) k \<noteq> collecting y z" for y z using collecting_step [of y z] by auto
    moreover have "Do (Queue_wait q) k \<noteq> reporting y" for y using reporting_step [of y] by auto
    ultimately obtain q' pid where r: "x = Awaiting q' pid" "Do (Queue_wait q) k = awaiting q' pid"
      using stage_handling [OF A p] by blast
    then have "q' = q" using awaiting_step [of q' pid] by auto
    with r(1) A show ?thesis by auto
  qed (use run in simp_all)
qed

lemma popping_stage:
  assumes "in_stage x (Some A)" "at_call (Queue_pop q) A"
  shows "(\<exists>pid. x = Collecting q pid \<and> a_socket A \<noteq> None) \<or> (x = Greeted q \<and> a_socket A = None)"
proof -
  obtain D k where run: "running (a_phase A) = Some (D, Do (Queue_pop q) k)" using assms(2) by (auto simp: at_call_def)
  note A = assms(1)
  show ?thesis
  proof (cases "a_phase A")
    case (Connecting p)
    then have p: "a_phase A = Connecting (Do (Queue_pop q) k)" using run by simp
    have "Do (Queue_pop q) k \<notin> {entering0 y, entering1 y, entering2 y}" for y using entering_steps(2-4) [of y] by auto
    then obtain r where r: "x = Greeted r" "Do (Queue_pop q) k = entering3 r" using stage_connecting [OF A p] by blast
    then have "x = Greeted q" using entering_steps(5) [of r] by auto
    with A show ?thesis by auto
  next
    case (Handling D' p)
    then have p: "a_phase A = Handling D (Do (Queue_pop q) k)" using run by simp
    have "\<not> plain_turn (Do (Queue_pop q) k)" using plain_turn_do(1) [of "Queue_pop q" k] by (auto simp: queue_call_def)
    moreover have "\<not> creates y z (Do (Queue_pop q) k)" for y z by (simp add: creates_def)
    moreover have "Do (Queue_pop q) k \<noteq> announcing y z w" for y z w using announcing_step [of y z w] by auto
    moreover have "Do (Queue_pop q) k \<noteq> awaiting y z" for y z using awaiting_step [of y z] by auto
    moreover have "Do (Queue_pop q) k \<noteq> reporting y" for y using reporting_step [of y] by auto
    ultimately obtain q' pid where r: "x = Collecting q' pid" "Do (Queue_pop q) k = collecting q' pid"
      using stage_handling [OF A p] by blast
    then have "q' = q" using collecting_step [of q' pid] by auto
    with r(1) A show ?thesis by auto
  qed (use run in simp_all)
qed

lemma creation_queues:
  assumes ch: "channels \<sigma> C B U Q acts" and m: "Im_actor_create pid q r \<in> set U"
  shows "q \<in> Q \<and> r \<in> Q \<and> umap_find C pid = None"
proof -
  note D = channelsD [OF ch]
  obtain k where k: "\<not> known C pid" "\<sigma> pid = Entering r" "\<sigma> k = Awaiting q pid" using D(7) [OF m] by (auto simp: report_ok_def)
  with D(2) [of pid] D(2) [of k] show ?thesis by simp
qed



text \<open>C10: a client that is told the identifier of a new actor can connect as that actor: as long as
  nobody has and the simulation runs, the command thread accepts the connection of any socket and sends it
  to the queue on which this actor waits for its client.\<close>

theorem told_actors_can_connect:
  assumes "whole_reach hosts platform opts W" "Tx a \<in> set (events (sim W) i)" "tells a = Some pid"
    "server_state (cmds W) = SIMULATION_RUNNING"
  shows "(\<exists>sk'. client (actor_connections (cmds W)) pid sk') \<or>
    (\<exists>q cs' A p. handle_command (KConnect pid) sk (cmds W) =
        Inr (False, [Push q (Im_actor_connected sk), Write_ack sk (ack_success_of True)], cs') \<and>
      client (actor_connections cs') pid sk \<and> actors (sim W) pid = Some A \<and> a_phase A = Connecting p \<and>
      p \<in> {entering0 q, entering1 q, entering2 q})"
proof -
  let ?C = "actor_connections (cmds W)"
  have ok: "whole_ok W" and fit: "fits ?C" using whole_reach_ok [OF assms(1)] by blast+
  from whole_okD(3) [OF ok] obtain \<sigma> where l: "linked \<sigma> ?C (boxes W) (messages_read W) (sim W)" by blast
  note L = linkedD [OF l]
  have "cs_ok (cmds W) (trace W)" using lives_ok [OF whole_okD(1) [OF ok] fit] by blast
  then have acks: "connect_ack c \<noteq> None" if "umap_find ?C j = Some c" "conn_socket c = None" for j c
    using assms(4) that unfolding cs_ok_def by simp
  have "known ?C pid" using L(5) assms(2,3) unfolding told_def by blast
  then obtain c where c: "umap_find ?C pid = Some c" by auto
  show ?thesis
  proof (cases "conn_socket c")
    case (Some sk')
    with c show ?thesis by (auto simp: client_def)
  next
    case None
    with acks c obtain q where q: "connect_ack c = Some q" by blast
    have "\<sigma> pid = Entering q" using channelsD(9) [OF L(1) c None q] .
    then have "in_stage (Entering q) (actors (sim W) pid)" using channelsD(1) [OF L(1), of pid] by simp
    then obtain A p where A: "actors (sim W) pid = Some A" "a_phase A = Connecting p" "p \<in> {entering0 q, entering1 q, entering2 q}"
      by auto
    have "\<exists>cs'. handle_command (KConnect pid) sk (cmds W) =
        Inr (False, [Push q (Im_actor_connected sk), Write_ack sk (ack_success_of True)], cs') \<and>
      client (actor_connections cs') pid sk"
      using assms(4) c None q by (simp add: command_defs client_def umap_simps Let_def)
    with A show ?thesis by blast
  qed
qed

section \<open>The creator goes on\<close>

lemma unread_report:
  assumes "whole_reach hosts platform opts W" "unread W = m # ms" "length (actor_connections (cmds W)) + length (unread W) < 2 ^ 31 - 2"
  shows "\<exists>W'. whole_step hosts platform opts W W' \<and> whole_reach hosts platform opts W' \<and> sim W' = sim W \<and> unread W' = ms \<and>
    length (actor_connections (cmds W')) + length ms < 2 ^ 31 - 2 \<and>
    (\<forall>pid q r. m = Im_actor_create pid q r \<longrightarrow> boxes W' q \<noteq> [])"
proof -
  let ?C = "actor_connections (cmds W)"
  have "whole_ok W" using whole_reach_ok [OF assms(1)] by blast
  from whole_okD(3) [OF this] obtain \<sigma> where l: "linked \<sigma> ?C (boxes W) (messages_read W) (sim W)" by blast
  have "report_ok ?C \<sigma> m"
    using channelsD(7) [OF linkedD(1) [OF l], of m] assms(2) by (simp add: unread_def [symmetric])
  then obtain effs cs' where r: "receive_report m (cmds W) = Inr (effs, cs')"
    by (cases m) (auto simp: receive_report_def report_ok_def register_actor_def)
  let ?W = "W\<lparr>cmds := cs', trace := trace W @ effs, boxes := pushes effs (boxes W), messages_read := Suc (messages_read W)\<rparr>"
  have step: "whole_step hosts platform opts W ?W" by (rule whole_step.report [OF assms(2) r])
  have "length (actor_connections cs') \<le> Suc (length ?C)"
    using r by (auto simp: receive_report_def register_actor_def length_umap_insert
        split: interthread_message.splits if_splits)
  then have fit: "length (actor_connections cs') + length ms < 2 ^ 31 - 2" using assms(2,3) by simp
  then have "whole_reach hosts platform opts ?W" by (intro whole_next [OF assms(1) step]) (simp add: fits_def)
  moreover have "drop (Suc (messages_read W)) (to_command (sim W)) = ms"
    using assms(2) unfolding unread_def by (metis drop_Suc tl_drop list.sel(3))
  moreover have "pushes effs (boxes W) q \<noteq> []" if "m = Im_actor_create pid q r'" for pid q r'
    using r that by (auto simp: receive_report_def register_actor_def split: if_splits)
  ultimately show ?thesis using step fit by (intro exI [of _ ?W]) (simp add: unread_def)
qed

lemma unread_acknowledged:
  "whole_reach hosts platform opts W \<Longrightarrow> Im_actor_create pid q r \<in> set (unread W) \<Longrightarrow>
     length (actor_connections (cmds W)) + length (unread W) < 2 ^ 31 - 2 \<Longrightarrow>
     \<exists>n W'. n \<le> length (unread W) \<and> (whole_step hosts platform opts ^^ n) W W' \<and> whole_reach hosts platform opts W' \<and>
       sim W' = sim W \<and> boxes W' q \<noteq> []"
proof (induction "unread W" arbitrary: W)
  case (Cons m ms)
  from unread_report [OF Cons.prems(1) Cons.hyps(2) [symmetric] Cons.prems(3)] obtain W1 where
    W1: "whole_step hosts platform opts W W1" "whole_reach hosts platform opts W1" "sim W1 = sim W" "unread W1 = ms"
      "length (actor_connections (cmds W1)) + length ms < 2 ^ 31 - 2"
      "m = Im_actor_create pid q r \<Longrightarrow> boxes W1 q \<noteq> []" by blast
  show ?case
  proof (cases "m = Im_actor_create pid q r")
    case True
    have "(whole_step hosts platform opts ^^ 1) W W1" using W1(1) by (simp only: relpowp_1)
    moreover have "1 \<le> length (unread W)" unfolding Cons.hyps(2) [symmetric] by simp
    ultimately show ?thesis using W1(2,3) W1(6) [OF True] by blast
  next
    case False
    then have "Im_actor_create pid q r \<in> set (unread W1)" using Cons.prems(2) unfolding Cons.hyps(2) [symmetric] W1(4) by simp
    with Cons.hyps(1) [of W1] W1 obtain n W' where n: "n \<le> length ms" "(whole_step hosts platform opts ^^ n) W1 W'"
      "whole_reach hosts platform opts W'" "sim W' = sim W" "boxes W' q \<noteq> []" by auto
    have "(whole_step hosts platform opts ^^ Suc n) W W'" using W1(1) n(2) by (rule relpowp_Suc_I2)
    moreover have "Suc n \<le> length (unread W)" unfolding Cons.hyps(2) [symmetric] using n(1) by simp
    ultimately show ?thesis using n(3-5) by blast
  qed
qed simp


section \<open>A run\<close>

text \<open>One actor on the host \<open>h\<close>, with the identifier 2 and the client 12, creates another one, 3.\<close>

definition one_connection :: actor_connection where
  "one_connection = \<lparr>actor_name = ''a'', host_name = ''h'', actor_id = 2, conn_socket = Some 12, connect_ack = None\<rparr>"

definition run_state :: "connections \<Rightarrow> command_state" where
  "run_state C = \<lparr>server_state = SIMULATION_RUNNING, actor_connections = C, nb_connected_actors = 1\<rparr>"

definition a_run :: "whole \<Rightarrow> connections \<Rightarrow> (queue \<Rightarrow> interthread_message list) \<Rightarrow> interthread_message list \<Rightarrow>
    phase \<Rightarrow> actor option \<Rightarrow> server \<Rightarrow> io_event list \<Rightarrow> bool" where
  "a_run W C B U ph X st evs \<longleftrightarrow> whole_reach (\<lambda>p. [''h'']) ''p'' [] W \<and> cmds W = run_state C \<and> boxes W = B \<and>
     unread W = U \<and> messages_read W \<le> length (to_command (sim W)) \<and>
     actors (sim W) = (\<lambda>i. if i = 2 then Some \<lparr>a_socket = Some 12, a_phase = ph\<rparr> else if i = 3 then X else None) \<and>
     shared (sim W) = st \<and> events (sim W) 2 = evs \<and> fits C \<and>
     (X = None \<or> X = Some \<lparr>a_socket = None, a_phase = Connecting (entering0 1)\<rparr>)"

lemma reach_command:
  assumes "whole_reach hosts platform opts W" "handle_command cmd sk (cmds W) = Inr (d, effs, cs')"
    "list_all (\<lambda>(i, c). conn_socket c \<noteq> Some sk) (actor_connections (cmds W))"
    "fits (actor_connections cs')" "pushes effs (boxes W) = boxes W"
  shows "\<exists>W'. whole_reach hosts platform opts W' \<and> cmds W' = cs' \<and> trace W' = trace W @ effs \<and>
    boxes W' = boxes W \<and> sim W' = sim W \<and> messages_read W' = messages_read W \<and> launched W' = launched W"
proof -
  have "conn_socket c \<noteq> Some sk" if "umap_find (actor_connections (cmds W)) i = Some c" for i c
    using umap_find_mem [OF that] assms(3) by (auto simp: list_all_iff)
  from whole_next [OF assms(1) whole_step.command [OF assms(2) this]] assms(4,5) show ?thesis
    by (intro exI [of _ "W\<lparr>cmds := cs', trace := trace W @ effs, boxes := pushes effs (boxes W)\<rparr>"]) simp
qed

lemma a_run_starts: "\<exists>W. a_run W [(2, one_connection)] (\<lambda>q. []) [] Starting None empty_server []"
proof -
  let ?reach = "whole_reach (\<lambda>p. [''h'']) ''p'' []"
  let ?c = "one_connection\<lparr>conn_socket := None\<rparr>"
  have W0: "?reach init_whole" by (rule whole_init)
  have c1: "handle_command (KAddActor ''a'' ''h'') 10 (cmds init_whole) =
      Inr (True, [Write_ack 10 ((ack_success_of True)\<lparr>ack_actor := Some 2\<rparr>)], init_command_state\<lparr>actor_connections := [(2, ?c)]\<rparr>)"
    by (simp add: command_defs init_whole_def init_command_state_def one_connection_def new_connection_def c_str_def
        umap_insert_def Let_def)
  obtain W1 where W1: "?reach W1" "cmds W1 = init_command_state\<lparr>actor_connections := [(2, ?c)]\<rparr>"
    "boxes W1 = (\<lambda>q. [])" "sim W1 = init_sys []" "messages_read W1 = 0" "\<not> launched W1"
    using reach_command [OF W0 c1] by (auto simp: init_whole_def init_command_state_def fits_def umap_find_def)
  have c2: "handle_command (KConnect 2) 12 (cmds W1) = Inr (False, [Write_ack 12 (ack_success_of True)],
      init_command_state\<lparr>actor_connections := [(2, one_connection)], nb_connected_actors := 1\<rparr>)"
    by (simp add: command_defs W1(2) init_command_state_def one_connection_def umap_find_def umap_set_def Let_def)
  obtain W2 where W2: "?reach W2" "cmds W2 = init_command_state\<lparr>actor_connections := [(2, one_connection)], nb_connected_actors := 1\<rparr>"
    "boxes W2 = (\<lambda>q. [])" "sim W2 = init_sys []" "messages_read W2 = 0" "\<not> launched W2"
    using reach_command [OF W1(1) c2] W1 by (auto simp: one_connection_def fits_def umap_find_def split: if_splits)
  have c3: "handle_command (KStart True) 10 (cmds W2) = Inr (True, [Start_simulation [(2, one_connection)],
      Write_ack 10 (ack_success_of True)], run_state [(2, one_connection)])"
    by (simp add: command_defs W2(2) init_command_state_def all_connected_def run_state_def)
  obtain W3 where W3: "?reach W3" "cmds W3 = run_state [(2, one_connection)]" "Start_simulation [(2, one_connection)] \<in> set (trace W3)"
    "boxes W3 = (\<lambda>q. [])" "sim W3 = init_sys []" "messages_read W3 = 0" "\<not> launched W3"
    using reach_command [OF W2(1) c3] W2 by (auto simp: one_connection_def run_state_def fits_def umap_find_def split: if_splits)
  obtain lcs calls where l: "start_simulation (\<lambda>p. [''h'']) (start_simulation_in_another_thread ''p'' [] [(2, one_connection)]) =
      (lcs, Inr calls)" "initial_actors calls = [(2, 12)]"
    by (simp add: start_simulation_def start_simulation_in_another_thread_def connections_unorderedmap_to_vector_def
        one_connection_def maestro_def spawn_def initial_actors_def Let_def)
  let ?W = "W3\<lparr>launched := True, sim := init_sys (initial_actors calls), last_words := final_message calls\<rparr>"
  have fits: "fits (actor_connections (run_state [(2, one_connection)]))" by (simp add: fits_def run_state_def)
  have "?reach ?W"
    using whole_next [OF W3(1) whole_step.launch [OF W3(3,7) l(1)]] fits W3(2) by simp
  then have "a_run ?W [(2, one_connection)] (\<lambda>q. []) [] Starting None empty_server []"
    using W3 fits by (simp add: a_run_def unread_def l(2)) (auto simp: init_sys_def run_state_def fun_eq_iff)
  then show ?thesis by blast
qed

lemma a_run_facts:
  assumes "a_run W C B U ph X st evs"
  shows "actors (sim W) 2 = Some \<lparr>a_socket = Some 12, a_phase = ph\<rparr>" "exclusive (sim W) 2" "drops_allowed (sim W) 2 {}"
    "shared (sim W) = st" "events (sim W) 2 = evs" "boxes W = B" "fits C" "cmds W = run_state C"
    "whole_reach (\<lambda>p. [''h'']) ''p'' [] W" "unread W = U"
proof -
  have "entering0 1 \<noteq> Done out" for out using creation_calls(6) by blast
  moreover have "\<not> holds_thread (Connecting (entering0 1))"
    using entering_steps(2) [of 1] by (auto simp: io_call_def)
  ultimately show "exclusive (sim W) 2" using assms by (auto simp: a_run_def exclusive_def split: if_splits)
qed (use assms in \<open>simp_all add: a_run_def drops_allowed_def\<close>)

text \<open>The next state, of which only the simulation has changed.\<close>

lemma a_run_move:
  assumes r: "a_run W C B U ph X st evs" and step: "sys_step_with drops_allowed (answered_by B) (sim W) s'"
    and s': "actors s' = (\<lambda>i. if i = 2 then Some \<lparr>a_socket = Some 12, a_phase = ph'\<rparr> else if i = 3 then X' else None)"
      "to_command s' = to_command (sim W) @ V" "shared s' = st'" "events s' 2 = evs'"
    and X': "X' = None \<or> X' = Some \<lparr>a_socket = None, a_phase = Connecting (entering0 1)\<rparr>"
  shows "\<exists>W'. a_run W' C B (U @ V) ph' X' st' evs'"
proof -
  have "whole_reach (\<lambda>p. [''h'']) ''p'' [] (W\<lparr>sim := s'\<rparr>)"
    using whole_next [OF a_run_facts(9) [OF r] whole_step.simulate [of W s']] step a_run_facts(6-8) [OF r] by (simp add: run_state_def)
  then have "a_run (W\<lparr>sim := s'\<rparr>) C B (U @ V) ph' X' st' evs'"
    using r s' X' by (auto simp: a_run_def unread_def)
  then show ?thesis by blast
qed

lemma a_run_update:
  "a_run W C B U ph X st evs \<Longrightarrow> (actors (sim W))(2 \<mapsto> \<lparr>a_socket = Some 12, a_phase = ph'\<rparr>) =
     (\<lambda>i. if i = 2 then Some \<lparr>a_socket = Some 12, a_phase = ph'\<rparr> else if i = 3 then X else None)"
  by (auto simp: a_run_def fun_eq_iff)

lemma a_run_other: "a_run W C B U ph X st evs \<Longrightarrow> X = None \<or> X = Some \<lparr>a_socket = None, a_phase = Connecting (entering0 1)\<rparr>"
  by (simp add: a_run_def)

lemma a_run_resume:
  assumes r: "a_run W C B U (Handling {} (Do c k)) X st evs"
    and a: "well_typed c x" "s4u_ok c x st" "answered_by B c x" "\<And>n h q. c \<noteq> Actor_create n h q" "k x st = (st', p)"
    and V: "to_command (record_call 2 c x (sim W\<lparr>shared := st'\<rparr>)) = to_command (sim W) @ V"
  shows "\<exists>W'. a_run W' C B (U @ V) (Handling {} p) X st' (evs @ tx (sent c x))"
proof (rule a_run_move [OF r sys_step_with.resume])
  note F = a_run_facts [OF r]
  show "actors (sim W) 2 = Some \<lparr>a_socket = Some 12, a_phase = Handling {} (Do c k)\<rparr>" by (rule F(1))
  show "k x (shared (sim W)) = (st', p)" using a(5) F(4) by simp
  show "X = None \<or> X = Some \<lparr>a_socket = None, a_phase = Connecting (entering0 1)\<rparr>" by (rule a_run_other [OF r])
  show "actors (set_phase 2 \<lparr>a_socket = Some 12, a_phase = Handling {} (Do c k)\<rparr> (Handling {} p)
      (record_call 2 c x (sim W\<lparr>shared := st'\<rparr>))) = (\<lambda>i. if i = 2 then Some \<lparr>a_socket = Some 12, a_phase = Handling {} p\<rparr>
        else if i = 3 then X else None)"
    using a_run_update [OF r] by (simp add: sys_ops)
  show "events (set_phase 2 \<lparr>a_socket = Some 12, a_phase = Handling {} (Do c k)\<rparr> (Handling {} p)
      (record_call 2 c x (sim W\<lparr>shared := st'\<rparr>))) 2 = evs @ tx (sent c x)"
    using F(5) by (simp add: sys_ops events_record_call)
qed (use a a_run_facts [OF r] V in \<open>simp_all add: sys_ops\<close>)

definition create_decision :: decision where
  "create_decision = no_think (KActorCreate ''b'' ''h'')"

lemma a_run_asks:
  "\<exists>W st k. a_run W [(2, one_connection)] (\<lambda>q. []) [] (Handling {} (Do (Actor_create ''b'' ''h'' 1) k)) None st
     [Rx create_decision] \<and> creates 0 1 (Do (Actor_create ''b'' ''h'' 1) k) \<and> queues st = {0, 1}"
proof -
  let ?C = "[(2, one_connection)]" and ?B = "\<lambda>q::queue. [] :: interthread_message list"
  obtain W0 where r0: "a_run W0 ?C ?B [] Starting None empty_server []" using a_run_starts by blast
  note F0 = a_run_facts [OF r0]
  have "\<exists>W'. a_run W' ?C ?B ([] @ []) Reading None empty_server []"
    by (rule a_run_move [OF r0 sys_step_with.start [OF F0(1) _ F0(2)]])
      (use F0 a_run_update [OF r0] in \<open>simp_all add: sys_ops\<close>)
  then obtain W1 where r1: "a_run W1 ?C ?B [] Reading None empty_server []" by auto
  note F1 = a_run_facts [OF r1]
  have es: "next_ptr empty_server = 0" "queues empty_server = {}" by (simp_all add: empty_server_def)
  let ?st = "empty_server\<lparr>queues := {1, 0}, next_ptr := 2\<rparr>"
  let ?p = "snd (bind_code (call_int (Actor_create ''b'' ''h'' 1) (announce_actor 0 1)) send_reply empty_server)"
  have "\<exists>k. ?p = Do (Actor_create ''b'' ''h'' 1) k \<and> creates 0 1 (Do (Actor_create ''b'' ''h'' 1) k)"
    by (auto simp: creates_def bind_code_def call_int_def announcing_def announce_actor_def call_bool_def)
  moreover have "\<exists>k. actor_turn create_decision empty_server = (empty_server, Do (Host_by_name ''h'') k) \<and> k Ret_unit empty_server = (?st, ?p)"
    by (simp add: actor_turn_def bind_code_def handle_decision_def create_decision_def no_think_def handle_actor_create_queues
        call_unit_def call_int_def c_str_def es numeral_2_eq_2 cong: answer.case_cong)
  ultimately obtain k k' where p: "?p = Do (Actor_create ''b'' ''h'' 1) k" "creates 0 1 (Do (Actor_create ''b'' ''h'' 1) k)"
    and turn: "actor_turn create_decision empty_server = (empty_server, Do (Host_by_name ''h'') k')" "k' Ret_unit empty_server = (?st, ?p)"
    by blast
  have drops: "drops (type_case create_decision) = {}" by (simp add: drops_def create_decision_def no_think_def)
  have "\<exists>W'. a_run W' ?C ?B ([] @ []) (Handling {} (Do (Host_by_name ''h'') k')) None empty_server [Rx create_decision]"
    by (rule a_run_move [OF r1 sys_step_with.read [OF F1(1) _ F1(2), where d = create_decision]])
      (use F1 a_run_update [OF r1] turn(1) drops in \<open>simp_all add: sys_ops\<close>)
  then obtain W2 where r2: "a_run W2 ?C ?B [] (Handling {} (Do (Host_by_name ''h'') k')) None empty_server [Rx create_decision]" by auto
  have "\<exists>W'. a_run W' ?C ?B ([] @ []) (Handling {} ?p) None ?st ([Rx create_decision] @ tx (sent (Host_by_name ''h'') Ret_unit))"
    by (rule a_run_resume [OF r2, where p = ?p]) (simp_all add: turn(2) well_typed_def call_shape_def s4u_ok_def answered_by_def record_call_def)
  then obtain W3 where "a_run W3 ?C ?B [] (Handling {} ?p) None ?st [Rx create_decision]" by (auto simp: sent_def tx_def)
  then show ?thesis unfolding p(1) using p(2) by (intro exI conjI) (assumption, assumption, auto)
qed

definition new_actor :: actor where
  "new_actor = \<lparr>a_socket = None, a_phase = Connecting (entering0 1)\<rparr>"

definition two_connections :: connections where
  "two_connections = [(3, new_connection\<lparr>actor_id := 3, connect_ack := Some 1\<rparr>), (2, one_connection)]"

text \<open>The message about the new actor is sent.\<close>

lemma a_run_announces:
  "\<exists>W st. a_run W [(2, one_connection)] (\<lambda>q. []) [Im_actor_create 3 0 1] (Handling {} (awaiting 0 3)) (Some new_actor) st
     [Rx create_decision] \<and> queues st = {0, 1}"
proof -
  let ?C = "[(2, one_connection)]" and ?B = "\<lambda>q::queue. [] :: interthread_message list"
  obtain W st k where r: "a_run W ?C ?B [] (Handling {} (Do (Actor_create ''b'' ''h'' 1) k)) None st [Rx create_decision]"
    and k: "creates 0 1 (Do (Actor_create ''b'' ''h'' 1) k)" "queues st = {0, 1}" using a_run_asks by blast
  note F = a_run_facts [OF r]
  have k3: "k (Ret_int 3) (shared (sim W)) = (st, announcing 0 1 3)" using k(1) F(4) by (auto simp: creates_def)
  have none: "actors (sim W) 3 = None" using r by (simp add: a_run_def)
  have "\<exists>W'. a_run W' ?C ?B ([] @ []) (Handling {} (announcing 0 1 3)) (Some new_actor) st [Rx create_decision]"
  proof (rule a_run_move [OF r sys_step_with.create [where allowed = drops_allowed and s = "sim W" and i = 2 and D = "{}" and k = k and pid = 3 and st' = st and p = "announcing 0 1 3"
      and q = 1 and st'' = st and p' = "entering0 1", OF F(1) _ F(2,3) none k3 entering_steps(1)]])
    show "actors (set_actor 3 \<lparr>a_socket = None, a_phase = Connecting (entering0 1)\<rparr>
        (set_phase 2 \<lparr>a_socket = Some 12, a_phase = Handling {} (Do (Actor_create ''b'' ''h'' 1) k)\<rparr>
          (Handling {} (announcing 0 1 3)) (sim W\<lparr>shared := st\<rparr>))) =
      (\<lambda>i. if i = 2 then Some \<lparr>a_socket = Some 12, a_phase = Handling {} (announcing 0 1 3)\<rparr>
        else if i = 3 then Some new_actor else None)"
      using r by (auto simp: a_run_def sys_ops new_actor_def fun_eq_iff)
  qed (use F in \<open>simp_all add: sys_ops new_actor_def\<close>)
  then obtain W1 where r1: "a_run W1 ?C ?B [] (Handling {} (announcing 0 1 3)) (Some new_actor) st [Rx create_decision]" by auto
  obtain k1 where k1: "announcing 0 1 3 = Do (Queue_push_to_command (Im_actor_create 3 0 1)) k1" "k1 (Ret_bool True) st = (st, awaiting 0 3)"
    using announcing_step by blast
  have "\<exists>W'. a_run W' ?C ?B ([] @ [Im_actor_create 3 0 1]) (Handling {} (awaiting 0 3)) (Some new_actor) st
      ([Rx create_decision] @ tx (sent (Queue_push_to_command (Im_actor_create 3 0 1)) (Ret_bool True)))"
    by (rule a_run_resume [OF r1 [unfolded k1(1)]])
      (simp_all add: k1(2) well_typed_def call_shape_def s4u_ok_def answered_by_def record_call_def)
  with k(2) show ?thesis by (auto simp: sent_def tx_def)
qed

text \<open>The creator's client is told the identifier.\<close>

lemma a_run_told:
  "\<exists>W st B evs. a_run W two_connections B [] (Handling {} (Done (Handled (report_ack 3) False False))) (Some new_actor) st evs \<and>
     Tx (report_ack 3) \<in> set evs"
proof -
  let ?C = "[(2, one_connection)]" and ?B = "(\<lambda>q. [])(0 := [Im_actor_create_ack])"
  let ?reach = "whole_reach (\<lambda>p. [''h'']) ''p'' []"
  obtain W st where r: "a_run W ?C (\<lambda>q. []) [Im_actor_create 3 0 1] (Handling {} (awaiting 0 3)) (Some new_actor) st
     [Rx create_decision]" using a_run_announces by blast
  note F = a_run_facts [OF r]
  have rep: "receive_report (Im_actor_create 3 0 1) (cmds W) = Inr ([Push 0 Im_actor_create_ack], run_state two_connections)"
    by (simp add: receive_report_def F(8) register_actor_def run_state_def umap_find_def umap_insert_def two_connections_def)
  have fit: "fits two_connections" by (simp add: fits_def two_connections_def)
  let ?W1 = "W\<lparr>cmds := run_state two_connections, trace := trace W @ [Push 0 Im_actor_create_ack], boxes := ?B,
      messages_read := Suc (messages_read W)\<rparr>"
  have "?reach ?W1"
    using whole_next [OF F(9) whole_step.report [OF F(10) rep]] F(6) fit by (simp add: run_state_def)
  moreover have "drop (Suc (messages_read W)) (to_command (sim W)) = []" "Suc (messages_read W) \<le> length (to_command (sim W))"
    using F(10) unfolding unread_def by (metis drop_Suc tl_drop list.sel(3), metis Suc_leI drop_all list.distinct(1) not_le)
  ultimately have r1: "a_run ?W1 two_connections ?B [] (Handling {} (awaiting 0 3)) (Some new_actor) st [Rx create_decision]"
    using r fit by (simp add: a_run_def unread_def)
  obtain k1 where k1: "awaiting 0 3 = Do (Queue_wait 0) k1" "k1 Ret_unit st = (st, collecting 0 3)"
    using awaiting_step by blast
  have "\<exists>W'. a_run W' two_connections ?B ([] @ []) (Handling {} (collecting 0 3)) (Some new_actor) st
      ([Rx create_decision] @ tx (sent (Queue_wait 0) Ret_unit))"
    by (rule a_run_resume [OF r1 [unfolded k1(1)]])
      (simp_all add: k1(2) well_typed_def call_shape_def s4u_ok_def answered_by_def record_call_def)
  then obtain W2 where r2: "a_run W2 two_connections ?B [] (Handling {} (collecting 0 3)) (Some new_actor) st [Rx create_decision]"
    by (auto simp: sent_def tx_def)
  note F2 = a_run_facts [OF r2]
  let ?st = "st\<lparr>queues := queues st - {0}\<rparr>" and ?m = "Some Im_actor_create_ack"
  obtain k2 where k2: "collecting 0 3 = Do (Queue_pop 0) k2" "k2 (Ret_msg ?m) (shared (sim W2)) = (?st, reporting 3)"
    using collecting_step [of 0 3] F2(4) by blast
  let ?A = "\<lparr>a_socket = Some 12, a_phase = Handling {} (Do (Queue_pop 0) k2)\<rparr>"
  let ?s = "set_phase 2 ?A (Handling {} (reporting 3)) (record_call 2 (Queue_pop 0) (Ret_msg ?m) (sim W2\<lparr>shared := ?st\<rparr>))"
  have A: "actors (sim W2) 2 = Some ?A" using F2(1) by (simp add: k2(1))
  have step: "sys_step_with drops_allowed (popped 0 ?m) (sim W2) ?s"
    by (rule sys_step_with.resume [where allowed = drops_allowed and s = "sim W2" and i = 2 and D = "{}" and k = k2 and c = "Queue_pop 0" and r = "Ret_msg ?m" and st' = ?st
        and p = "reporting 3", OF A _ F2(2,3) _ _ _ _ k2(2)])
      (simp_all add: well_typed_def call_shape_def s4u_ok_def popped_def)
  have pop: "pop_box 0 (boxes W2) = (?m, \<lambda>q. [])" by (simp add: F2(6) pop_box_def fun_eq_iff)
  have "reporting 3 \<noteq> Do (Queue_pop 0) k2" using reporting_step [of 3] by auto
  then have moved: "actors ?s 2 \<noteq> Some ?A" by (simp add: sys_ops)
  have "at_call (Queue_pop 0) ?A" by (simp add: at_call_def)
  from whole_next [OF F2(9) whole_step.pop [OF A this pop step moved]] F2(8) fit
  have "?reach (W2\<lparr>sim := ?s, boxes := (\<lambda>q. [])\<rparr>)" by (simp add: run_state_def)
  then have r3: "a_run (W2\<lparr>sim := ?s, boxes := (\<lambda>q. [])\<rparr>) two_connections (\<lambda>q. []) [] (Handling {} (reporting 3)) (Some new_actor) ?st
      [Rx create_decision]"
    using r2 by (auto simp: a_run_def unread_def sys_ops record_call_def fun_eq_iff)
  obtain k3 where k3: "reporting 3 = Do (Socket_write (report_ack 3)) k3"
      "k3 Ret_unit ?st = (?st, Done (Handled (report_ack 3) False False))"
    by (simp add: creation_defs call_unit_def finish_def send_reply_def)
  have "\<exists>W'. a_run W' two_connections (\<lambda>q. []) ([] @ []) (Handling {} (Done (Handled (report_ack 3) False False))) (Some new_actor) ?st
      ([Rx create_decision] @ tx (sent (Socket_write (report_ack 3)) Ret_unit))"
    by (rule a_run_resume [OF r3 [unfolded k3(1)]])
      (simp_all add: k3(2) well_typed_def call_shape_def s4u_ok_def answered_by_def record_call_def log_event_def)
  then obtain W4 where "a_run W4 two_connections (\<lambda>q. []) [] (Handling {} (Done (Handled (report_ack 3) False False))) (Some new_actor) ?st
      [Rx create_decision, Tx (report_ack 3)]" by (auto simp: sent_def tx_def)
  then show ?thesis by (intro exI conjI) (assumption, simp)
qed




theorem told_actors_can_connect_witness:
  "\<exists>W A cs'. whole_reach (\<lambda>p. [''h'']) ''p'' [] W \<and> Tx (report_ack 3) \<in> set (events (sim W) 2) \<and>
     handle_command (KConnect 3) 20 (cmds W) = Inr (False, [Push 1 (Im_actor_connected 20), Write_ack 20 (ack_success_of True)], cs') \<and>
     actors (sim W) 3 = Some A \<and> a_phase A = Connecting (entering0 1)"
proof -
  obtain W st B evs where r: "a_run W two_connections B [] (Handling {} (Done (Handled (report_ack 3) False False))) (Some new_actor) st evs"
    "Tx (report_ack 3) \<in> set evs" using a_run_told by blast
  note F = a_run_facts [OF r(1)]
  have told: "Tx (report_ack 3) \<in> set (events (sim W) 2)" using F(5) r(2) by simp
  have running: "server_state (cmds W) = SIMULATION_RUNNING" by (simp add: F(8) run_state_def)
  have "tells (report_ack 3) = Some 3" by (simp add: report_ack_def)
  moreover have "\<not> client (actor_connections (cmds W)) 3 sk" for sk
    by (simp add: F(8) run_state_def two_connections_def client_def umap_find_def new_connection_def)
  ultimately obtain q cs' where q: "handle_command (KConnect 3) 20 (cmds W) =
      Inr (False, [Push q (Im_actor_connected 20), Write_ack 20 (ack_success_of True)], cs')"
    using told_actors_can_connect [OF F(9) told _ running, of 3 20] by blast
  then have "q = 1"
    by (simp add: F(8) run_state_def two_connections_def command_defs umap_find_def new_connection_def Let_def)
  moreover have "actors (sim W) 3 = Some new_actor" using r(1) by (simp add: a_run_def)
  moreover have "a_phase new_actor = Connecting (entering0 1)" by (simp add: new_actor_def)
  ultimately show ?thesis using F(9) told q by blast
qed

end
