(* ===== verification/Client_Api.thy ===== *)
theory Client_Api
  imports Handler_Facts
begin

text \<open>
  The methods of the client library (\<^verbatim>\<open>src/librsg\<close>): the decision each method sends and
  what it makes of the acknowledgment. The theory shows that the server's acknowledgments are
  those the methods expect, and what a client observes of the server's behaviour.
\<close>

section \<open>Reading an acknowledgment\<close>

text \<open>The generated accessors: the field, or its default when another field is set.\<close>

definition get_actorGetName :: "ack_data \<Rightarrow> string" where
  "get_actorGetName x = (case x of A_actorGetName n \<Rightarrow> n | _ \<Rightarrow> [])"

definition get_actorGetHost :: "ack_data \<Rightarrow> string" where
  "get_actorGetHost x = (case x of A_actorGetHost n \<Rightarrow> n | _ \<Rightarrow> [])"

definition get_actorCreate :: "ack_data \<Rightarrow> int" where
  "get_actorCreate x = (case x of A_actorCreate i \<Rightarrow> i | _ \<Rightarrow> 0)"

definition get_commWaitFor :: "ack_data \<Rightarrow> bool \<times> bytes" where
  "get_commWaitFor x = (case x of A_commWaitFor t d \<Rightarrow> (t, d) | _ \<Rightarrow> (False, []))"

definition get_commTest :: "ack_data \<Rightarrow> bool \<times> bytes" where
  "get_commTest x = (case x of A_commTest t d \<Rightarrow> (t, d) | _ \<Rightarrow> (False, []))"

definition get_commWaitAnyFor :: "ack_data \<Rightarrow> int \<times> bytes" where
  "get_commWaitAnyFor x = (case x of A_commWaitAnyFor i d \<Rightarrow> (i, d) | _ \<Rightarrow> (0, []))"

definition get_engineGetClock :: "ack_data \<Rightarrow> double" where
  "get_engineGetClock x = (case x of A_engineGetClock t \<Rightarrow> t | _ \<Rightarrow> Finite 0)"

definition get_hostCurrent :: "ack_data \<Rightarrow> string" where
  "get_hostCurrent x = (case x of A_hostCurrent n \<Rightarrow> n | _ \<Rightarrow> [])"

definition get_mailboxPutAsync :: "ack_data \<Rightarrow> u64" where
  "get_mailboxPutAsync x = (case x of A_mailboxPutAsync a \<Rightarrow> a | _ \<Rightarrow> 0)"

definition get_mailboxGet :: "ack_data \<Rightarrow> bytes" where
  "get_mailboxGet x = (case x of A_mailboxGet d \<Rightarrow> d | _ \<Rightarrow> [])"

definition get_mailboxGetAsync :: "ack_data \<Rightarrow> u64" where
  "get_mailboxGetAsync x = (case x of A_mailboxGetAsync a \<Rightarrow> a | _ \<Rightarrow> 0)"

definition get_mutexCreate :: "ack_data \<Rightarrow> u64" where
  "get_mutexCreate x = (case x of A_mutexCreate a \<Rightarrow> a | _ \<Rightarrow> 0)"

definition get_mutexTryLock :: "ack_data \<Rightarrow> bool" where
  "get_mutexTryLock x = (case x of A_mutexTryLock b \<Rightarrow> b | _ \<Rightarrow> False)"

definition get_conditionVariableCreate :: "ack_data \<Rightarrow> u64" where
  "get_conditionVariableCreate x = (case x of A_conditionVariableCreate a \<Rightarrow> a | _ \<Rightarrow> 0)"

definition get_conditionVariableWaitFor :: "ack_data \<Rightarrow> cv_status" where
  "get_conditionVariableWaitFor x = (case x of A_conditionVariableWaitFor s \<Rightarrow> s | _ \<Rightarrow> No_timeout)"

definition get_conditionVariableWaitUntil :: "ack_data \<Rightarrow> cv_status" where
  "get_conditionVariableWaitUntil x = (case x of A_conditionVariableWaitUntil s \<Rightarrow> s | _ \<Rightarrow> No_timeout)"

lemmas getter_defs = get_actorGetName_def get_actorGetHost_def get_actorCreate_def get_commWaitFor_def
  get_commTest_def get_commWaitAnyFor_def get_engineGetClock_def get_hostCurrent_def
  get_mailboxPutAsync_def get_mailboxGet_def get_mailboxGetAsync_def get_mutexCreate_def
  get_mutexTryLock_def get_conditionVariableCreate_def get_conditionVariableWaitFor_def
  get_conditionVariableWaitUntil_def

section \<open>The methods\<close>

text \<open>The end of the formats that quote a name: \<^verbatim>\<open>'%s'\<close>.\<close>

definition quoted_s :: string where
  "quoted_s = [CHR 0x27, CHR ''%'', CHR ''s'', CHR 0x27]"

text \<open>A method: the decision, and the result read from the acknowledgment, or an error.\<close>

type_synonym 'a client_call = "decision_type \<times> (decision_ack \<Rightarrow> rsg_error + 'a)"

definition enforce_success :: "decision_ack \<Rightarrow> rsg_error \<Rightarrow> (ack_data \<Rightarrow> rsg_error + 'a) \<Rightarrow> rsg_error + 'a" where
  "enforce_success ack e k = (if success ack then k (ack_data ack) else Inl e)"

subsection \<open>Actors and this\_actor\<close>

definition actor_create :: "string \<Rightarrow> string \<Rightarrow> int client_call" where
  "actor_create name host = (KActorCreate name host, \<lambda>ack.
     enforce_success ack ''Could not create a new Actor'' (\<lambda>x. Inr (get_actorCreate x)))"

definition actor_join :: "int \<Rightarrow> double \<Rightarrow> unit client_call" where
  "actor_join i timeout = (KActorJoin i timeout, \<lambda>ack.
     enforce_success ack ''Actor(id=%d) does not exist in the simulation'' (\<lambda>_. Inr ()))"

definition actor_get_host :: "int \<Rightarrow> string client_call" where
  "actor_get_host i = (KActorGetHost i, \<lambda>ack.
     enforce_success ack ''Actor(id=%d) does not exist in the simulation'' (\<lambda>x. Inr (get_actorGetHost x)))"

definition actor_get_name :: "int \<Rightarrow> string client_call" where
  "actor_get_name i = (KActorGetName i, \<lambda>ack.
     enforce_success ack ''Actor(id=%d) does not exist in the simulation'' (\<lambda>x. Inr (get_actorGetName x)))"

text \<open>The failures of these methods are not looked at.\<close>

definition this_actor_execute :: "double \<Rightarrow> unit client_call" where
  "this_actor_execute flop = (KThisActorExecute flop, \<lambda>ack. Inr ())"

definition this_actor_sleep_for :: "double \<Rightarrow> unit client_call" where
  "this_actor_sleep_for duration = (KThisActorSleepFor duration, \<lambda>ack. Inr ())"

definition this_actor_sleep_until :: "double \<Rightarrow> unit client_call" where
  "this_actor_sleep_until t = (KThisActorSleepUntil t, \<lambda>ack. Inr ())"

definition this_actor_yield :: "unit client_call" where
  "this_actor_yield = (KThisActorYield True, \<lambda>ack. Inr ())"

subsection \<open>Communications\<close>

text \<open>
  A client's communication: the handle, and whether its creator gave a place to store the
  received data (\<^verbatim>\<open>_destination_buffer\<close>). The result of a wait is the data stored there.
\<close>

record client_comm =
  remote_address :: u64
  has_destination :: bool

definition comm_destructor :: "client_comm \<Rightarrow> unit client_call" where
  "comm_destructor c = (KCommRefcountDecrease (remote_address c), \<lambda>ack. Inr ())"

definition comm_wait_for :: "client_comm \<Rightarrow> double \<Rightarrow> bytes option client_call" where
  "comm_wait_for c timeout = (KCommWaitFor (remote_address c) timeout, \<lambda>ack.
     enforce_success ack ''wait_for(%g) failed on Comm(addr=%lu)'' (\<lambda>x.
       let (timeout_reached, data) = get_commWaitFor x in
       if timeout_reached then Inl ''wait_for(%g) on Comm(addr=%lu): Timeout reached''
       else if has_destination c
       then (if 0 < length data then Inr (Some data)
             else Inl ''Received CommWaitFor ack does not contain data while _destination_buffer is not null'')
       else Inr None))"

definition comm_wait :: "client_comm \<Rightarrow> bytes option client_call" where
  "comm_wait c = comm_wait_for c (Finite (-1))"

definition comm_cancel :: "client_comm \<Rightarrow> unit client_call" where
  "comm_cancel c = (KCommCancel (remote_address c), \<lambda>ack.
     enforce_success ack ''Could not cancel Comm(addr=%lu)'' (\<lambda>_. Inr ()))"

definition comm_test :: "client_comm \<Rightarrow> (bool \<times> bytes option) client_call" where
  "comm_test c = (KCommTest (remote_address c), \<lambda>ack.
     enforce_success ack ''Could not test Comm(addr=%lu)'' (\<lambda>x.
       let (is_terminated, data) = get_commTest x in
       if 0 < length data
       then (if has_destination c then Inr (is_terminated, Some data)
             else Inl ''Received CommTest ack contains data the while _destination_buffer is null'')
       else Inr (is_terminated, None)))"

definition comm_wait_any_for :: "client_comm list \<Rightarrow> double \<Rightarrow> (int \<times> bytes option) client_call" where
  "comm_wait_any_for cs timeout = (KCommWaitAnyFor (map remote_address cs) timeout, \<lambda>ack.
     enforce_success ack ''Comm::wait_any_for failed'' (\<lambda>x.
       let (finished_index, data) = get_commWaitAnyFor x in
       if 0 \<le> finished_index
       then (if int (length cs) \<le> finished_index then Inl ''std::out_of_range''
             else if has_destination (cs ! nat finished_index)
             then (if 0 < length data then Inr (finished_index, Some data)
                   else Inl ''Received CommWaitAnyFor ack does not contain data while _destination_buffer is not null'')
             else Inr (finished_index, None))
       else Inr (finished_index, None)))"

definition comm_wait_any :: "client_comm list \<Rightarrow> (int \<times> bytes option) client_call" where
  "comm_wait_any cs = comm_wait_any_for cs (Finite (-1))"

subsection \<open>Engine and hosts\<close>

definition engine_get_clock :: "double client_call" where
  "engine_get_clock = (KEngineGetClock True, \<lambda>ack.
     enforce_success ack ''Could not get clock'' (\<lambda>x. Inr (get_engineGetClock x)))"

text \<open>None is the null pointer.\<close>

definition host_by_name_or_null :: "string \<Rightarrow> string option client_call" where
  "host_by_name_or_null name = (KHostByNameOrNull name, \<lambda>ack.
     Inr (if success ack then Some name else None))"

definition host_by_name :: "string \<Rightarrow> string client_call" where
  "host_by_name name = (fst (host_by_name_or_null name), \<lambda>ack.
     case snd (host_by_name_or_null name) ack of
       Inr (Some h) \<Rightarrow> Inr h | Inr None \<Rightarrow> Inl (''There is no host named '' @ quoted_s) | Inl e \<Rightarrow> Inl e)"

definition host_current :: "string client_call" where
  "host_current = (KHostCurrent True, \<lambda>ack.
     enforce_success ack ''Could not Host::current()'' (\<lambda>x. Inr (get_hostCurrent x)))"

subsection \<open>Mailboxes\<close>

definition mailbox_empty :: "string \<Rightarrow> bool client_call" where
  "mailbox_empty name = (KMailboxEmpty name, \<lambda>ack. Inr (success ack))"

definition mailbox_listen :: "string \<Rightarrow> bool client_call" where
  "mailbox_listen name = (KMailboxListen name, \<lambda>ack. Inr (success ack))"

definition mailbox_ready :: "string \<Rightarrow> bool client_call" where
  "mailbox_ready name = (KMailboxReady name, \<lambda>ack. Inr (success ack))"

definition mailbox_put :: "string \<Rightarrow> bytes \<Rightarrow> u64 \<Rightarrow> unit client_call" where
  "mailbox_put name data simulated_size = (KMailboxPut name data simulated_size, \<lambda>ack.
     enforce_success ack (''Could not put on mailbox='' @ quoted_s) (\<lambda>_. Inr ()))"

definition mailbox_put_async :: "string \<Rightarrow> bytes \<Rightarrow> u64 \<Rightarrow> client_comm client_call" where
  "mailbox_put_async name data simulated_size = (KMailboxPutAsync name data simulated_size, \<lambda>ack.
     enforce_success ack (''Could not put_async on mailbox='' @ quoted_s) (\<lambda>x.
       Inr \<lparr>remote_address = get_mailboxPutAsync x, has_destination = False\<rparr>))"

text \<open>The received data; None for the null pointer that stands for no byte.\<close>

definition mailbox_get :: "string \<Rightarrow> bytes option client_call" where
  "mailbox_get name = (KMailboxGet name, \<lambda>ack.
     enforce_success ack (''Could not get on mailbox='' @ quoted_s) (\<lambda>x.
       Inr (if get_mailboxGet x = [] then None else Some (get_mailboxGet x))))"

definition mailbox_get_async :: "string \<Rightarrow> bool \<Rightarrow> client_comm client_call" where
  "mailbox_get_async name destination = (KMailboxGetAsync name, \<lambda>ack.
     enforce_success ack (''Could not get on mailbox='' @ quoted_s) (\<lambda>x.
       Inr \<lparr>remote_address = get_mailboxGetAsync x, has_destination = destination\<rparr>))"

subsection \<open>Mutexes and condition variables\<close>

definition mutex_create :: "u64 client_call" where
  "mutex_create = (KMutexCreate True, \<lambda>ack.
     enforce_success ack ''Could not Mutex::create()'' (\<lambda>x. Inr (get_mutexCreate x)))"

definition mutex_destructor :: "u64 \<Rightarrow> unit client_call" where
  "mutex_destructor a = (KMutexRefcountDecrease a, \<lambda>ack. Inr ())"

definition mutex_lock :: "u64 \<Rightarrow> unit client_call" where
  "mutex_lock a = (KMutexLock a, \<lambda>ack.
     enforce_success ack ''Could not Mutex::lock(addr=%lu)'' (\<lambda>_. Inr ()))"

definition mutex_unlock :: "u64 \<Rightarrow> unit client_call" where
  "mutex_unlock a = (KMutexUnlock a, \<lambda>ack.
     enforce_success ack ''Could not Mutex::unlock(addr=%lu)'' (\<lambda>_. Inr ()))"

definition mutex_try_lock :: "u64 \<Rightarrow> bool client_call" where
  "mutex_try_lock a = (KMutexTryLock a, \<lambda>ack.
     enforce_success ack ''Could not Mutex::try_lock(addr=%lu)'' (\<lambda>x. Inr (get_mutexTryLock x)))"

definition cv_create :: "u64 option client_call" where
  "cv_create = (KConditionVariableCreate True, \<lambda>ack.
     Inr (if success ack then Some (get_conditionVariableCreate (ack_data ack)) else None))"

definition cv_destructor :: "u64 \<Rightarrow> unit client_call" where
  "cv_destructor a = (KConditionVariableRefcountDecrease a, \<lambda>ack. Inr ())"

definition cv_wait :: "u64 \<Rightarrow> u64 \<Rightarrow> unit client_call" where
  "cv_wait cv m = (KConditionVariableWait cv m, \<lambda>ack.
     enforce_success ack ''Could not wait on ConditionVariable'' (\<lambda>_. Inr ()))"

definition cv_wait_until :: "u64 \<Rightarrow> u64 \<Rightarrow> double \<Rightarrow> cv_status client_call" where
  "cv_wait_until cv m t = (KConditionVariableWaitUntil cv m t, \<lambda>ack.
     enforce_success ack ''Could not wait_until on ConditionVariable'' (\<lambda>x.
       Inr (get_conditionVariableWaitUntil x)))"

definition cv_wait_for :: "u64 \<Rightarrow> u64 \<Rightarrow> double \<Rightarrow> cv_status client_call" where
  "cv_wait_for cv m t = (KConditionVariableWaitFor cv m t, \<lambda>ack.
     enforce_success ack ''Could not wait_for on ConditionVariable'' (\<lambda>x.
       Inr (get_conditionVariableWaitFor x)))"

definition cv_notify_one :: "u64 \<Rightarrow> unit client_call" where
  "cv_notify_one cv = (KConditionVariableNotifyOne cv, \<lambda>ack.
     enforce_success ack ''Could not notify_one on ConditionVariable'' (\<lambda>_. Inr ()))"

definition cv_notify_all :: "u64 \<Rightarrow> unit client_call" where
  "cv_notify_all cv = (KConditionVariableNotifyAll cv, \<lambda>ack.
     enforce_success ack ''Could not notify_one on ConditionVariable'' (\<lambda>_. Inr ()))"

section \<open>Outcomes of a computation\<close>

text \<open>All outcomes of a computation, whatever the answers, satisfy a predicate.\<close>

primrec ends :: "prog \<Rightarrow> (outcome \<Rightarrow> bool) \<Rightarrow> bool" where
  "ends (Done out) = (\<lambda>P. P out)"
| "ends (Do c k) = (\<lambda>P. \<forall>r st. snd (map_prod id ends (k r st)) P)"

definition ends_code :: "(outcome \<Rightarrow> bool) \<Rightarrow> code \<Rightarrow> bool" where
  "ends_code P m \<longleftrightarrow> (\<forall>st. ends (snd (m st)) P)"

lemma ends_do [simp]: "ends (Do c k) P \<longleftrightarrow> (\<forall>r st. ends (snd (k r st)) P)"
  by simp

declare ends.simps(2) [simp del]

lemma ends_run:
  "ends p P \<Longrightarrow> run_prog p env u st = (out, st', u', calls) \<Longrightarrow> P out"
proof (induction p arbitrary: u st calls)
  case (Done x)
  then show ?case by simp
next
  case (Do c k)
  obtain r u1 st1 where e: "env c u st = (r, u1, st1)" by (cases "env c u st")
  obtain st2 p2 where k: "k r st1 = (st2, p2)" by (cases "k r st1")
  obtain calls2 where run: "run_prog p2 env u1 st2 = (out, st', u', calls2)"
    using Do.prems(2) e k by (auto split: prod.splits)
  have "p2 \<in> Basic_BNFs.snds (k r st1)" by (simp add: k)
  moreover have "ends p2 P" using Do.prems(1) k by (metis ends_do snd_conv)
  ultimately show ?case using Do.IH run by blast
qed

text \<open>Outcomes without an acknowledgment are left open.\<close>

definition ack_is :: "(decision_ack \<Rightarrow> bool) \<Rightarrow> outcome \<Rightarrow> bool" where
  "ack_is Q out = (case out of Handled a s q \<Rightarrow> Q a | _ \<Rightarrow> True)"

lemma ack_is_simps [simp]:
  "ack_is Q (Handled a s q) = Q a" "ack_is Q (Threw e)" "ack_is Q (Uncaught x)" "ack_is Q (Undefined u)"
  "ack_is Q Ill_typed" "ack_is Q (failure r)"
  by (simp_all add: ack_is_def) (cases r; simp)

lemma ends_bind:
  "ends p P \<Longrightarrow> (\<And>out. P out \<Longrightarrow> ends_code P' (f out)) \<Longrightarrow> ends_code P' (bind_prog p f)"
proof (induction p)
  case (Done out)
  then show ?case by simp
next
  case (Do c k)
  have "ends (snd (bind_prog (snd (k r st')) f (fst (k r st')))) P'" for r st'
  proof -
    have "snd (k r st') \<in> Basic_BNFs.snds (k r st')" by (cases "k r st'") simp
    from Do.IH [OF rangeI rangeI this] Do.prems show ?thesis by (simp add: ends_code_def)
  qed
  then show ?case by (simp add: ends_code_def split_beta)
qed

lemma ends_actor_turn:
  assumes "ends_code (ack_is Q) (handle_type (type_case d))"
  shows "ends_code (ack_is Q) (actor_turn d)"
proof -
  have send: "ack_is Q out \<Longrightarrow> ends_code (ack_is Q) (send_reply out)" for out
    by (cases out) (auto simp: send_reply_def ends_code_def call_defs split: answer.splits)
  have "ends_code (ack_is Q) (handle_decision d)"
    using assms by (auto simp: handle_decision_def ends_code_def call_defs split: answer.splits)
  then have "ends (snd (handle_decision d st)) (ack_is Q)" for st by (simp add: ends_code_def)
  from ends_bind [OF this send] show ?thesis
    by (auto simp: ends_code_def actor_turn_def bind_code_def split_beta)
qed

section \<open>The acknowledgments the methods expect\<close>

definition expected :: "decision_type \<Rightarrow> ack_data \<Rightarrow> bool" where
  "expected d x = (case d of
      KActorGetName i \<Rightarrow> (\<exists>n. x = A_actorGetName n)
    | KActorGetHost i \<Rightarrow> (\<exists>n. x = A_actorGetHost n)
    | KActorCreate n h \<Rightarrow> (\<exists>i. x = A_actorCreate i)
    | KCommWaitFor a t \<Rightarrow> (\<exists>b d. x = A_commWaitFor b d)
    | KCommTest a \<Rightarrow> (\<exists>b d. x = A_commTest b d)
    | KCommWaitAnyFor as t \<Rightarrow> (\<exists>i d. x = A_commWaitAnyFor i d)
    | KEngineGetClock b \<Rightarrow> (\<exists>t. x = A_engineGetClock t)
    | KHostCurrent b \<Rightarrow> (\<exists>n. x = A_hostCurrent n)
    | KMailboxPutAsync n d z \<Rightarrow> (\<exists>a. x = A_mailboxPutAsync a)
    | KMailboxGet n \<Rightarrow> (\<exists>d. x = A_mailboxGet d)
    | KMailboxGetAsync n \<Rightarrow> (\<exists>a. x = A_mailboxGetAsync a)
    | KMutexCreate b \<Rightarrow> (\<exists>a. x = A_mutexCreate a)
    | KMutexTryLock a \<Rightarrow> (\<exists>b. x = A_mutexTryLock b)
    | KConditionVariableCreate b \<Rightarrow> (\<exists>a. x = A_conditionVariableCreate a)
    | KConditionVariableWaitUntil c m t \<Rightarrow> (\<exists>s. x = A_conditionVariableWaitUntil s)
    | KConditionVariableWaitFor c m t \<Rightarrow> (\<exists>s. x = A_conditionVariableWaitFor s)
    | _ \<Rightarrow> x = A_data_not_set)"

definition conforms :: "decision_type \<Rightarrow> decision_ack \<Rightarrow> bool" where
  "conforms d a \<longleftrightarrow> (if success a then expected d (ack_data a) else ack_data a = A_data_not_set)"

lemma conforms_acks [simp]:
  "conforms d ack_ko" "conforms d (ack_ok\<lparr>ack_data := x\<rparr>) = expected d x"
  "conforms d ack_ok = expected d A_data_not_set"
  "conforms d (ack_ok\<lparr>success := b\<rparr>) = (b \<longrightarrow> expected d A_data_not_set)"
  by (simp_all add: conforms_def ack_ok_def ack_ko_def decision_ack0_def)

lemma ends_received:
  "(\<And>d'. expected d (mk d')) \<Longrightarrow> ends (snd (reply_received a e mk st)) (ack_is (conforms d))"
  by (auto simp: reply_received_def call_defs split: sum.splits)

lemma ends_comm_handlers:
  "ends_code (ack_is (conforms (KCommWaitFor a t))) (handle_comm_wait_for a t)"
  "ends_code (ack_is (conforms (KCommTest a))) (handle_comm_test a)"
  "ends_code (ack_is (conforms (KCommWaitAnyFor as t))) (handle_comm_wait_any_for as t)"
  by (auto simp: ends_code_def handler_defs run_defs expected_def Let_def intro!: ends_received
      split: answer.splits option.splits if_splits)

lemma ends_actor_create:
  "ends_code (ack_is (conforms (KActorCreate n h))) (handle_actor_create n h)"
  by (auto simp: ends_code_def handle_actor_create_def announce_actor_def create_acknowledged_def
      new_queue_def run_defs expected_def Let_def split: answer.splits option.splits)

lemma ends_stores:
  assumes "\<And>a. expected d (mk a)"
  shows "ends (snd (store_new_comm e mk buf a st)) (ack_is (conforms d))"
  using assms by (simp add: store_new_comm_def call_defs)

lemma ends_mailbox_handlers:
  "ends_code (ack_is (conforms (KMailboxPut n d z))) (handle_mailbox_put n d z)"
  "ends_code (ack_is (conforms (KMailboxPutAsync n d z))) (handle_mailbox_put_async n d z)"
  "ends_code (ack_is (conforms (KMailboxGet n))) (handle_mailbox_get n)"
  "ends_code (ack_is (conforms (KMailboxGetAsync n))) (handle_mailbox_get_async n)"
  by (auto simp: ends_code_def handle_mailbox_put_def handle_mailbox_put_async_def handle_mailbox_get_def
      handle_mailbox_get_async_def deliver_message_def new_string_def new_cell_def call_defs expected_def
      intro!: ends_stores split: answer.splits option.splits)

lemma ends_drop_handlers:
  "ends_code (ack_is (conforms (KCommRefcountDecrease a))) (handle_comm_refcount_decrease a)"
  "ends_code (ack_is (conforms (KMutexRefcountDecrease a))) (handle_mutex_refcount_decrease a)"
  "ends_code (ack_is (conforms (KConditionVariableRefcountDecrease a))) (handle_cv_refcount_decrease a)"
  by (auto simp: ends_code_def handle_comm_refcount_decrease_def handle_mutex_refcount_decrease_def
      handle_cv_refcount_decrease_def call_defs expected_def split_beta)

lemma ends_cv_handlers:
  "ends_code (ack_is (conforms (KConditionVariableWait c m))) (handle_cv_wait c m)"
  "ends_code (ack_is (conforms (KConditionVariableWaitUntil c m t))) (handle_cv_wait_until c m t)"
  "ends_code (ack_is (conforms (KConditionVariableWaitFor c m t))) (handle_cv_wait_for c m t)"
  by (auto simp: ends_code_def handle_cv_wait_def handle_cv_wait_until_def handle_cv_wait_for_def
      with_cv_and_lock_def run_defs expected_def split: answer.splits option.splits prod.splits)

lemma ends_simple:
  "\<lbrakk>expected d A_data_not_set\<rbrakk> \<Longrightarrow> ends_code (ack_is (conforms d)) handle_quit"
  "ends_code (ack_is (conforms (KThisActorExecute t))) (handle_execute t)"
  "ends_code (ack_is (conforms (KThisActorSleepFor t))) (handle_sleep_for t)"
  "ends_code (ack_is (conforms (KThisActorSleepUntil t))) (handle_sleep_until t)"
  "ends_code (ack_is (conforms (KThisActorYield b))) handle_yield"
  "ends_code (ack_is (conforms (KActorGetName i))) (handle_actor_get_name i)"
  "ends_code (ack_is (conforms (KActorGetHost i))) (handle_actor_get_host i)"
  "ends_code (ack_is (conforms (KActorJoin i t))) (handle_actor_join i t)"
  "ends_code (ack_is (conforms (KCommCancel a))) (handle_comm_cancel a)"
  "ends_code (ack_is (conforms (KEngineGetClock b))) handle_engine_get_clock"
  "ends_code (ack_is (conforms (KHostByNameOrNull n))) (handle_host_by_name_or_null n)"
  "ends_code (ack_is (conforms (KHostCurrent b))) handle_host_current"
  "ends_code (ack_is (conforms (KMailboxEmpty n))) (handle_mailbox_empty n)"
  "ends_code (ack_is (conforms (KMailboxListen n))) (handle_mailbox_listen n)"
  "ends_code (ack_is (conforms (KMailboxReady n))) (handle_mailbox_ready n)"
  "ends_code (ack_is (conforms (KMutexCreate b))) handle_mutex_create"
  "ends_code (ack_is (conforms (KMutexLock a))) (handle_mutex_lock a)"
  "ends_code (ack_is (conforms (KMutexUnlock a))) (handle_mutex_unlock a)"
  "ends_code (ack_is (conforms (KMutexTryLock a))) (handle_mutex_try_lock d)"
  "ends_code (ack_is (conforms (KConditionVariableCreate b))) handle_cv_create"
  "ends_code (ack_is (conforms (KConditionVariableNotifyOne a))) (handle_cv_notify_one a)"
  "ends_code (ack_is (conforms (KConditionVariableNotifyAll a))) (handle_cv_notify_all a)"
  by (auto simp: ends_code_def handler_defs run_defs expected_def on_host_failure_def
      split: answer.splits option.splits if_splits)

lemma ends_handle_type: "ends_code (ack_is (conforms d)) (handle_type d)"
proof (cases d)
  case (KQuit b)
  then show ?thesis by (simp add: ends_simple expected_def)
qed (simp_all add: ends_simple ends_comm_handlers ends_actor_create ends_mailbox_handlers
    ends_drop_handlers ends_cv_handlers, simp_all add: ends_code_def throw_def)

text \<open>C36: the server answers every decision in the terms of the method that sent it: a successful
  acknowledgment carries exactly the field its method reads (and no other), a failed one carries
  none, whatever the state of the server and the answers of the simulator.\<close>

theorem acknowledgments_conform:
  assumes "run_code (actor_turn d) env u st = (Handled a s q, st', u', calls)"
  shows "if success a then expected (type_case d) (ack_data a) else ack_data a = A_data_not_set"
proof -
  obtain st1 p where p: "actor_turn d st = (st1, p)" by (cases "actor_turn d st")
  have "ends_code (ack_is (conforms (type_case d))) (actor_turn d)"
    by (rule ends_actor_turn) (rule ends_handle_type)
  then have "ends p (ack_is (conforms (type_case d)))" using p by (metis ends_code_def snd_conv)
  from ends_run [OF this, of env u st1] assms p
  have "ack_is (conforms (type_case d)) (Handled a s q)" by (simp add: run_code_def)
  then show ?thesis by (simp add: conforms_def)
qed

theorem acknowledgments_conform_witness:
  "case run_code (actor_turn \<lparr>think_time = Finite 0, type_case = KMutexCreate True\<rparr>) scripted
      [Ret_addr 5, Ret_unit] empty_server of
    (out, st, u, calls) \<Rightarrow> out = Handled (ack_ok\<lparr>ack_data := A_mutexCreate 5\<rparr>) False False \<and>
      expected (KMutexCreate True) (A_mutexCreate 5)"
proof -
  obtain st' u' calls where run: "run_code (actor_turn \<lparr>think_time = Finite 0, type_case = KMutexCreate True\<rparr>)
      scripted [Ret_addr 5, Ret_unit] empty_server =
      (Handled (ack_ok\<lparr>ack_data := A_mutexCreate 5\<rparr>) False False, st', u', calls)"
    by (simp add: run_defs actor_turn_def bind_code_def send_reply_def handle_decision_def handle_mutex_create_def)
  from acknowledgments_conform [OF run] run show ?thesis by (simp add: ack_ok_def)
qed

section \<open>What a client observes\<close>

text \<open>
  A method called by the client of an actor that reads its decision: the actor's turn, then the
  method's reading of the acknowledgment; None when the actor fails, which ends the connection.
\<close>

definition call_method :: "'a client_call \<Rightarrow> 'w env \<Rightarrow> 'w \<Rightarrow> server \<Rightarrow> (rsg_error + 'a) option \<times> server" where
  "call_method m env u st =
     (case run_code (actor_turn \<lparr>think_time = Finite 0, type_case = fst m\<rparr>) env u st of
        (Handled a s q, st', u', calls) \<Rightarrow> (Some (snd m a), st')
      | (out, st', u', calls) \<Rightarrow> (None, st'))"

lemmas method_run_defs = call_method_def run_defs actor_turn_def bind_code_def send_reply_def
  handle_decision_def

lemma call_put_async:
  assumes "comms st a = None"
  shows "call_method (mailbox_put_async m d z) scripted [Ret_addr a, Ret_unit] st =
    (Some (Inr \<lparr>remote_address = a, has_destination = False\<rparr>), comm_register None a (snd (new_string d st)))"
  using assms
  by (simp add: method_run_defs mailbox_put_async_def handle_mailbox_put_async_def new_string_def
      store_new_comm_def enforce_success_def get_mailboxPutAsync_def ack_ok_def)

lemma call_get_async:
  assumes "comms st a = None"
  shows "call_method (mailbox_get_async m dst) scripted [Ret_addr a, Ret_unit] st =
    (Some (Inr \<lparr>remote_address = a, has_destination = dst\<rparr>),
     comm_register (Some (next_ptr st)) a (snd (new_cell st)))"
  using assms
  by (simp add: method_run_defs mailbox_get_async_def handle_mailbox_get_async_def new_cell_def
      store_new_comm_def enforce_success_def get_mailboxGetAsync_def ack_ok_def)

definition received_state :: "u64 \<Rightarrow> rc_comm \<Rightarrow> ptr \<Rightarrow> ptr \<Rightarrow> server \<Rightarrow> server" where
  "received_state a e b p st = st\<lparr>strings := (strings st)(p := None), cells := (cells st)(b := None),
     comms := (comms st)(a \<mapsto> e\<lparr>reception_buffer := None\<rparr>)\<rparr>"

lemma call_wait_for:
  assumes "comms st (remote_address c) = Some e" "reception_buffer e = Some b"
    "cells st b = Some (Some p)" "strings st p = Some d"
  shows "call_method (comm_wait_for c t) scripted [Ret_unit, Ret_unit] st =
    (Some (if has_destination c
       then if d = [] then Inl ''Received CommWaitFor ack does not contain data while _destination_buffer is not null''
            else Inr (Some d)
       else Inr None), received_state (remote_address c) e b p st)"
  using assms
  by (simp add: method_run_defs comm_wait_for_def handle_comm_wait_for_def comm_deref_def reply_received_def
      take_received_def enforce_success_def get_commWaitFor_def ack_ok_def received_state_def)

lemma call_wait_for_nothing:
  assumes "comms st (remote_address c) = Some e" "reception_buffer e = None"
  shows "call_method (comm_wait_for c t) scripted [Ret_unit, Ret_unit] st =
    (Some (if has_destination c
       then Inl ''Received CommWaitFor ack does not contain data while _destination_buffer is not null''
       else Inr None), st)"
  using assms
  by (simp add: method_run_defs comm_wait_for_def handle_comm_wait_for_def comm_deref_def reply_received_def
      take_received_def enforce_success_def get_commWaitFor_def ack_ok_def)

lemma call_test:
  assumes "comms st (remote_address c) = Some e" "reception_buffer e = Some b"
    "cells st b = Some (Some p)" "strings st p = Some d" "d \<noteq> []" "has_destination c"
  shows "call_method (comm_test c) scripted [Ret_bool True, Ret_unit] st =
    (Some (Inr (True, Some d)), received_state (remote_address c) e b p st)"
  using assms
  by (simp add: method_run_defs comm_test_def handle_comm_test_def comm_deref_def reply_received_def
      take_received_def enforce_success_def get_commTest_def ack_ok_def received_state_def)


text \<open>A client that has been told by \<^verbatim>\<open>test\<close> that its reception is over, and has got its data,
  gets an error when it then waits for the same communication: the server transfers the data
  once, and the client's wait insists on data.\<close>

theorem wait_after_test_fails:
  assumes "comms st (remote_address c) = Some e" "reception_buffer e = Some b"
    "cells st b = Some (Some p)" "strings st p = Some d" "d \<noteq> []" "has_destination c"
  shows "\<exists>st1. call_method (comm_test c) scripted [Ret_bool True, Ret_unit] st = (Some (Inr (True, Some d)), st1) \<and>
    call_method (comm_wait_for c t) scripted [Ret_unit, Ret_unit] st1 =
      (Some (Inl ''Received CommWaitFor ack does not contain data while _destination_buffer is not null''), st1)"
  using call_test [OF assms] assms(6)
    call_wait_for_nothing [of "received_state (remote_address c) e b p st" c "e\<lparr>reception_buffer := None\<rparr>" t]
  by (simp add: received_state_def)

text \<open>An empty message can be sent but not be received asynchronously: the receiver's wait fails
  on the client's side, although the server has transferred and freed the message.\<close>

theorem empty_message_is_an_error:
  assumes "comms st (remote_address c) = Some e" "reception_buffer e = Some b"
    "cells st b = Some (Some p)" "strings st p = Some []" "has_destination c"
  shows "\<exists>st1. call_method (comm_wait_for c t) scripted [Ret_unit, Ret_unit] st =
      (Some (Inl ''Received CommWaitFor ack does not contain data while _destination_buffer is not null''), st1) \<and>
    strings st1 p = None \<and> cells st1 b = None"
  using call_wait_for [OF assms(1-4), of t] assms(5) by (simp add: received_state_def)

text \<open>A client cannot tell a refused \<^verbatim>\<open>try_lock\<close> from an error: for every mutex, free or not,
  the method throws.\<close>

theorem client_try_lock_throws:
  assumes "mutexes st 0 = None"
  shows "call_method (mutex_try_lock a) scripted [Ret_unit] st =
    (Some (Inl ''Could not Mutex::try_lock(addr=%lu)''), st)"
  using assms
  by (simp add: method_run_defs mutex_try_lock_def handle_mutex_try_lock_def mutexunlock_def
      enforce_success_def ack_ko_def ack_ok_def)

section \<open>Examples\<close>

definition example_received :: "bytes \<Rightarrow> server" where
  "example_received d = empty_server\<lparr>comms := [7 \<mapsto>
     \<lparr>rc_comm_obj = 7, reception_buffer = Some 1, rc_comm_count = 1, rc_comm_node = 2\<rparr>],
     cells := [1 \<mapsto> Some 0], strings := [0 \<mapsto> d], next_ptr := 3\<rparr>"

lemma example_received_facts:
  "comms (example_received d) (remote_address \<lparr>remote_address = 7, has_destination = True\<rparr>) =
     Some \<lparr>rc_comm_obj = 7, reception_buffer = Some 1, rc_comm_count = 1, rc_comm_node = 2\<rparr>"
  "reception_buffer \<lparr>rc_comm_obj = 7, reception_buffer = Some 1, rc_comm_count = 1, rc_comm_node = 2\<rparr> = Some 1"
  "cells (example_received d) 1 = Some (Some 0)" "strings (example_received d) 0 = Some d"
  "has_destination \<lparr>remote_address = 7, has_destination = True\<rparr>"
  by (simp_all add: example_received_def)


theorem wait_after_test_fails_witness:
  "\<exists>st1. call_method (comm_test \<lparr>remote_address = 7, has_destination = True\<rparr>) scripted
      [Ret_bool True, Ret_unit] (example_received [3]) = (Some (Inr (True, Some [3])), st1) \<and>
    call_method (comm_wait_for \<lparr>remote_address = 7, has_destination = True\<rparr> (Finite 1)) scripted
      [Ret_unit, Ret_unit] st1 =
      (Some (Inl ''Received CommWaitFor ack does not contain data while _destination_buffer is not null''), st1)"
  by (rule wait_after_test_fails [OF example_received_facts(1-4) _ example_received_facts(5)]) simp

theorem empty_message_is_an_error_witness:
  "\<exists>st1. call_method (comm_wait_for \<lparr>remote_address = 7, has_destination = True\<rparr> (Finite 1)) scripted
      [Ret_unit, Ret_unit] (example_received []) =
      (Some (Inl ''Received CommWaitFor ack does not contain data while _destination_buffer is not null''), st1) \<and>
    strings st1 0 = None \<and> cells st1 1 = None"
  by (rule empty_message_is_an_error [OF example_received_facts])

theorem client_try_lock_throws_witness:
  "call_method (mutex_try_lock 7) scripted [Ret_unit] (mutex_register () 7 empty_server) =
     (Some (Inl ''Could not Mutex::try_lock(addr=%lu)''), mutex_register () 7 empty_server)"
  by (rule client_try_lock_throws)
    (simp add: mutex_register_def new_lock_def add_ref_def empty_server_def)

end
