(* ===== verification/Client_Threads.thy ===== *)
theory Client_Threads
  imports Actor_System Client_Api "HOL-Library.Sublist"
begin

text \<open>
  The threads and processes of the clients: \<^verbatim>\<open>Actor::create\<close>, \<^verbatim>\<open>actor_wrapper\<close> and
  \<^verbatim>\<open>Actor::fork\<close> of \<^verbatim>\<open>src/librsg/actor.cpp\<close>, and the destructor of the connection
  (\<^verbatim>\<open>src/librsg/connection.cpp\<close>), which joins the threads. Every simulated actor is controlled by
  one thread of one client process. All of them run concurrently, together with the server of
  \<open>Actor_System\<close>: the relation \<open>world_step\<close> interleaves the steps of the threads with those of
  the server.

  The user's code is any sequence of calls. It does not disconnect itself: a thread disconnects when
  its code is over (\<^verbatim>\<open>actor_wrapper\<close>, \<^verbatim>\<open>autodisconnect\<close>).
\<close>

section \<open>A thread\<close>

type_synonym tid = nat
type_synonym semaphore = nat

text \<open>What a thread that waits for an acknowledgment does next.\<close>

datatype purpose = For_method | For_create | For_fork | For_yield

text \<open>Where a thread is.\<close>

datatype place =
    Code                          \<comment> \<open>the user's code\<close>
  | Sending purpose               \<comment> \<open>in \<^verbatim>\<open>send_decision\<close>, which has written the decision\<close>
  | Creating int                  \<comment> \<open>\<^verbatim>\<open>create\<close> has the new actor's identifier\<close>
  | Sem_waiting semaphore         \<comment> \<open>in \<^verbatim>\<open>sem_wait\<close>\<close>
  | Forking int                   \<comment> \<open>\<^verbatim>\<open>fork\<close> has the new actor's identifier\<close>
  | Reconnecting                  \<comment> \<open>the new process of a fork\<close>
  | Before_connect semaphore      \<comment> \<open>\<^verbatim>\<open>actor_wrapper\<close> up to \<^verbatim>\<open>connect\<close>\<close>
  | Connecting_to semaphore
  | After_connect semaphore
  | Yielding                      \<comment> \<open>the semaphore is posted\<close>
  | Rethrowing                    \<comment> \<open>the semaphore is posted, after an error\<close>
  | Leaving                       \<comment> \<open>\<^verbatim>\<open>disconnect\<close> begins\<close>
  | Joining "tid list"            \<comment> \<open>the socket is closed\<close>
  | Ended

text \<open>
  \<open>linked\<close>: the command thread has accepted the \<^verbatim>\<open>CONNECT\<close> of this thread's connection (the
  library does not look at the answer). \<open>lost\<close>: there is no working connection, reads and writes throw.
\<close>

record thread =
  process :: nat
  actor_of :: int
  linked :: bool
  lost :: bool
  place :: place
  written :: "decision list"
  got :: "decision_ack list"
  children :: "tid list"

definition new_thread :: "nat \<Rightarrow> int \<Rightarrow> place \<Rightarrow> thread" where
  "new_thread p i pl = \<lparr>process = p, actor_of = i, linked = False, lost = False, place = pl,
     written = [], got = [], children = []\<rparr>"

text \<open>What a step does outside of the thread.\<close>

datatype label =
    Tau
  | Write decision
  | Read decision_ack
  | Fail                          \<comment> \<open>a read or write throws\<close>
  | Spawn semaphore int           \<comment> \<open>\<^verbatim>\<open>sem_init\<close>, a new thread for the actor\<close>
  | Wait semaphore                \<comment> \<open>\<^verbatim>\<open>sem_wait\<close> returns, \<^verbatim>\<open>sem_destroy\<close>\<close>
  | Interrupt semaphore           \<comment> \<open>\<^verbatim>\<open>sem_wait\<close> fails; the exception ends the semaphore's lifetime\<close>
  | Post semaphore
  | Connect bool                  \<comment> \<open>\<^verbatim>\<open>connect\<close> returns; whether the server accepted\<close>
  | No_connection                 \<comment> \<open>\<^verbatim>\<open>connect\<close> throws\<close>
  | Fork int
  | Terminate                     \<comment> \<open>\<^verbatim>\<open>std::terminate\<close>\<close>
  | Join tid

section \<open>The code of the library\<close>

text \<open>The methods other than the creation of actors: one decision, one acknowledgment.\<close>

definition method_decision :: "decision \<Rightarrow> bool" where
  "method_decision d = (case type_case d of KQuit b \<Rightarrow> False | KActorCreate n h \<Rightarrow> False | _ \<Rightarrow> True)"

inductive send_decision_step :: "thread \<Rightarrow> label \<Rightarrow> place \<Rightarrow> bool" for T where
  method_call: "place T = Code \<Longrightarrow> method_decision d \<Longrightarrow>
    send_decision_step T (Write d) (Sending For_method)"
| method_ack: "place T = Sending For_method \<Longrightarrow> send_decision_step T (Read a) Code"
| method_error: "place T = Sending For_method \<Longrightarrow> send_decision_step T Fail Code"

text \<open>
  \<^verbatim>\<open>Actor::create\<close>: it throws when the decision is refused, when the semaphore or the thread
  cannot be made, and when the wait is interrupted.
\<close>

inductive create_step :: "thread \<Rightarrow> label \<Rightarrow> place \<Rightarrow> bool" for T where
  create_call: "place T = Code \<Longrightarrow> type_case d = KActorCreate n h \<Longrightarrow>
    create_step T (Write d) (Sending For_create)"
| create_ack: "place T = Sending For_create \<Longrightarrow>
    create_step T (Read a) (if success a then Creating (get_actorCreate (ack_data a)) else Code)"
| create_lost: "place T = Sending For_create \<Longrightarrow> create_step T Fail Code"
| create_no_thread: "place T = Creating i \<Longrightarrow> create_step T Tau Code"
| create_thread: "place T = Creating i \<Longrightarrow> create_step T (Spawn s i) (Sem_waiting s)"
| create_woken: "place T = Sem_waiting s \<Longrightarrow> create_step T (Wait s) Code"
| create_interrupted: "place T = Sem_waiting s \<Longrightarrow> create_step T (Interrupt s) Code"

text \<open>\<^verbatim>\<open>Actor::fork\<close>: the new process connects, and both return to the user's code.\<close>

inductive fork_step :: "thread \<Rightarrow> label \<Rightarrow> place \<Rightarrow> bool" for T where
  fork_call: "place T = Code \<Longrightarrow> type_case d = KActorCreate n h \<Longrightarrow>
    fork_step T (Write d) (Sending For_fork)"
| fork_ack: "place T = Sending For_fork \<Longrightarrow>
    fork_step T (Read a) (if success a then Forking (get_actorCreate (ack_data a)) else Code)"
| fork_lost: "place T = Sending For_fork \<Longrightarrow> fork_step T Fail Code"
| fork_error: "place T = Forking i \<Longrightarrow> fork_step T Tau Code"
| fork_parent: "place T = Forking i \<Longrightarrow> fork_step T (Fork i) Code"
| fork_child: "place T = Reconnecting \<Longrightarrow> fork_step T (Connect b) Code"
| fork_child_error: "place T = Reconnecting \<Longrightarrow> fork_step T No_connection Code"

text \<open>
  \<^verbatim>\<open>actor_wrapper\<close>: an error before the semaphore is posted posts it and is thrown again, out of
  the thread; one of the yield or of the actor's code is printed. The yield does not look at its
  acknowledgment.
\<close>

definition yield_decision :: "decision \<Rightarrow> bool" where
  "yield_decision d = (case type_case d of KThisActorYield b \<Rightarrow> b | _ \<Rightarrow> False)"

inductive wrapper_step :: "thread \<Rightarrow> label \<Rightarrow> place \<Rightarrow> bool" for T where
  wrapper_invalid_id: "place T = Before_connect s \<Longrightarrow> actor_of T = -1 \<Longrightarrow>
    wrapper_step T (Post s) Rethrowing"
| wrapper_before: "place T = Before_connect s \<Longrightarrow> actor_of T \<noteq> -1 \<Longrightarrow>
    wrapper_step T Tau (Connecting_to s)"
| wrapper_before_error: "place T = Before_connect s \<Longrightarrow> actor_of T \<noteq> -1 \<Longrightarrow>
    wrapper_step T (Post s) Rethrowing"
| wrapper_connect: "place T = Connecting_to s \<Longrightarrow> wrapper_step T (Connect b) (After_connect s)"
| wrapper_connect_error: "place T = Connecting_to s \<Longrightarrow> wrapper_step T (Post s) Rethrowing"
| wrapper_after: "place T = After_connect s \<Longrightarrow> wrapper_step T (Post s) Yielding"
| wrapper_after_error: "place T = After_connect s \<Longrightarrow> wrapper_step T (Post s) Rethrowing"
| wrapper_rethrow: "place T = Rethrowing \<Longrightarrow> wrapper_step T Terminate Ended"
| wrapper_yield: "place T = Yielding \<Longrightarrow> yield_decision d \<Longrightarrow>
    wrapper_step T (Write d) (Sending For_yield)"
| wrapper_yielded: "place T = Sending For_yield \<Longrightarrow>
    wrapper_step T (Read a) Code"
| wrapper_yield_error: "place T = Sending For_yield \<Longrightarrow> wrapper_step T Fail Leaving"
| wrapper_code_over: "place T = Code \<Longrightarrow> wrapper_step T Tau Leaving"

text \<open>
  \<^verbatim>\<open>Connection::~Connection\<close>: quit, unless that throws; close; join every thread that this one
  has created.
\<close>

definition quit_decision :: decision where
  "quit_decision = \<lparr>think_time = Finite 0, type_case = KQuit True\<rparr>"

inductive disconnect_step :: "thread \<Rightarrow> label \<Rightarrow> place \<Rightarrow> bool" for T where
  disconnect_quit: "place T = Leaving \<Longrightarrow> disconnect_step T (Write quit_decision) (Joining (children T))"
| disconnect_lost: "place T = Leaving \<Longrightarrow> disconnect_step T Fail (Joining (children T))"
| disconnect_join: "place T = Joining (c # cs) \<Longrightarrow> disconnect_step T (Join c) (Joining cs)"
| disconnect_done: "place T = Joining [] \<Longrightarrow> disconnect_step T Tau Ended"

inductive thread_step :: "thread \<Rightarrow> label \<Rightarrow> place \<Rightarrow> bool" for T where
  "send_decision_step T l pl \<Longrightarrow> thread_step T l pl"
| "create_step T l pl \<Longrightarrow> thread_step T l pl"
| "fork_step T l pl \<Longrightarrow> thread_step T l pl"
| "wrapper_step T l pl \<Longrightarrow> thread_step T l pl"
| "disconnect_step T l pl \<Longrightarrow> thread_step T l pl"

lemmas thread_step_elims = thread_step.cases send_decision_step.cases create_step.cases fork_step.cases
  wrapper_step.cases disconnect_step.cases

lemmas thread_steps = thread_step.simps send_decision_step.simps create_step.simps fork_step.simps
  wrapper_step.simps disconnect_step.simps

section \<open>The world\<close>

text \<open>
  \<open>interrupted\<close>: some \<^verbatim>\<open>sem_wait\<close> has failed. \<open>dangling\<close>: a semaphore that does not
  exist (any more) has been posted.
\<close>

record world =
  server :: sys
  threads :: "tid \<rightharpoonup> thread"
  next_tid :: tid
  next_process :: nat
  semaphores :: "semaphore \<rightharpoonup> nat"
  next_semaphore :: semaphore
  interrupted :: bool
  dangling :: bool

definition set_thread :: "tid \<Rightarrow> thread \<Rightarrow> world \<Rightarrow> world" where
  "set_thread t T w = w\<lparr>threads := (threads w)(t \<mapsto> T)\<rparr>"

definition add_thread :: "thread \<Rightarrow> world \<Rightarrow> world" where
  "add_thread T w = (set_thread (next_tid w) T w)\<lparr>next_tid := Suc (next_tid w)\<rparr>"

definition end_process :: "nat \<Rightarrow> world \<Rightarrow> world" where
  "end_process p w = w\<lparr>threads := (\<lambda>t. map_option (\<lambda>T. if process T = p then T\<lparr>place := Ended\<rparr> else T)
     (threads w t))\<rparr>"

definition post :: "semaphore \<Rightarrow> world \<Rightarrow> world" where
  "post s w = (case semaphores w s of
      None \<Rightarrow> w\<lparr>dangling := True\<rparr>
    | Some n \<Rightarrow> w\<lparr>semaphores := (semaphores w)(s \<mapsto> Suc n)\<rparr>)"

text \<open>The thread after its step; \<open>c\<close> is the next thread identifier.\<close>

definition after :: "tid \<Rightarrow> label \<Rightarrow> place \<Rightarrow> thread \<Rightarrow> thread" where
  "after c l pl T = (case l of
      Write d \<Rightarrow> T\<lparr>place := pl, written := written T @ [d]\<rparr>
    | Read a \<Rightarrow> T\<lparr>place := pl, got := got T @ [a]\<rparr>
    | Connect b \<Rightarrow> T\<lparr>place := pl, linked := b\<rparr>
    | No_connection \<Rightarrow> T\<lparr>place := pl, lost := True\<rparr>
    | Spawn s i \<Rightarrow> T\<lparr>place := pl, children := children T @ [c]\<rparr>
    | _ \<Rightarrow> T\<lparr>place := pl\<rparr>)"

fun effect_on_world :: "nat \<Rightarrow> label \<Rightarrow> world \<Rightarrow> world" where
  "effect_on_world p (Spawn s i) w =
     add_thread (new_thread p i (Before_connect s))
       (w\<lparr>semaphores := (semaphores w)(s \<mapsto> 0), next_semaphore := Suc s\<rparr>)"
| "effect_on_world p (Wait s) w = w\<lparr>semaphores := (semaphores w)(s := None)\<rparr>"
| "effect_on_world p (Interrupt s) w =
     w\<lparr>semaphores := (semaphores w)(s := None), interrupted := True\<rparr>"
| "effect_on_world p (Post s) w = post s w"
| "effect_on_world p (Fork i) w =
     add_thread (new_thread (next_process w) i Reconnecting) (w\<lparr>next_process := Suc (next_process w)\<rparr>)"
| "effect_on_world p Terminate w = end_process p w"
| "effect_on_world p l w = w"

definition perform_step :: "tid \<Rightarrow> thread \<Rightarrow> label \<Rightarrow> place \<Rightarrow> world \<Rightarrow> world" where
  "perform_step t T l pl w = effect_on_world (process T) l (set_thread t (after (next_tid w) l pl T) w)"

text \<open>What the server has read from and written to the client of an actor.\<close>

definition decisions_read :: "io_event list \<Rightarrow> decision list" where
  "decisions_read evs = concat (map (\<lambda>e. case e of Rx d \<Rightarrow> [d] | Tx a \<Rightarrow> []) evs)"

definition acks_written :: "io_event list \<Rightarrow> decision_ack list" where
  "acks_written evs = concat (map (\<lambda>e. case e of Rx d \<Rightarrow> [] | Tx a \<Rightarrow> [a]) evs)"

definition connected_to :: "world \<Rightarrow> int \<Rightarrow> thread \<Rightarrow> bool" where
  "connected_to w i T \<longleftrightarrow> T \<in> ran (threads w) \<and> linked T \<and> actor_of T = i"

text \<open>When a step can be taken. The command thread accepts one client per actor.\<close>

fun enabled :: "world \<Rightarrow> thread \<Rightarrow> label \<Rightarrow> bool" where
  "enabled w T (Read a) \<longleftrightarrow> linked T \<and> length (got T) < length (acks_written (events (server w) (actor_of T))) \<and>
     a = acks_written (events (server w) (actor_of T)) ! length (got T)"
| "enabled w T Fail \<longleftrightarrow> lost T"
| "enabled w T (Spawn s i) \<longleftrightarrow> s = next_semaphore w"
| "enabled w T (Wait s) \<longleftrightarrow> (\<exists>n. semaphores w s = Some (Suc n))"
| "enabled w T (Connect b) \<longleftrightarrow> (b \<longrightarrow> (\<forall>U. \<not> connected_to w (actor_of T) U))"
| "enabled w T (Join c) \<longleftrightarrow> (\<exists>C. threads w c = Some C \<and> place C = Ended)"
| "enabled w T l \<longleftrightarrow> True"

text \<open>
  The server reads what the client of an actor has written, and fails to read only when this client
  has closed its socket or lost its connection.
\<close>

fun socket_closed :: "place \<Rightarrow> bool" where
  "socket_closed (Joining cs) = True"
| "socket_closed Ended = True"
| "socket_closed _ = False"

definition gone :: "thread \<Rightarrow> bool" where
  "gone T \<longleftrightarrow> lost T \<or> socket_closed (place T)"

definition reads_clients :: "world \<Rightarrow> sys \<Rightarrow> bool" where
  "reads_clients w s' \<longleftrightarrow>
     (\<forall>i. events s' i \<noteq> [] \<longrightarrow>
        (\<exists>T. connected_to w i T \<and> prefix (decisions_read (events s' i)) (written T))) \<and>
     (\<forall>i A A'. actors (server w) i = Some A \<and> a_phase A = Reading \<and>
        actors s' i = Some A' \<and> a_phase A' = Terminated \<longrightarrow> (\<forall>T. connected_to w i T \<longrightarrow> gone T))"

definition user_code :: "place \<Rightarrow> bool" where
  "user_code pl \<longleftrightarrow> (case pl of Code \<Rightarrow> True | Before_connect s \<Rightarrow> True | After_connect s \<Rightarrow> True | _ \<Rightarrow> False)"

inductive world_step :: "world \<Rightarrow> world \<Rightarrow> bool" where
  server_moves: "sys_step (server w) s' \<Longrightarrow> reads_clients w s' \<Longrightarrow> world_step w (w\<lparr>server := s'\<rparr>)"
| thread_moves: "threads w t = Some T \<Longrightarrow> thread_step T l pl \<Longrightarrow> enabled w T l \<Longrightarrow>
    world_step w (perform_step t T l pl w)"
| connection_fails: "threads w t = Some T \<Longrightarrow> world_step w (set_thread t (T\<lparr>lost := True\<rparr>) w)"
| process_dies: "threads w t = Some T \<Longrightarrow> user_code (place T) \<Longrightarrow>
    world_step w (end_process (process T) w)"

text \<open>The initial actors: one process each, connected, in their code.\<close>

definition init_world :: "(int \<times> socket) list \<Rightarrow> world" where
  "init_world conns = \<lparr>server = init_sys conns,
     threads = (\<lambda>t. if t < length conns then Some ((new_thread t (fst (conns ! t)) Code)\<lparr>linked := True\<rparr>) else None),
     next_tid = length conns, next_process = length conns, semaphores = (\<lambda>_. None), next_semaphore = 0,
     interrupted = False, dangling = False\<rparr>"

inductive worlds :: "(int \<times> socket) list \<Rightarrow> world \<Rightarrow> bool" for conns where
  worlds_init: "worlds conns (init_world conns)"
| worlds_step: "worlds conns w \<Longrightarrow> world_step w w' \<Longrightarrow> worlds conns w'"

section \<open>All threads\<close>

lemma threads_set [simp]: "threads (set_thread t T w) = (threads w)(t \<mapsto> T)"
  by (simp add: set_thread_def)

lemma set_thread_other [simp]: "server (set_thread t T w) = server w" "next_tid (set_thread t T w) = next_tid w"
  "next_process (set_thread t T w) = next_process w" "semaphores (set_thread t T w) = semaphores w"
  "next_semaphore (set_thread t T w) = next_semaphore w" "interrupted (set_thread t T w) = interrupted w"
  "dangling (set_thread t T w) = dangling w"
  by (simp_all add: set_thread_def)

lemma threads_add [simp]: "threads (add_thread T w) = (threads w)(next_tid w \<mapsto> T)"
  by (simp add: add_thread_def)

lemma add_thread_other [simp]: "server (add_thread T w) = server w" "next_tid (add_thread T w) = Suc (next_tid w)"
  "next_process (add_thread T w) = next_process w" "semaphores (add_thread T w) = semaphores w"
  "next_semaphore (add_thread T w) = next_semaphore w" "interrupted (add_thread T w) = interrupted w"
  "dangling (add_thread T w) = dangling w"
  by (simp_all add: add_thread_def)

lemma threads_end: "threads (end_process p w) t = Some U \<longleftrightarrow>
    (\<exists>T. threads w t = Some T \<and> U = (if process T = p then T\<lparr>place := Ended\<rparr> else T))"
  by (simp add: end_process_def eq_commute [of U])

lemma end_process_other [simp]: "server (end_process p w) = server w" "next_tid (end_process p w) = next_tid w"
  "next_process (end_process p w) = next_process w" "semaphores (end_process p w) = semaphores w"
  "next_semaphore (end_process p w) = next_semaphore w" "interrupted (end_process p w) = interrupted w"
  "dangling (end_process p w) = dangling w"
  by (simp_all add: end_process_def)

lemma post_other [simp]: "server (post s w) = server w" "threads (post s w) = threads w"
  "next_tid (post s w) = next_tid w" "next_process (post s w) = next_process w"
  "next_semaphore (post s w) = next_semaphore w" "interrupted (post s w) = interrupted w"
  by (simp_all add: post_def split: option.splits)

lemma server_perform [simp]: "server (perform_step t T l pl w) = server w"
  by (cases l) (simp_all add: perform_step_def)

lemma place_after [simp]: "place (after c l pl T) = pl" "process (after c l pl T) = process T"
  "actor_of (after c l pl T) = actor_of T"
  by (cases l; simp add: after_def)+

text \<open>A property of every thread for itself.\<close>

definition every_thread :: "(thread \<Rightarrow> bool) \<Rightarrow> world \<Rightarrow> bool" where
  "every_thread Q w \<longleftrightarrow> (\<forall>t T. threads w t = Some T \<longrightarrow> Q T)"

lemma every_thread_end:
  assumes "every_thread Q w" "\<And>T. Q T \<Longrightarrow> Q (T\<lparr>place := Ended\<rparr>)"
  shows "every_thread Q (end_process p w)"
  using assms by (auto simp: every_thread_def threads_end)

lemma every_thread_perform:
  assumes "every_thread Q w" "\<And>T. Q T \<Longrightarrow> Q (T\<lparr>place := Ended\<rparr>)" "\<And>c. Q (after c l pl T)"
    "\<And>p i s. Q (new_thread p i (Before_connect s))" "\<And>p i. Q (new_thread p i Reconnecting)"
  shows "every_thread Q (perform_step t T l pl w)"
proof -
  have one: "every_thread Q (set_thread t (after c l pl T) w)" for c
    using assms(1,3) by (auto simp: every_thread_def)
  note ended = every_thread_end [OF one assms(2)]
  show ?thesis
    using one ended assms(4,5) by (cases l) (auto simp: perform_step_def every_thread_def)
qed

text \<open>An invariant of single threads, which may depend on the thread's own step.\<close>

lemma every_thread_step:
  assumes "world_step w w'" "every_thread Q w" "\<And>T. Q T \<Longrightarrow> Q (T\<lparr>place := Ended\<rparr>)"
    "\<And>T. Q T \<Longrightarrow> Q (T\<lparr>lost := True\<rparr>)"
    "\<And>c T l pl. Q T \<Longrightarrow> thread_step T l pl \<Longrightarrow> enabled w T l \<Longrightarrow> Q (after c l pl T)"
    "\<And>p i s. Q (new_thread p i (Before_connect s))" "\<And>p i. Q (new_thread p i Reconnecting)"
  shows "every_thread Q w'"
  using assms(1)
proof cases
  case (thread_moves t T l pl)
  then have "Q T" using assms(2) by (auto simp: every_thread_def)
  with thread_moves assms show ?thesis by (auto intro!: every_thread_perform)
qed (use assms in \<open>auto simp: every_thread_def threads_end\<close>)

section \<open>Requests and acknowledgments of a thread\<close>

text \<open>A thread has one unanswered decision while it waits, and none otherwise.\<close>

definition in_balance :: "thread \<Rightarrow> bool" where
  "in_balance T \<longleftrightarrow> (lost T \<or> socket_closed (place T) \<or>
     length (written T) = (case place T of Sending p \<Rightarrow> Suc (length (got T)) | _ \<Rightarrow> length (got T))) \<and>
     (linked T \<or> got T = []) \<and>
     (case place T of Creating i \<Rightarrow> got T \<noteq> [] | Sem_waiting s \<Rightarrow> got T \<noteq> [] | Forking i \<Rightarrow> got T \<noteq> [] | _ \<Rightarrow> True) \<and>
     (linked T \<longrightarrow> (case place T of Before_connect s \<Rightarrow> False | Connecting_to s \<Rightarrow> False | Reconnecting \<Rightarrow> False | _ \<Rightarrow> True))"

lemma in_balance_simps:
  "in_balance (T\<lparr>place := Ended\<rparr>)" if "in_balance T"
  using that by (simp add: in_balance_def)

lemma in_balance_lost: "in_balance T \<Longrightarrow> in_balance (T\<lparr>lost := True\<rparr>)"
  by (simp add: in_balance_def split: place.splits)

lemma in_balance_step:
  assumes "in_balance T" "thread_step T l pl" "enabled w T l"
  shows "in_balance (after c l pl T)"
  using assms(2,1,3) by (elim thread_step_elims) (auto simp add: in_balance_def after_def)

definition all_balanced :: "world \<Rightarrow> bool" where
  "all_balanced w \<longleftrightarrow> every_thread in_balance w"

lemma worlds_balanced: "worlds conns w \<Longrightarrow> all_balanced w"
proof (induction rule: worlds.induct)
  case worlds_init
  show ?case by (auto simp: all_balanced_def every_thread_def init_world_def new_thread_def in_balance_def split: if_splits)
next
  case (worlds_step w w')
  show ?case
    unfolding all_balanced_def
  proof (rule every_thread_step [OF worlds_step.hyps(2)])
    show "every_thread in_balance w" using worlds_step.IH by (simp add: all_balanced_def)
  qed (use in_balance_step in_balance_simps in_balance_lost in \<open>simp_all add: in_balance_def new_thread_def\<close>)
qed

section \<open>The server's side of a connection\<close>

lemma read_written_simps [simp]:
  "decisions_read [] = []" "decisions_read (Rx d # evs) = d # decisions_read evs"
  "decisions_read (Tx a # evs) = decisions_read evs" "decisions_read (xs @ ys) = decisions_read xs @ decisions_read ys"
  "acks_written [] = []" "acks_written (Rx d # evs) = acks_written evs"
  "acks_written (Tx a # evs) = a # acks_written evs" "acks_written (xs @ ys) = acks_written xs @ acks_written ys"
  by (simp_all add: decisions_read_def acks_written_def)

lemma replied_counts: "replied evs \<Longrightarrow> length (decisions_read evs) = length (acks_written evs)"
  by (induction evs rule: replied.induct) simp_all

lemma replied_even: "replied evs \<Longrightarrow> even (length evs)"
  by (induction evs rule: replied.induct) simp_all

lemma pending_counts: "pending evs d None \<Longrightarrow> length (decisions_read evs) = Suc (length (acks_written evs))"
  by (auto simp: pending_def replied_counts)

lemma pending_replied: "pending evs d w \<Longrightarrow> replied evs \<Longrightarrow> w \<noteq> None"
  by (cases w) (auto simp: pending_def dest!: replied_even)

lemma events_grow:
  assumes "sys_step s s'"
  shows "prefix (events s i) (events s' i)"
  using assms by cases (simp_all add: sys_ops events_record_call)

definition not_begun :: "phase \<Rightarrow> bool" where
  "not_begun ph \<longleftrightarrow> (case ph of Starting \<Rightarrow> True | Connecting p \<Rightarrow> True | _ \<Rightarrow> False)"

definition over :: "phase \<Rightarrow> bool" where
  "over ph \<longleftrightarrow> ph = Terminated \<or> ph = Crashed"

definition silent_before :: "sys \<Rightarrow> bool" where
  "silent_before s \<longleftrightarrow> (\<forall>i A. actors s i = Some A \<and> not_begun (a_phase A) \<longrightarrow> events s i = [])"

lemma silent_before_step:
  assumes "sys_step s s'" "silent_before s" "dialogues_ok s"
  shows "silent_before s'"
proof -
  have new: "actors s i = None \<Longrightarrow> events s i = []" for i
    using assms(3) by (simp add: dialogues_ok_def) (metis option.simps(4))
  show ?thesis
    using assms(1)
    by cases (use assms(2) new in \<open>auto simp: silent_before_def sys_ops not_begun_def events_record_call\<close>)
qed

lemma reachable_silent_before: "reachable conns s \<Longrightarrow> silent_before s"
proof (induction rule: reachable.induct)
  case reach_init
  show ?case by (auto simp: silent_before_def init_sys_def)
next
  case (reach_step s s')
  then show ?case using silent_before_step reachable_dialogues_ok by blast
qed

text \<open>An actor that has answered everything and ends has failed to read.\<close>

lemma dialogue_outcome:
  assumes "dialogue evs (Handling D (Done out))" "replied evs"
  shows "(\<exists>a. out = Handled a False False) \<or> (\<exists>u. out = Undefined u)"
proof -
  obtain d w where d: "pending evs d w" and "tracks (turn_end (is_quit (type_case d))) w (Done out)"
    using assms(1) by (auto simp: dialogue_def)
  then have "turn_end (is_quit (type_case d)) w out" by (auto elim: tracks_doneE)
  moreover have "w \<noteq> None" using d assms(2) by (rule pending_replied)
  ultimately show ?thesis by (auto simp: turn_end_def split: outcome.splits if_splits)
qed

lemma ending_step:
  assumes "sys_step s s'" "dialogues_ok s" "silent_before s" "actors s' i = Some A'" "over (a_phase A')"
    "replied (events s' i)" "events s' i \<noteq> []"
  shows "events s' i = events s i \<and> (\<exists>A. actors s i = Some A \<and>
    (over (a_phase A) \<or> a_phase A = Reading \<and> a_phase A' = Terminated))"
proof -
  have d: "dialogue (events s j) (a_phase B)" if "actors s j = Some B" for j B
    using assms(2) that by (rule dialogues_ok_actor)
  have quiet: "events s j = []" if "actors s j = Some B" "not_begun (a_phase B)" for j B
    using assms(3) that by (simp add: silent_before_def)
  show ?thesis
    using assms(1)
  proof cases
    case (not_connected j B out)
    then show ?thesis using quiet [of j B] assms(4-) by (auto simp: sys_ops not_begun_def split: if_splits)
  next
    case (quit j B D a se sk)
    then show ?thesis using d [of j B] assms(4-)
      by (auto simp: sys_ops dest: dialogue_outcome split: if_splits)
  next
    case (abort j B D e)
    then show ?thesis using d [of j B] assms(4-)
      by (auto simp: sys_ops dest: dialogue_outcome split: if_splits)
  next
    case (crash j B D x)
    then show ?thesis using d [of j B] assms(4-)
      by (auto simp: sys_ops dest: dialogue_outcome split: if_splits)
  qed (use assms(4-) in \<open>auto simp: sys_ops over_def events_record_call split: if_splits\<close>)
qed

text \<open>An actor whose last event is an acknowledgment holds the simulation thread.\<close>

lemma answered_holds:
  assumes "dialogue evs ph" "replied evs" "\<not> over ph" "\<not> not_begun ph"
  shows "holds_thread ph"
proof (cases ph)
  case (Handling D p)
  then obtain d w where d: "pending evs d w" and t: "tracks (turn_end (is_quit (type_case d))) w p"
    using assms(1) by (auto simp: dialogue_def)
  have "w \<noteq> None" using d assms(2) by (rule pending_replied)
  then obtain a where "tracks (turn_end (is_quit (type_case d))) (Some a) p" using t by auto
  then obtain out where "p = Done out" by (cases rule: tracks.cases) auto
  then show ?thesis using Handling by simp
qed (use assms(3,4) in \<open>simp_all add: over_def not_begun_def\<close>)

section \<open>One client for each actor\<close>

definition one_client :: "world \<Rightarrow> bool" where
  "one_client w \<longleftrightarrow> (\<forall>t u T U. threads w t = Some T \<and> threads w u = Some U \<and> linked T \<and> linked U \<and>
     actor_of T = actor_of U \<longrightarrow> t = u)"

lemma linked_after:
  "linked (after c l pl T) \<longleftrightarrow> (case l of Connect b \<Rightarrow> b | _ \<Rightarrow> linked T)"
  by (cases l) (simp_all add: after_def)

text \<open>The threads after a step, as a list of cases.\<close>

lemma threads_perform:
  assumes "threads (perform_step t T l pl w) u = Some U"
  shows "(\<exists>U'. (u = t \<and> U' = after (next_tid w) l pl T \<or> u \<noteq> t \<and> threads w u = Some U') \<and>
      U = (if l = Terminate \<and> process U' = process T then U'\<lparr>place := Ended\<rparr> else U')) \<or>
    u = next_tid w \<and> ((\<exists>s i. l = Spawn s i \<and> U = new_thread (process T) i (Before_connect s)) \<or>
      (\<exists>i. l = Fork i \<and> U = new_thread (next_process w) i Reconnecting))"
proof (cases "l = Terminate")
  case True
  then obtain V where "threads (set_thread t (after (next_tid w) l pl T) w) u = Some V"
    "U = (if process V = process T then V\<lparr>place := Ended\<rparr> else V)"
    using assms by (simp only: perform_step_def effect_on_world.simps threads_end) blast
  with True show ?thesis by (intro disjI1 exI [of _ V]) (simp split: if_splits)
next
  case False
  with assms show ?thesis by (cases l) (auto simp: perform_step_def split: if_splits)
qed

lemma linked_perform:
  assumes "threads (perform_step t T l pl w) u = Some U" "linked U" "threads w t = Some T"
  shows "(\<exists>V. threads w u = Some V \<and> linked V \<and> actor_of V = actor_of U) \<or>
    u = t \<and> l = Connect True \<and> actor_of U = actor_of T"
  using threads_perform [OF assms(1)] assms(2,3)
  by (cases l) (auto simp: linked_after new_thread_def split: if_splits)

lemma one_client_step:
  assumes "world_step w w'" "one_client w"
  shows "one_client w'"
  using assms(1)
proof cases
  case (thread_moves t T l pl)
  have "u = v" if uv: "threads w' u = Some U" "threads w' v = Some V" "linked U" "linked V" "actor_of U = actor_of V"
    for u v U V
  proof -
    have new: "\<not> (x \<noteq> t \<and> threads w x = Some X \<and> linked X \<and> actor_of X = actor_of T \<and> l = Connect True)" for x X
    proof
      assume h: "x \<noteq> t \<and> threads w x = Some X \<and> linked X \<and> actor_of X = actor_of T \<and> l = Connect True"
      then have "\<forall>U. \<not> connected_to w (actor_of T) U" using thread_moves(4) by simp
      with h show False by (auto simp: connected_to_def ran_def)
    qed
    show ?thesis
      using linked_perform [OF uv(1) [unfolded thread_moves(1)] uv(3) thread_moves(2)]
        linked_perform [OF uv(2) [unfolded thread_moves(1)] uv(4) thread_moves(2)]
        new [of u] new [of v] assms(2) uv(5) unfolding one_client_def by metis
  qed
  then show ?thesis unfolding one_client_def by blast
next
  case (server_moves s')
  then show ?thesis using assms(2) by (simp add: one_client_def)
next
  case (connection_fails t T)
  have "\<exists>V. threads w u = Some V \<and> linked V = linked U \<and> actor_of V = actor_of U" if "threads w' u = Some U" for u U
    using that connection_fails by (auto split: if_splits)
  then show ?thesis using assms(2) unfolding one_client_def by metis
next
  case (process_dies t T)
  have "\<exists>V. threads w u = Some V \<and> linked V = linked U \<and> actor_of V = actor_of U" if "threads w' u = Some U" for u U
    using that process_dies by (auto simp: threads_end)
  then show ?thesis using assms(2) unfolding one_client_def by metis
qed

lemma one_client_init: "distinct (map fst conns) \<Longrightarrow> one_client (init_world conns)"
  by (auto simp: one_client_def init_world_def new_thread_def nth_eq_iff_index_eq distinct_conv_nth split: if_splits)

lemma worlds_one_client: "worlds conns w \<Longrightarrow> distinct (map fst conns) \<Longrightarrow> one_client w"
  by (induction rule: worlds.induct) (auto intro: one_client_init one_client_step)

lemma worlds_reachable: "worlds conns w \<Longrightarrow> reachable conns (server w)"
proof (induction rule: worlds.induct)
  case worlds_init
  show ?case by (simp add: init_world_def reach_init)
next
  case (worlds_step w w')
  from worlds_step.hyps(2) show ?case
    by cases (use worlds_step.IH in \<open>auto intro: reach_step\<close>)
qed

section \<open>The two ends of a connection\<close>

text \<open>
  What the server has read is what the thread has written, and the thread has got no more than what the
  server has written. A finished actor that owes nothing has lost its client.
\<close>

definition faithful :: "world \<Rightarrow> bool" where
  "faithful w \<longleftrightarrow> (\<forall>t T. threads w t = Some T \<and> linked T \<longrightarrow>
       prefix (decisions_read (events (server w) (actor_of T))) (written T) \<and>
       length (got T) \<le> length (acks_written (events (server w) (actor_of T)))) \<and>
     (\<forall>i. events (server w) i \<noteq> [] \<longrightarrow> (\<exists>T. connected_to w i T))"

definition served :: "world \<Rightarrow> bool" where
  "served w \<longleftrightarrow> (\<forall>i A t T. actors (server w) i = Some A \<and> over (a_phase A) \<and> replied (events (server w) i) \<and>
     events (server w) i \<noteq> [] \<and> threads w t = Some T \<and> linked T \<and> actor_of T = i \<longrightarrow> gone T)"

lemma acks_grow: "sys_step s s' \<Longrightarrow> length (acks_written (events s i)) \<le> length (acks_written (events s' i))"
  using events_grow [of s s' i] by (auto simp: prefix_def)

text \<open>A step keeps linked threads linked, and what they have written.\<close>

definition continues :: "thread \<Rightarrow> thread \<Rightarrow> bool" where
  "continues T T' \<longleftrightarrow> actor_of T' = actor_of T \<and> process T' = process T \<and> (linked T \<longrightarrow> linked T') \<and>
     (gone T \<longrightarrow> gone T') \<and> prefix (written T) (written T') \<and> (place T = Ended \<longrightarrow> place T' = Ended)"

lemma continues_trivial [simp]: "continues T T" "continues T (T\<lparr>lost := True\<rparr>)" "continues T (T\<lparr>place := Ended\<rparr>)"
  by (simp_all add: continues_def gone_def)

lemma continues_trans: "continues T T' \<Longrightarrow> continues T' T'' \<Longrightarrow> continues T T''"
  using prefix_order.order_trans [of "written T" "written T'" "written T''"] by (auto simp: continues_def)

lemma closed_step: "thread_step T l pl \<Longrightarrow> socket_closed (place T) \<Longrightarrow> socket_closed pl \<and> place T \<noteq> Ended"
  by (cases "place T") (auto simp: thread_steps)

lemma continues_step:
  assumes "in_balance T" "thread_step T l pl"
  shows "continues T (after c l pl T)"
proof -
  have "linked T \<longrightarrow> (case l of Connect b \<Rightarrow> False | _ \<Rightarrow> True)"
    using assms by (cases l) (auto simp: thread_steps in_balance_def)
  moreover have "socket_closed (place T) \<longrightarrow> socket_closed pl" "place T \<noteq> Ended"
    using closed_step [OF assms(2)] by auto
  moreover have "lost T \<longrightarrow> lost (after c l pl T)" "prefix (written T) (written (after c l pl T))"
    by (cases l; simp add: after_def)+
  ultimately show ?thesis
    by (cases l) (auto simp: continues_def gone_def linked_after)
qed

definition tids_ok :: "world \<Rightarrow> bool" where
  "tids_ok w \<longleftrightarrow> (\<forall>t T. threads w t = Some T \<longrightarrow> t < next_tid w \<and> process T < next_process w)"

lemma tids_ok_step:
  assumes "world_step w w'" "tids_ok w"
  shows "tids_ok w'"
  using assms(1)
proof cases
  case (thread_moves t T l pl)
  have "u < next_tid w' \<and> process U < next_process w'" if "threads w' u = Some U" for u U
    using threads_perform [OF that [unfolded thread_moves(1)]] thread_moves(1,2) assms(2)
    by (cases l) (auto simp: tids_ok_def perform_step_def new_thread_def less_SucI split: if_splits)
  then show ?thesis by (simp add: tids_ok_def)
qed (use assms(2) in \<open>auto simp: tids_ok_def threads_end split: if_splits\<close>)

lemma worlds_tids_ok: "worlds conns w \<Longrightarrow> tids_ok w"
proof (induction rule: worlds.induct)
  case worlds_init
  show ?case by (auto simp: tids_ok_def init_world_def new_thread_def split: if_splits)
qed (rule tids_ok_step)

lemma thread_continues:
  assumes "world_step w w'" "threads w u = Some U" "all_balanced w" "tids_ok w"
  shows "\<exists>U'. threads w' u = Some U' \<and> continues U U'"
  using assms(1)
proof cases
  case (thread_moves t T l pl)
  have T: "in_balance T" using assms(3) thread_moves(2) by (auto simp: all_balanced_def every_thread_def)
  have u: "u \<noteq> next_tid w" using assms(2,4) by (auto simp: tids_ok_def)
  obtain V where V: "threads (set_thread t (after (next_tid w) l pl T) w) u = Some V" "continues U V"
    using continues_step [OF T thread_moves(3)] thread_moves(2) assms(2) by (cases "u = t") auto
  show ?thesis
  proof (cases "l = Terminate")
    case True
    have "threads w' u = Some (if process V = process T then V\<lparr>place := Ended\<rparr> else V)"
      using V(1) unfolding thread_moves(1) True perform_step_def effect_on_world.simps threads_end by blast
    with V(2) continues_trans [OF V(2) continues_trivial(3)] show ?thesis by auto
  next
    case False
    have "threads w' u = Some V"
      using V(1) u False unfolding thread_moves(1) by (cases l) (simp_all add: perform_step_def)
    with V(2) show ?thesis by blast
  qed
next
  case (process_dies t T)
  have "threads w' u = Some (if process U = process T then U\<lparr>place := Ended\<rparr> else U)"
    using assms(2) unfolding process_dies(1) threads_end by blast
  then show ?thesis by auto
qed (use assms(2) in \<open>auto split: if_splits\<close>)

lemma connected_continues:
  assumes "world_step w w'" "connected_to w i T" "all_balanced w" "tids_ok w"
  shows "\<exists>T'. connected_to w' i T'"
proof -
  obtain t where "threads w t = Some T" using assms(2) by (auto simp: connected_to_def ran_def)
  from thread_continues [OF assms(1) this assms(3,4)] show ?thesis
    using assms(2) by (auto simp: connected_to_def continues_def ran_def)
qed

text \<open>One thread's end, as a property of the thread.\<close>

definition flows :: "sys \<Rightarrow> thread \<Rightarrow> bool" where
  "flows s T \<longleftrightarrow> (linked T \<longrightarrow> prefix (decisions_read (events s (actor_of T))) (written T) \<and>
     length (got T) \<le> length (acks_written (events s (actor_of T))))"

lemma faithful_flows: "faithful w \<longleftrightarrow> every_thread (flows (server w)) w \<and>
    (\<forall>i. events (server w) i \<noteq> [] \<longrightarrow> (\<exists>T. connected_to w i T))"
  by (auto simp: faithful_def every_thread_def flows_def)

lemma flows_after:
  assumes "flows (server w) T" "in_balance T" "thread_step T l pl" "enabled w T l"
    "\<And>i. events (server w) i \<noteq> [] \<Longrightarrow> \<exists>U. connected_to w i U"
  shows "flows (server w) (after c l pl T)"
proof (cases "l = Connect True")
  case True
  then have "got T = []" using assms(2,3) by (auto simp: thread_steps in_balance_def)
  moreover have "events (server w) (actor_of T) = []" using assms(4,5) True by auto
  ultimately show ?thesis using True by (simp add: flows_def after_def)
next
  case False
  with assms(1,4) show ?thesis
    by (cases l) (auto simp: flows_def after_def)
qed

lemma faithful_step:
  assumes "world_step w w'" "faithful w" "one_client w" "all_balanced w" "tids_ok w"
  shows "faithful w'"
proof -
  have conn: "\<exists>T. connected_to w' i T" if "connected_to w i T" for i T
    using connected_continues [OF assms(1) that assms(4,5)] .
  have "every_thread (flows (server w')) w' \<and> (events (server w') i \<noteq> [] \<longrightarrow> (\<exists>T. connected_to w i T))" for i
    using assms(1)
  proof cases
    case (server_moves s')
    have "flows s' T" if T: "threads w t = Some T" for t T
    proof (cases "linked T")
      case True
      have old: "length (got T) \<le> length (acks_written (events s' (actor_of T)))"
        using assms(2) T True acks_grow [OF server_moves(2)] unfolding faithful_def by (meson le_trans)
      have "prefix (decisions_read (events s' (actor_of T))) (written T)"
      proof (cases "events s' (actor_of T) = []")
        case False
        then obtain U where U: "connected_to w (actor_of T) U"
          "prefix (decisions_read (events s' (actor_of T))) (written U)"
          using server_moves(3) by (auto simp: reads_clients_def)
        obtain u where "threads w u = Some U" using U(1) by (auto simp: connected_to_def ran_def)
        moreover have "u = t"
          using assms(3) T True U(1) calculation by (simp add: one_client_def connected_to_def)
        ultimately show ?thesis using T U(2) by simp
      qed simp
      with old True show ?thesis by (simp add: flows_def)
    qed (simp add: flows_def)
    then show ?thesis using server_moves(1,3) by (auto simp: every_thread_def reads_clients_def)
  next
    case (thread_moves t T l pl)
    have T: "in_balance T" "flows (server w) T"
      using assms(2,4) thread_moves(2) by (auto simp: all_balanced_def every_thread_def faithful_flows)
    have "every_thread (flows (server w)) (perform_step t T l pl w)"
      using assms(2) flows_after [OF T(2,1) thread_moves(3,4)]
      by (intro every_thread_perform) (auto simp: faithful_flows flows_def new_thread_def)
    then show ?thesis using thread_moves(1) assms(2) by (simp add: faithful_flows)
  next
    case (connection_fails t T)
    then show ?thesis using assms(2) by (auto simp: faithful_flows every_thread_def flows_def)
  next
    case (process_dies t T)
    have "every_thread (flows (server w)) (end_process (process T) w)"
      using assms(2) by (intro every_thread_end) (auto simp: faithful_flows flows_def)
    then show ?thesis using process_dies(1) assms(2) by (simp add: faithful_flows)
  qed
  with conn show ?thesis unfolding faithful_flows by blast
qed

lemma worlds_faithful: "worlds conns w \<Longrightarrow> distinct (map fst conns) \<Longrightarrow> faithful w"
proof (induction rule: worlds.induct)
  case worlds_init
  show ?case by (auto simp: faithful_def init_world_def init_sys_def new_thread_def split: if_splits)
next
  case (worlds_step w w')
  then show ?case
    using faithful_step worlds_one_client worlds_balanced worlds_tids_ok by blast
qed

lemma served_step:
  assumes "world_step w w'" "served w" "faithful w" "all_balanced w" "tids_ok w" "reachable conns (server w)"
  shows "served w'"
proof -
  have old: "gone U" if "over (a_phase A)" "replied (events (server w) i)" "events (server w) i \<noteq> []"
    "actors (server w) i = Some A" "threads w u = Some U" "linked U" "actor_of U = i" for i A u U
    using assms(2) that unfolding served_def by blast
  have same: "served w'" if w': "server w' = server w"
    and new: "\<And>u U. threads w' u = Some U \<Longrightarrow> linked U \<Longrightarrow> events (server w) (actor_of U) \<noteq> [] \<Longrightarrow>
        \<exists>V. threads w u = Some V \<and> linked V \<and> actor_of V = actor_of U"
    unfolding served_def w'
  proof (intro allI impI)
    fix i A u U
    assume h: "actors (server w) i = Some A \<and> over (a_phase A) \<and> replied (events (server w) i) \<and>
      events (server w) i \<noteq> [] \<and> threads w' u = Some U \<and> linked U \<and> actor_of U = i"
    then obtain V where V: "threads w u = Some V" "linked V" "actor_of V = i" using new [of u U] by auto
    have "gone V" using old [of A i u V] h V by blast
    moreover obtain U' where "threads w' u = Some U'" "continues V U'"
      using thread_continues [OF assms(1) V(1) assms(4,5)] by blast
    ultimately show "gone U" using h by (simp add: continues_def)
  qed
  show ?thesis
    using assms(1)
  proof cases
    case (server_moves s')
    show ?thesis
      unfolding served_def
    proof (intro allI impI)
      fix i A' u U
      assume "actors (server w') i = Some A' \<and> over (a_phase A') \<and> replied (events (server w') i) \<and>
        events (server w') i \<noteq> [] \<and> threads w' u = Some U \<and> linked U \<and> actor_of U = i"
      then have h: "actors s' i = Some A'" "over (a_phase A')" "replied (events s' i)" "events s' i \<noteq> []"
        "threads w u = Some U" "linked U" "actor_of U = i" using server_moves(1) by auto
      obtain A where A: "events s' i = events (server w) i" "actors (server w) i = Some A"
        "over (a_phase A) \<or> a_phase A = Reading \<and> a_phase A' = Terminated"
        using ending_step [OF server_moves(2) reachable_dialogues_ok reachable_silent_before h(1-4)] assms(6) by blast
      from A(3) show "gone U"
      proof
        assume "over (a_phase A)"
        then show ?thesis using old [of A i u U] A h by simp
      next
        assume "a_phase A = Reading \<and> a_phase A' = Terminated"
        moreover have "connected_to w i U" using h by (auto simp: connected_to_def ran_def)
        ultimately show ?thesis using server_moves(3) A(2) h(1) unfolding reads_clients_def by blast
      qed
    qed
  next
    case (thread_moves t T l pl)
    show ?thesis
    proof (rule same)
      fix u U assume u: "threads w' u = Some U" "linked U" "events (server w) (actor_of U) \<noteq> []"
      obtain V where "connected_to w (actor_of U) V" using assms(3) u(3) by (auto simp: faithful_def)
      then have "\<not> (l = Connect True \<and> actor_of U = actor_of T)" using thread_moves(4) by auto
      with linked_perform [OF u(1) [unfolded thread_moves(1)] u(2) thread_moves(2)]
      show "\<exists>V. threads w u = Some V \<and> linked V \<and> actor_of V = actor_of U" by blast
    qed (simp add: thread_moves(1))
  next
    case (connection_fails t T)
    show ?thesis by (rule same) (use connection_fails in \<open>auto split: if_splits\<close>)
  next
    case (process_dies t T)
    show ?thesis by (rule same) (use process_dies in \<open>auto simp: threads_end split: if_splits\<close>)
  qed
qed

lemma worlds_served: "worlds conns w \<Longrightarrow> distinct (map fst conns) \<Longrightarrow> served w"
proof (induction rule: worlds.induct)
  case worlds_init
  show ?case by (simp add: served_def init_world_def init_sys_def)
next
  case (worlds_step w w')
  then show ?case
    using served_step worlds_faithful worlds_balanced worlds_tids_ok worlds_reachable by blast
qed

section \<open>Clients take turns\<close>

text \<open>
  A thread that has got an acknowledgment and sent nothing since has the turn: the server waits for it.
\<close>

definition has_turn :: "thread \<Rightarrow> bool" where
  "has_turn T \<longleftrightarrow> got T \<noteq> [] \<and> \<not> gone T \<and> (case place T of Sending p \<Rightarrow> False | _ \<Rightarrow> True)"

lemma turn_holds:
  assumes "worlds conns w" "distinct (map fst conns)" "threads w t = Some T" "has_turn T"
  shows "linked T \<and> (\<exists>A. actors (server w) (actor_of T) = Some A \<and> holds_thread (a_phase A))"
proof -
  let ?i = "actor_of T" and ?evs = "events (server w) (actor_of T)"
  have b: "in_balance T" using worlds_balanced [OF assms(1)] assms(3) by (auto simp: all_balanced_def every_thread_def)
  have T: "linked T" "length (written T) = length (got T)" "got T \<noteq> []" "\<not> gone T"
    using b assms(4) by (auto simp: in_balance_def has_turn_def gone_def split: place.splits)
  have f: "prefix (decisions_read ?evs) (written T)" "length (got T) \<le> length (acks_written ?evs)"
    using worlds_faithful [OF assms(1,2)] assms(3) T(1) by (auto simp: faithful_def)
  have le: "length (decisions_read ?evs) \<le> length (acks_written ?evs)"
    using prefix_length_le [OF f(1)] f(2) T(2) by simp
  have ne: "?evs \<noteq> []" using f(2) T(3) by auto
  note r = worlds_reachable [OF assms(1)]
  obtain A where A: "actors (server w) ?i = Some A" "dialogue ?evs (a_phase A)"
    using reachable_dialogues_ok [OF r] ne by (auto simp: dialogues_ok_def split: option.splits)
  have rep: "replied ?evs"
  proof (rule ccontr)
    assume "\<not> replied ?evs"
    then obtain d where "pending ?evs d None"
      using A(2) pending_Some by (cases "a_phase A") (auto simp: dialogue_def, metis option.exhaust)
    then show False using le pending_counts by fastforce
  qed
  have "\<not> over (a_phase A)"
    using worlds_served [OF assms(1,2)] A(1) rep ne assms(3) T(1,4) unfolding served_def by blast
  moreover have "\<not> not_begun (a_phase A)"
    using reachable_silent_before [OF r] A(1) ne by (auto simp: silent_before_def)
  ultimately have "holds_thread (a_phase A)" using answered_holds A(2) rep by blast
  with A(1) T(1) show ?thesis by blast
qed

lemma one_turn:
  assumes "worlds conns w" "distinct (map fst conns)" "threads w t = Some T" "threads w u = Some U"
    "has_turn T" "has_turn U"
  shows "t = u"
proof -
  have "actor_of T = actor_of U"
    using turn_holds [OF assms(1-3,5)] turn_holds [OF assms(1,2,4,6)]
      reachable_one_holder [OF worlds_reachable [OF assms(1)]] unfolding one_holder_def by blast
  then show ?thesis
    using worlds_one_client [OF assms(1,2)] turn_holds [OF assms(1-3,5)] turn_holds [OF assms(1,2,4,6)] assms(3,4)
    unfolding one_client_def by blast
qed

section \<open>The semaphores\<close>

text \<open>Who waits for a semaphore and who is going to post it, with the process they are in.\<close>

datatype role = Waiter semaphore | Poster semaphore

fun role_of :: "place \<Rightarrow> role option" where
  "role_of (Sem_waiting s) = Some (Waiter s)"
| "role_of (Before_connect s) = Some (Poster s)"
| "role_of (Connecting_to s) = Some (Poster s)"
| "role_of (After_connect s) = Some (Poster s)"
| "role_of _ = None"

type_synonym roles = "tid \<Rightarrow> (role \<times> nat) option"

definition roles :: "world \<Rightarrow> roles" where
  "roles w t = Option.bind (threads w t) (\<lambda>T. map_option (\<lambda>r. (r, process T)) (role_of (place T)))"

definition semaphores_ok :: "roles \<Rightarrow> (semaphore \<rightharpoonup> nat) \<Rightarrow> semaphore \<Rightarrow> bool" where
  "semaphores_ok R S n \<longleftrightarrow>
     (\<forall>t s p. R t = Some (Waiter s, p) \<longrightarrow> s < n \<and>
        ((\<exists>k. S s = Some (Suc k)) \<or> S s = Some 0 \<and> (\<exists>u q. R u = Some (Poster s, q)))) \<and>
     (\<forall>u s q. R u = Some (Poster s, q) \<longrightarrow> S s = Some 0 \<and> (\<exists>t. R t = Some (Waiter s, q))) \<and>
     (\<forall>t u r p q. R t = Some (r, p) \<and> R u = Some (r, q) \<longrightarrow> t = u)"

lemma semaphores_okD:
  assumes "semaphores_ok R S n"
  shows "R t = Some (Waiter s, p) \<Longrightarrow> s < n"
    "R t = Some (Waiter s, p) \<Longrightarrow> (\<exists>k. S s = Some (Suc k)) \<or> S s = Some 0 \<and> (\<exists>u q. R u = Some (Poster s, q))"
    "R u = Some (Poster s, q) \<Longrightarrow> S s = Some 0"
    "R u = Some (Poster s, q) \<Longrightarrow> \<exists>t. R t = Some (Waiter s, q)"
    "R t = Some (r, p) \<Longrightarrow> R u = Some (r, q) \<Longrightarrow> t = u"
  using assms unfolding semaphores_ok_def by blast+

lemma semaphores_okI:
  assumes "\<And>t s p. R t = Some (Waiter s, p) \<Longrightarrow> s < n \<and>
      ((\<exists>k. S s = Some (Suc k)) \<or> S s = Some 0 \<and> (\<exists>u q. R u = Some (Poster s, q)))"
    "\<And>u s q. R u = Some (Poster s, q) \<Longrightarrow> S s = Some 0 \<and> (\<exists>t. R t = Some (Waiter s, q))"
    "\<And>t u r p q. R t = Some (r, p) \<Longrightarrow> R u = Some (r, q) \<Longrightarrow> t = u"
  shows "semaphores_ok R S n"
  using assms unfolding semaphores_ok_def by blast

lemma semaphores_ok_post:
  assumes "semaphores_ok R S n" "R t = Some (Poster s, p)"
  shows "semaphores_ok (R(t := None)) (S(s \<mapsto> Suc k)) n"
proof (rule semaphores_okI)
  fix u s' q assume u: "(R(t := None)) u = Some (Waiter s', q)"
  then have u': "u \<noteq> t" "R u = Some (Waiter s', q)" by (auto split: if_splits)
  have other: "(R(t := None)) v = Some (Poster s', q')" if "R v = Some (Poster s', q')" "s' \<noteq> s" for v q'
    using that assms(2) by auto
  show "s' < n \<and> ((\<exists>k'. (S(s \<mapsto> Suc k)) s' = Some (Suc k')) \<or>
      (S(s \<mapsto> Suc k)) s' = Some 0 \<and> (\<exists>v q. (R(t := None)) v = Some (Poster s', q)))"
    using semaphores_okD(1,2) [OF assms(1) u'(2)] other by (cases "s' = s") fastforce+
next
  fix u s' q assume u: "(R(t := None)) u = Some (Poster s', q)"
  then have u': "u \<noteq> t" "R u = Some (Poster s', q)" by (auto split: if_splits)
  then have "s' \<noteq> s" using semaphores_okD(5) [OF assms(1) u'(2)] assms(2) by blast
  moreover obtain v where "R v = Some (Waiter s', q)" using semaphores_okD(4) [OF assms(1) u'(2)] by blast
  ultimately show "(S(s \<mapsto> Suc k)) s' = Some 0 \<and> (\<exists>v. (R(t := None)) v = Some (Waiter s', q))"
    using semaphores_okD(3) [OF assms(1) u'(2)] assms(2) by (auto intro!: exI [of _ v])
qed (use semaphores_okD(5) [OF assms(1)] in \<open>auto split: if_splits\<close>)

lemma semaphores_ok_wait:
  assumes "semaphores_ok R S n" "R t = Some (Waiter s, p)" "S s = Some (Suc k)"
  shows "semaphores_ok (R(t := None)) (S(s := None)) n"
proof (rule semaphores_okI)
  fix u s' q assume "(R(t := None)) u = Some (Waiter s', q)"
  then have u: "u \<noteq> t" "R u = Some (Waiter s', q)" by (auto split: if_splits)
  then have "s' \<noteq> s" using semaphores_okD(5) [OF assms(1) u(2)] assms(2) by blast
  with semaphores_okD(1,2) [OF assms(1) u(2)] assms(2)
  show "s' < n \<and> ((\<exists>k'. (S(s := None)) s' = Some (Suc k')) \<or>
      (S(s := None)) s' = Some 0 \<and> (\<exists>v q. (R(t := None)) v = Some (Poster s', q)))"
    by (auto, metis option.inject prod.inject role.distinct(1))
next
  fix u s' q assume "(R(t := None)) u = Some (Poster s', q)"
  then have u: "u \<noteq> t" "R u = Some (Poster s', q)" by (auto split: if_splits)
  then have "s' \<noteq> s" using semaphores_okD(3) [OF assms(1) u(2)] assms(3) by auto
  moreover obtain v where "R v = Some (Waiter s', q)" using semaphores_okD(4) [OF assms(1) u(2)] by blast
  ultimately show "(S(s := None)) s' = Some 0 \<and> (\<exists>v. (R(t := None)) v = Some (Waiter s', q))"
    using semaphores_okD(3) [OF assms(1) u(2)] assms(2) by (auto intro!: exI [of _ v])
qed (use semaphores_okD(5) [OF assms(1)] in \<open>auto split: if_splits\<close>)

lemma semaphores_ok_spawn:
  assumes "semaphores_ok R S n" "R t = None" "R c = None" "c \<noteq> t"
  shows "semaphores_ok (R(t \<mapsto> (Waiter n, p), c \<mapsto> (Poster n, p))) (S(n \<mapsto> 0)) (Suc n)"
proof -
  let ?R = "R(t \<mapsto> (Waiter n, p), c \<mapsto> (Poster n, p))"
  have w: "s < n" if "R u = Some (Waiter s, q)" for u s q using semaphores_okD(1) [OF assms(1) that] .
  have po: "s < n" if "R u = Some (Poster s, q)" for u s q
    using semaphores_okD(4) [OF assms(1) that] w by blast
  have fresh: "R u \<noteq> Some (Waiter n, q)" "R u \<noteq> Some (Poster n, q)" for u q using w po by blast+
  have keep: "?R u = Some x" if "R u = Some x" for u x using that assms(2,3) by auto
  have old: "R u = Some x \<or> u = t \<and> x = (Waiter n, p) \<or> u = c \<and> x = (Poster n, p)" if "?R u = Some x" for u x
    using that by (auto split: if_splits)
  show ?thesis
  proof (rule semaphores_okI)
    fix u s q assume "?R u = Some (Waiter s, q)"
    then consider "R u = Some (Waiter s, q)" | "s = n" using old by blast
    then show "s < Suc n \<and> ((\<exists>k. (S(n \<mapsto> 0)) s = Some (Suc k)) \<or> (S(n \<mapsto> 0)) s = Some 0 \<and>
        (\<exists>v q. ?R v = Some (Poster s, q)))"
    proof cases
      case 1
      then show ?thesis using w [OF 1] semaphores_okD(2) [OF assms(1) 1] keep by fastforce
    next
      case 2
      then show ?thesis using assms(4) by (auto intro!: exI [of _ c])
    qed
  next
    fix u s q assume "?R u = Some (Poster s, q)"
    then consider "R u = Some (Poster s, q)" | "s = n" "q = p" using old by blast
    then show "(S(n \<mapsto> 0)) s = Some 0 \<and> (\<exists>v. ?R v = Some (Waiter s, q))"
    proof cases
      case 1
      then show ?thesis using po [OF 1] semaphores_okD(3,4) [OF assms(1) 1] keep by fastforce
    next
      case 2
      then show ?thesis using assms(4) by (auto intro!: exI [of _ t])
    qed
  next
    fix u v r q q' assume "?R u = Some (r, q)" "?R v = Some (r, q')"
    then show "u = v" using old [of u] old [of v] fresh semaphores_okD(5) [OF assms(1)] by blast
  qed
qed

lemma semaphores_ok_end:
  assumes "semaphores_ok R S n"
  shows "semaphores_ok (\<lambda>t. case R t of Some (r, q) \<Rightarrow> if q = p then None else Some (r, q) | None \<Rightarrow> None) S n"
    (is "semaphores_ok ?R S n")
proof -
  have R': "?R t = Some (r, q) \<longleftrightarrow> R t = Some (r, q) \<and> q \<noteq> p" for t r q
    by (auto split: option.splits if_splits)
  show ?thesis
  proof (rule semaphores_okI)
    fix t s q assume "?R t = Some (Waiter s, q)"
    then have t: "R t = Some (Waiter s, q)" "q \<noteq> p" unfolding R' by blast+
    have "q' = q" if "R u = Some (Poster s, q')" for u q'
      using semaphores_okD(4) [OF assms that] semaphores_okD(5) [OF assms t(1)] t(1) by fastforce
    with semaphores_okD(1,2) [OF assms t(1)] t(2)
    show "s < n \<and> ((\<exists>k. S s = Some (Suc k)) \<or> S s = Some 0 \<and> (\<exists>u q. ?R u = Some (Poster s, q)))"
      unfolding R' by blast
  next
    fix u s q assume "?R u = Some (Poster s, q)"
    then have u: "R u = Some (Poster s, q)" "q \<noteq> p" unfolding R' by blast+
    with semaphores_okD(3,4) [OF assms u(1)]
    show "S s = Some 0 \<and> (\<exists>t. ?R t = Some (Waiter s, q))" unfolding R' by blast
  qed (use semaphores_okD(5) [OF assms] R' in blast)
qed

lemma roles_other [simp]: "roles (w\<lparr>server := a\<rparr>) = roles w" "roles (w\<lparr>semaphores := b\<rparr>) = roles w"
  "roles (w\<lparr>next_semaphore := c\<rparr>) = roles w" "roles (w\<lparr>interrupted := d\<rparr>) = roles w"
  "roles (w\<lparr>dangling := e\<rparr>) = roles w" "roles (w\<lparr>next_process := f\<rparr>) = roles w"
  by (simp_all add: roles_def fun_eq_iff)

lemma roles_set: "roles (set_thread t T w) =
    (roles w)(t := map_option (\<lambda>r. (r, process T)) (role_of (place T)))"
  by (simp add: roles_def fun_eq_iff)

lemma roles_add: "roles (add_thread T w) =
    (roles w)(next_tid w := map_option (\<lambda>r. (r, process T)) (role_of (place T)))"
  by (simp add: roles_def fun_eq_iff)

lemma roles_end: "roles (end_process p w) =
    (\<lambda>t. case roles w t of Some (r, q) \<Rightarrow> if q = p then None else Some (r, q) | None \<Rightarrow> None)"
proof
  fix t
  show "roles (end_process p w) t =
      (case roles w t of Some (r, q) \<Rightarrow> if q = p then None else Some (r, q) | None \<Rightarrow> None)"
    by (cases "threads w t") (auto simp: roles_def end_process_def split: option.split)
qed

lemma roles_post [simp]: "roles (post s w) = roles w"
  by (simp add: roles_def fun_eq_iff)

lemma roles_thread: "threads w t = Some T \<Longrightarrow> roles w t = map_option (\<lambda>r. (r, process T)) (role_of (place T))"
  by (simp add: roles_def)

lemma roles_unchanged: "roles w t = x \<Longrightarrow> (roles w)(t := x) = roles w"
  by auto

lemma role_step:
  assumes "thread_step T l pl"
  shows "case l of Spawn s i \<Rightarrow> role_of (place T) = None \<and> pl = Sem_waiting s
    | Wait s \<Rightarrow> role_of (place T) = Some (Waiter s) \<and> role_of pl = None
    | Interrupt s \<Rightarrow> True
    | Post s \<Rightarrow> role_of (place T) = Some (Poster s) \<and> role_of pl = None
    | _ \<Rightarrow> role_of pl = role_of (place T)"
  using assms by (elim thread_step_elims) simp_all

definition sound_semaphores :: "world \<Rightarrow> bool" where
  "sound_semaphores w \<longleftrightarrow> interrupted w \<or>
     semaphores_ok (roles w) (semaphores w) (next_semaphore w) \<and> \<not> dangling w"

lemma sound_perform:
  assumes ok: "semaphores_ok (roles w) (semaphores w) (next_semaphore w)" "\<not> dangling w"
    and T: "threads w t = Some T" "thread_step T l pl" "enabled w T l" and tids: "tids_ok w"
  shows "sound_semaphores (perform_step t T l pl w)"
proof -
  note role = role_step [OF T(2)] and r = roles_thread [OF T(1)]
  note defs = sound_semaphores_def perform_step_def roles_set roles_add roles_end
  have t: "next_tid w \<noteq> t" "roles w (next_tid w) = None"
  proof -
    show "next_tid w \<noteq> t" using tids T(1) by (auto simp: tids_ok_def)
    have "threads w (next_tid w) = None" using tids unfolding tids_ok_def by (metis less_irrefl option.exhaust)
    then show "roles w (next_tid w) = None" by (simp add: roles_def)
  qed
  have same: "(roles w)(t := map_option (\<lambda>r. (r, process T)) (role_of pl)) = roles w"
    if "role_of pl = role_of (place T)" using r that by (intro roles_unchanged) simp
  show ?thesis
  proof (cases l)
    case (Spawn s i)
    then have "roles w t = None" "pl = Sem_waiting s" "s = next_semaphore w" using role r T(3) by auto
    with semaphores_ok_spawn [OF ok(1) this(1) t(2,1), of "process T"] Spawn ok(2)
    show ?thesis by (simp add: defs new_thread_def)
  next
    case (Wait s)
    then obtain k where "roles w t = Some (Waiter s, process T)" "role_of pl = None" "semaphores w s = Some (Suc k)"
      using role r T(3) by auto
    with semaphores_ok_wait [OF ok(1) this(1,3)] Wait ok(2) show ?thesis by (simp add: defs)
  next
    case (Post s)
    then have p: "roles w t = Some (Poster s, process T)" "role_of pl = None" using role r by auto
    then have "semaphores w s = Some 0" using semaphores_okD(3) [OF ok(1)] by blast
    with semaphores_ok_post [OF ok(1) p(1), of 0] Post ok(2) p(2) show ?thesis by (simp add: defs post_def)
  next
    case (Fork i)
    then have "(roles w)(next_tid w := None) = roles w" using t(2) by (intro roles_unchanged)
    with same Fork role ok show ?thesis by (simp add: defs new_thread_def)
  next
    case Terminate
    with same role ok semaphores_ok_end [OF ok(1), of "process T"] show ?thesis by (simp add: defs)
  qed (use same role ok in \<open>simp_all add: defs\<close>)
qed

lemma sound_semaphores_step:
  assumes "world_step w w'" "sound_semaphores w" "tids_ok w"
  shows "sound_semaphores w'"
  using assms(1)
proof cases
  case (thread_moves t T l pl)
  show ?thesis
  proof (cases "interrupted w")
    case True
    then have "interrupted w'" using thread_moves(1) by (cases l) (simp_all add: perform_step_def)
    then show ?thesis by (simp add: sound_semaphores_def)
  next
    case False
    with assms(2) show ?thesis
      using sound_perform [OF _ _ thread_moves(2-4) assms(3)] thread_moves(1) by (simp add: sound_semaphores_def)
  qed
next
  case (connection_fails t T)
  have "roles w' = roles w"
    using connection_fails by (simp add: roles_set roles_thread roles_unchanged)
  then show ?thesis using assms(2) connection_fails(1) by (simp add: sound_semaphores_def)
next
  case (process_dies t T)
  then show ?thesis using assms(2) by (auto simp: sound_semaphores_def roles_end intro: semaphores_ok_end)
qed (use assms(2) in \<open>simp add: sound_semaphores_def\<close>)

lemma worlds_sound_semaphores: "worlds conns w \<Longrightarrow> sound_semaphores w"
proof (induction rule: worlds.induct)
  case worlds_init
  have "roles (init_world conns) = (\<lambda>_. None)"
    by (auto simp: roles_def init_world_def new_thread_def)
  then show ?case by (simp add: sound_semaphores_def semaphores_ok_def) (simp add: init_world_def)
next
  case (worlds_step w w')
  then show ?case using sound_semaphores_step worlds_tids_ok by blast
qed

section \<open>The children\<close>

text \<open>A child has ended once its parent has joined it.\<close>

definition joined :: "place \<Rightarrow> tid \<Rightarrow> bool" where
  "joined pl c \<longleftrightarrow> (case pl of Ended \<Rightarrow> True | Joining cs \<Rightarrow> c \<notin> set cs | _ \<Rightarrow> False)"

definition children_ok :: "world \<Rightarrow> bool" where
  "children_ok w \<longleftrightarrow> (\<forall>t T c. threads w t = Some T \<and> c \<in> set (children T) \<longrightarrow>
     (\<exists>C. threads w c = Some C \<and> process C = process T \<and> (joined (place T) c \<longrightarrow> place C = Ended)))"

lemma children_after: "children (after c l pl T) = (case l of Spawn s i \<Rightarrow> children T @ [c] | _ \<Rightarrow> children T)"
  by (cases l) (simp_all add: after_def)

lemma joined_step:
  assumes "thread_step T l pl" "joined pl c" "c \<in> set (children T)"
  shows "joined (place T) c \<or> l = Join c \<or> l = Terminate"
  using assms by (elim thread_step_elims) (auto simp: joined_def split: if_splits)

lemma children_ok_step:
  assumes "world_step w w'" "children_ok w" "all_balanced w" "tids_ok w"
  shows "children_ok w'"
proof -
  have old: "\<exists>C'. threads w' c = Some C' \<and> process C' = process T \<and> (joined (place T) c \<longrightarrow> place C' = Ended)"
    if "threads w u = Some T" "c \<in> set (children T)" for u T c
  proof -
    obtain C where C: "threads w c = Some C" "process C = process T" "joined (place T) c \<longrightarrow> place C = Ended"
      using assms(2) \<open>threads w u = Some T\<close> \<open>c \<in> set (children T)\<close> unfolding children_ok_def by blast
    obtain C' where "threads w' c = Some C'" "continues C C'"
      using thread_continues [OF assms(1) C(1) assms(3,4)] by blast
    with C show ?thesis by (auto simp: continues_def)
  qed
  have ended: "place C = Ended" if e: "threads (end_process p v) c = Some C" and q: "process C = p" for p v c C
  proof -
    obtain C' where "C = (if process C' = p then C'\<lparr>place := Ended\<rparr> else C')"
      using e unfolding threads_end by blast
    with q show ?thesis by (cases "process C' = p") simp_all
  qed
  show ?thesis
    unfolding children_ok_def
  proof (intro allI impI)
    fix u U c assume h: "threads w' u = Some U \<and> c \<in> set (children U)"
    show "\<exists>C. threads w' c = Some C \<and> process C = process U \<and> (joined (place U) c \<longrightarrow> place C = Ended)"
      using assms(1)
    proof cases
      case (server_moves s')
      then show ?thesis using old [of u U c] h by simp
    next
      case (connection_fails t T)
      obtain T' where "threads w u = Some T'" "children T' = children U" "place T' = place U" "process T' = process U"
        using connection_fails h by (auto split: if_splits)
      with old [of u T' c] h show ?thesis by auto
    next
      case (process_dies t T)
      obtain T' where T': "threads w u = Some T'" "U = (if process T' = process T then T'\<lparr>place := Ended\<rparr> else T')"
        using process_dies h by (auto simp: threads_end)
      then have "c \<in> set (children T')" using h by (auto split: if_splits)
      from old [OF T'(1) this] obtain C where C: "threads w' c = Some C" "process C = process T'"
        "joined (place T') c \<longrightarrow> place C = Ended" by blast
      have "place C = Ended" if "joined (place U) c"
        using ended [of "process T" w c C] C T'(2) process_dies(1) that by (auto split: if_splits)
      with C(1,2) T'(2) show ?thesis by auto
    next
      case (thread_moves t T l pl)
      consider V where "u = t \<and> V = after (next_tid w) l pl T \<or> u \<noteq> t \<and> threads w u = Some V"
          "U = (if l = Terminate \<and> process V = process T then V\<lparr>place := Ended\<rparr> else V)"
        | "children U = []"
        using threads_perform [OF h [unfolded thread_moves(1), THEN conjunct1]] by (auto simp: new_thread_def)
      then show ?thesis
      proof cases
        case 2
        then show ?thesis using h by simp
      next
        case (1 V)
        have cV: "c \<in> set (children V)" using h 1(2) by (auto split: if_splits)
        show ?thesis
        proof (cases "\<exists>T'. threads w u = Some T' \<and> c \<in> set (children T') \<and> process T' = process V")
          case True
          then obtain T' where T': "threads w u = Some T'" "c \<in> set (children T')" "process T' = process V" by blast
          obtain C where C: "threads w' c = Some C" "process C = process T'"
            "joined (place T') c \<longrightarrow> place C = Ended" using old [OF T'(1,2)] by blast
          have p: "process C = process U" using C(2) T'(3) 1(2) by simp
          have "place C = Ended" if j: "joined (place U) c"
          proof (cases "l = Terminate \<and> process V = process T")
            case True
            then have "w' = end_process (process T) (set_thread t (after (next_tid w) l pl T) w)"
              using thread_moves(1) by (simp add: perform_step_def)
            with ended [of "process T" _ c C] C(1,2) T'(3) True show ?thesis by auto
          next
            case False
            have U: "U = V" by (rule trans [OF 1(2) if_not_P [OF False]])
            show ?thesis
            proof (cases "u = t")
              case False
              then show ?thesis using 1(1) U T'(1) C(3) j by auto
            next
              case u: True
              then have "V = after (next_tid w) l pl T" "T' = T" using 1(1) T'(1) thread_moves(2) by auto
              then have "joined pl c" "\<not> l = Terminate" using j U False by auto
              with joined_step [OF thread_moves(3) _ T'(2) [unfolded \<open>T' = T\<close>]]
              consider "joined (place T) c" | "l = Join c" by blast
              then show ?thesis
              proof cases
                case 1
                then show ?thesis using C(3) \<open>T' = T\<close> by simp
              next
                case 2
                then obtain C0 where C0: "threads w c = Some C0" "place C0 = Ended"
                  using thread_moves(4) by auto
                obtain C' where "threads w' c = Some C'" "continues C0 C'"
                  using thread_continues [OF assms(1) C0(1) assms(3,4)] by blast
                with C0(2) C(1) show ?thesis by (simp add: continues_def)
              qed
            qed
          qed
          with C(1) p show ?thesis by blast
        next
          case False
          have "u = t" using 1(1) False cV by auto
          then have V: "V = after (next_tid w) l pl T" using 1(1) by simp
          then obtain s i where l: "l = Spawn s i" "c = next_tid w"
            using cV False \<open>u = t\<close> thread_moves(2) by (auto simp: children_after split: label.splits)
          then have "place U = Sem_waiting s" "process U = process T" using role_step [OF thread_moves(3)] 1(2) V by auto
          then show ?thesis using l thread_moves(1) by (simp add: perform_step_def new_thread_def joined_def)
        qed
      qed
    qed
  qed
qed

lemma worlds_children_ok: "worlds conns w \<Longrightarrow> children_ok w"
proof (induction rule: worlds.induct)
  case worlds_init
  show ?case by (auto simp: children_ok_def init_world_def new_thread_def split: if_splits)
next
  case (worlds_step w w')
  then show ?case using children_ok_step worlds_balanced worlds_tids_ok by blast
qed

section \<open>The code of a created actor\<close>

definition child_of :: "world \<Rightarrow> (tid \<times> tid) set" where
  "child_of w = {(t, c). \<exists>T. threads w t = Some T \<and> c \<in> set (children T)}"

text \<open>A thread of \<^verbatim>\<open>Actor::create\<close> does nothing of its own before its first acknowledgment.\<close>

definition begins_late :: "thread \<Rightarrow> bool" where
  "begins_late T \<longleftrightarrow> got T \<noteq> [] \<or> (case place T of Before_connect s \<Rightarrow> True | Connecting_to s \<Rightarrow> True
     | After_connect s \<Rightarrow> True | Yielding \<Rightarrow> True | Rethrowing \<Rightarrow> True | Sending p \<Rightarrow> p = For_yield
     | Leaving \<Rightarrow> True | Joining cs \<Rightarrow> True | Ended \<Rightarrow> True | _ \<Rightarrow> False)"

lemma begins_late_step:
  assumes "begins_late T" "thread_step T l pl"
  shows "begins_late (after c l pl T)"
  using assms(2,1) by (elim thread_step_elims) (simp_all add: begins_late_def after_def)

definition children_begin_late :: "world \<Rightarrow> bool" where
  "children_begin_late w \<longleftrightarrow> (\<forall>u c C. (u, c) \<in> child_of w \<and> threads w c = Some C \<longrightarrow> begins_late C)"

lemma child_of_step:
  assumes "world_step w w'" "(u, c) \<in> child_of w'"
  shows "(u, c) \<in> child_of w \<or> (\<exists>C. c = next_tid w \<and> threads w' c = Some C \<and> begins_late C)"
proof -
  obtain U where U: "threads w' u = Some U" "c \<in> set (children U)" using assms(2) by (auto simp: child_of_def)
  show ?thesis
    using assms(1)
  proof cases
    case (thread_moves t T l pl)
    consider V where "u = t \<and> V = after (next_tid w) l pl T \<or> u \<noteq> t \<and> threads w u = Some V" "children U = children V"
      | "children U = []"
      using threads_perform [OF U(1) [unfolded thread_moves(1)]] by (auto simp: new_thread_def)
    then show ?thesis
    proof cases
      case (1 V)
      then have c: "c \<in> set (children V)" using U(2) by simp
      show ?thesis
      proof (cases "u = t \<and> c \<notin> set (children T)")
        case True
        then obtain s i where l: "l = Spawn s i" "c = next_tid w"
          using 1(1) c by (auto simp: children_after split: label.splits)
        then have "threads w' c = Some (new_thread (process T) i (Before_connect s))"
          using thread_moves(1) by (simp add: perform_step_def)
        with l show ?thesis by (auto simp: begins_late_def new_thread_def)
      next
        case False
        then show ?thesis using 1(1) c thread_moves(2) by (auto simp: child_of_def)
      qed
    next
      case 2
      then show ?thesis using U(2) by simp
    qed
  next
    case (process_dies t T)
    obtain T' where "threads w u = Some T'" "U = (if process T' = process T then T'\<lparr>place := Ended\<rparr> else T')"
      using U(1) unfolding process_dies(1) threads_end by blast
    then show ?thesis using U(2) by (simp add: child_of_def split: if_splits)
  next
    case (connection_fails t T)
    then show ?thesis using U by (auto simp: child_of_def split: if_splits)
  next
    case (server_moves s')
    then show ?thesis using U by (auto simp: child_of_def)
  qed
qed

lemma children_begin_late_step:
  assumes "world_step w w'" "children_begin_late w" "children_ok w" "tids_ok w"
  shows "children_begin_late w'"
  unfolding children_begin_late_def
proof (intro allI impI)
  fix u c C' assume h: "(u, c) \<in> child_of w' \<and> threads w' c = Some C'"
  show "begins_late C'"
  proof (cases "(u, c) \<in> child_of w")
    case False
    then show ?thesis using child_of_step [OF assms(1)] h by fastforce
  next
    case True
    then obtain U where "threads w u = Some U" "c \<in> set (children U)" by (auto simp: child_of_def)
    then obtain C where c: "threads w c = Some C" using assms(3) unfolding children_ok_def by blast
    moreover have "begins_late C" using assms(2) True c unfolding children_begin_late_def by blast
    ultimately have C: "threads w c = Some C" "begins_late C" by simp_all
    show ?thesis
      using assms(1)
    proof cases
      case (thread_moves t T l pl)
      have "begins_late (after (next_tid w) l pl T)" if "c = t"
        using begins_late_step [OF _ thread_moves(3)] C that thread_moves(2) by simp
      moreover have "c \<noteq> next_tid w" using C(1) assms(4) by (auto simp: tids_ok_def)
      ultimately show ?thesis
        using threads_perform [OF h [THEN conjunct2, unfolded thread_moves(1)]] C
        by (auto simp: begins_late_def split: if_splits)
    next
      case (process_dies t T)
      obtain T' where "threads w c = Some T'" "C' = (if process T' = process T then T'\<lparr>place := Ended\<rparr> else T')"
        using h unfolding process_dies(1) threads_end by blast
      then show ?thesis using C by (simp add: begins_late_def)
    qed (use h C in \<open>auto simp: begins_late_def split: if_splits\<close>)
  qed
qed

lemma worlds_children_begin_late: "worlds conns w \<Longrightarrow> children_begin_late w"
proof (induction rule: worlds.induct)
  case worlds_init
  show ?case by (auto simp: children_begin_late_def child_of_def init_world_def new_thread_def split: if_splits)
next
  case (worlds_step w w')
  then show ?case using children_begin_late_step worlds_children_ok worlds_tids_ok by blast
qed

section \<open>What the user can rely on\<close>

text \<open>
  A thread executes the user's code: the callbacks around the connection, or its code. An initial actor or
  a forked one runs freely until its first acknowledgment, and only counts from then on.
\<close>

definition executes :: "world \<Rightarrow> tid \<Rightarrow> bool" where
  "executes w t \<longleftrightarrow> (\<exists>T. threads w t = Some T \<and> user_code (place T) \<and>
     (place T = Code \<longrightarrow> got T \<noteq> [] \<or> (\<exists>u. (u, t) \<in> child_of w)))"

definition undisturbed :: "world \<Rightarrow> bool" where
  "undisturbed w \<longleftrightarrow> \<not> interrupted w \<and> every_thread (\<lambda>T. \<not> lost T) w"

text \<open>The thread whose turn it is when \<open>t\<close> executes: itself, or its parent, which waits for it.\<close>

lemma roles_iff: "roles w t = Some (r, p) \<longleftrightarrow>
    (\<exists>T. threads w t = Some T \<and> role_of (place T) = Some r \<and> process T = p)"
  by (auto simp: roles_def bind_eq_Some_conv)

lemma role_of_Waiter: "role_of pl = Some (Waiter s) \<longleftrightarrow> pl = Sem_waiting s"
  by (cases pl) simp_all

lemma executes_turn:
  assumes "worlds conns w" "undisturbed w" "executes w t"
  shows "\<exists>h H. threads w h = Some H \<and> has_turn H \<and> (h = t \<and> place H = Code \<or>
    (\<exists>s p. place H = Sem_waiting s \<and> roles w t = Some (Poster s, p)))"
proof -
  obtain T where T: "threads w t = Some T" "user_code (place T)"
    "place T = Code \<longrightarrow> got T \<noteq> [] \<or> (\<exists>u. (u, t) \<in> child_of w)"
    using assms(3) by (auto simp: executes_def)
  have alive: "\<not> lost H" if "threads w h = Some H" for h H
    using assms(2) that by (auto simp: undisturbed_def every_thread_def)
  show ?thesis
  proof (cases "place T = Code")
    case True
    have "begins_late T" if "(u, t) \<in> child_of w" for u
      using worlds_children_begin_late [OF assms(1)] T(1) that unfolding children_begin_late_def by blast
    then have "got T \<noteq> []" using T(3) True by (auto simp: begins_late_def)
    then have "has_turn T" using True alive [OF T(1)] by (simp add: has_turn_def gone_def)
    with T(1) True show ?thesis by blast
  next
    case False
    then obtain s where s: "roles w t = Some (Poster s, process T)"
      using T(1,2) by (auto simp: roles_iff user_code_def split: place.splits)
    have "semaphores_ok (roles w) (semaphores w) (next_semaphore w)"
      using worlds_sound_semaphores [OF assms(1)] assms(2) by (simp add: sound_semaphores_def undisturbed_def)
    from semaphores_okD(4) [OF this s] obtain h H where H: "threads w h = Some H" "place H = Sem_waiting s"
      by (auto simp: roles_iff role_of_Waiter)
    have "in_balance H" using worlds_balanced [OF assms(1)] H(1) by (auto simp: all_balanced_def every_thread_def)
    then have "has_turn H" using H alive [OF H(1)] by (simp add: in_balance_def has_turn_def gone_def)
    with H s show ?thesis by blast
  qed
qed



text \<open>C24: threads end in order: when a thread has ended (its connection has been destroyed, or its process
  has ended), all the threads it has created, and those they have created, have ended.\<close>

theorem descendants_end_first:
  assumes "worlds conns w" "threads w t = Some T" "place T = Ended" "(t, c) \<in> (child_of w)\<^sup>*"
  shows "\<exists>C. threads w c = Some C \<and> place C = Ended"
  using assms(4)
proof (induction rule: rtrancl_induct)
  case base
  show ?case using assms(2,3) by blast
next
  case (step c c')
  obtain C where "threads w c = Some C" "c' \<in> set (children C)" using step.hyps(2) by (auto simp: child_of_def)
  moreover from this step.IH have "joined (place C) c'" by (simp add: joined_def)
  ultimately show ?case using worlds_children_ok [OF assms(1)] unfolding children_ok_def by blast
qed

section \<open>An example: an actor creates another\<close>

definition calm_others :: "(int \<rightharpoonup> actor) \<Rightarrow> bool" where
  "calm_others O' \<longleftrightarrow> (\<forall>j B. O' j = Some B \<longrightarrow> \<not> holds_thread (a_phase B) \<and> a_phase B \<noteq> Terminated \<and>
     (\<forall>D c k. running (a_phase B) = Some (D, Do c k) \<longrightarrow> pinned_comm c = None))"

text \<open>One client, whose actor is in the phase \<open>ph\<close>, and other actors that wait.\<close>

definition stage :: "world \<Rightarrow> (int \<rightharpoonup> actor) \<Rightarrow> phase \<Rightarrow> Refcount_Store.server \<Rightarrow> io_event list \<Rightarrow> thread \<Rightarrow> bool" where
  "stage w O' ph st evs T \<longleftrightarrow> worlds [(2, 9)] w \<and>
     actors (server w) = O'(2 \<mapsto> \<lparr>a_socket = Some 9, a_phase = ph\<rparr>) \<and> calm_others O' \<and>
     shared (server w) = st \<and> events (server w) = (\<lambda>_. [])(2 := evs) \<and> prefix (decisions_read evs) (written T) \<and>
     threads w = [0 \<mapsto> T] \<and> linked T \<and> actor_of T = 2 \<and> next_tid w = 1 \<and> semaphores w = Map.empty \<and>
     next_semaphore w = 0 \<and> \<not> interrupted w"

lemma stage_facts:
  assumes "stage w O' ph st evs T"
  shows "actors (server w) 2 = Some \<lparr>a_socket = Some 9, a_phase = ph\<rparr>" "exclusive (server w) 2"
    "drops_allowed (server w) 2 D" "shared (server w) = st" "worlds [(2, 9)] w"
  using assms by (auto simp: stage_def exclusive_def drops_allowed_def calm_others_def split: if_splits)

lemma stage_serve:
  assumes "stage w O' ph st evs T" "sys_step (server w) s'" "actors s' = Q(2 \<mapsto> \<lparr>a_socket = Some 9, a_phase = ph'\<rparr>)"
    "calm_others Q" "ph' \<noteq> Terminated" "events s' = (\<lambda>_. [])(2 := evs')"
    "prefix (decisions_read evs') (written T)"
  shows "\<exists>w'. stage w' Q ph' (shared s') evs' T"
proof -
  have T: "connected_to w 2 T" using assms(1) by (auto simp: stage_def connected_to_def)
  have "reads_clients w s'"
    unfolding reads_clients_def
  proof (intro conjI allI impI)
    fix i assume "events s' i \<noteq> []"
    then have "i = 2" using assms(6) by (auto split: if_splits)
    then show "\<exists>T. connected_to w i T \<and> prefix (decisions_read (events s' i)) (written T)"
      using T assms(6,7) by auto
  next
    fix i A A' U assume "actors (server w) i = Some A \<and> a_phase A = Reading \<and> actors s' i = Some A' \<and> a_phase A' = Terminated"
    then show "gone U" using assms(3,4,5) by (auto simp: calm_others_def split: if_splits)
  qed
  then have "worlds [(2, 9)] (w\<lparr>server := s'\<rparr>)"
    using assms(1,2) by (intro worlds_step [OF _ server_moves]) (simp_all add: stage_def)
  with assms show ?thesis by (auto simp: stage_def intro!: exI [of _ "w\<lparr>server := s'\<rparr>"])
qed

lemma stage_read:
  assumes s: "stage w O' Reading st evs T" and turn: "actor_turn d st = (st', p)"
    and d: "prefix (decisions_read (evs @ [Rx d])) (written T)"
  shows "\<exists>w'. stage w' O' (Handling (drops (type_case d)) p) st' (evs @ [Rx d]) T"
proof -
  have turn': "actor_turn d (shared (server w)) = (st', p)" using turn stage_facts(4) [OF s] by simp
  note step = sys_step_with.read [where allowed = drops_allowed, OF stage_facts(1) [OF s] _ stage_facts(2,3) [OF s] turn']
  show ?thesis using stage_serve [OF s step] s d by (fastforce simp: sys_ops stage_def)
qed

lemma stage_resume:
  assumes s: "stage w O' (Handling D (Do c k)) st evs T" and r: "well_typed c r" "s4u_ok c r st"
    "\<And>n h q. c \<noteq> Actor_create n h q" "k r st = (st', p)"
  shows "\<exists>w'. stage w' O' (Handling D p) st' (evs @ tx (sent c r)) T"
proof -
  have r': "s4u_ok c r (shared (server w))" "k r (shared (server w)) = (st', p)"
    using r(2,4) stage_facts(4) [OF s] by simp_all
  have step: "sys_step (server w) (set_phase 2 \<lparr>a_socket = Some 9, a_phase = Handling D (Do c k)\<rparr> (Handling D p)
      (record_call 2 c r (server w\<lparr>shared := st'\<rparr>)))"
    by (rule sys_step_with.resume [where allowed = drops_allowed and k = k and r = r and c = c]) (use stage_facts [OF s] r r' in simp_all)
  have pre: "prefix (decisions_read (evs @ tx (sent c r))) (written T)"
    using s by (cases "sent c r") (simp_all add: tx_def stage_def)
  have same: "shared (record_call i c r s) = shared s" "actors (record_call i c r s) = actors s" for i and s :: sys
    by (cases c; cases r; simp add: record_call_def log_event_def split: bool.splits)+
  have ev: "events (record_call 2 c r (server w\<lparr>shared := st'\<rparr>)) = (\<lambda>_. [])(2 := evs @ tx (sent c r))"
    using s by (auto simp: fun_eq_iff events_record_call stage_def)
  show ?thesis
    using stage_serve [OF s step, of O' "Handling D p" "evs @ tx (sent c r)"] s pre ev same
    by (simp add: sys_ops stage_def)
qed

lemma stage_create:
  assumes s: "stage w Map.empty (Handling D (Do (Actor_create n h q) k)) st evs T"
    and r: "k (Ret_int 3) st = (st', p)"
  shows "\<exists>w' B. stage w' [3 \<mapsto> B] (Handling D p) st' evs T"
proof -
  obtain st'' p' where pr: "actor_prologue q st' = (st'', p')" by (cases "actor_prologue q st'")
  have p': "st'' = st'" "\<exists>k. p' = Do Get_pid k" using pr by (auto simp: actor_prologue_def call_int_def)
  have r': "k (Ret_int 3) (shared (server w)) = (st', p)" using r stage_facts(4) [OF s] by simp
  have none: "actors (server w) 3 = None" using s by (simp add: stage_def)
  have step: "sys_step (server w) (set_actor 3 \<lparr>a_socket = None, a_phase = Connecting p'\<rparr>
      (set_phase 2 \<lparr>a_socket = Some 9, a_phase = Handling D (Do (Actor_create n h q) k)\<rparr> (Handling D p)
        (server w\<lparr>shared := st''\<rparr>)))"
    by (rule sys_step_with.create [where allowed = drops_allowed and n = n and h = h and k = k and pid = 3, OF _ _ _ _ none r' pr]) (use stage_facts [OF s] in simp_all)
  let ?B = "\<lparr>a_socket = None, a_phase = Connecting p'\<rparr>"
  have calm: "calm_others [3 \<mapsto> ?B]" using p' by (auto simp: calm_others_def io_call_def pinned_comm_def split: if_splits)
  have "\<exists>w'. stage w' [3 \<mapsto> ?B] (Handling D p) st' evs T"
    using stage_serve [OF s step, of "[3 \<mapsto> ?B]" "Handling D p" evs] s calm p'(1)
    by (simp add: sys_ops stage_def fun_upd_twist)
  then show ?thesis by blast
qed

definition create_decision :: decision where
  "create_decision = no_think (KActorCreate ''a'' ''h'')"

definition create_reply :: decision_ack where
  "create_reply = ack_ok\<lparr>ack_data := A_actorCreate 3\<rparr>"

lemma create_turn:
  "\<exists>st1 k1 st2 q k2 st3 m k3 st4 q1 k4 st5 k5 st6 k6 st7.
     actor_turn create_decision empty_server = (st1, Do (Host_by_name ''h'') k1) \<and>
     k1 Ret_unit st1 = (st2, Do (Actor_create ''a'' ''h'' q) k2) \<and>
     k2 (Ret_int 3) st2 = (st3, Do (Queue_push_to_command m) k3) \<and>
     k3 (Ret_bool True) st3 = (st4, Do (Queue_wait q1) k4) \<and>
     k4 Ret_unit st4 = (st5, Do (Queue_pop q1) k5) \<and>
     k5 (Ret_msg (Some Im_actor_create_ack)) st5 = (st6, Do (Socket_write create_reply) k6) \<and>
     k6 Ret_unit st6 = (st7, Done (Handled create_reply False False))"
  by (simp add: create_decision_def create_reply_def turn_defs handle_actor_create_def announce_actor_def
      create_acknowledged_def call_defs split_beta Let_def c_str_def new_queue_def)

lemma stage_begin:
  "\<exists>w T. stage w Map.empty Reading empty_server [] T \<and> T = (new_thread 0 2 (Sending For_create))\<lparr>linked := True,
     written := [create_decision]\<rparr> \<and> next_tid w = 1"
proof -
  let ?U = "(new_thread 0 2 Code)\<lparr>linked := True\<rparr>"
  let ?T = "(new_thread 0 2 (Sending For_create))\<lparr>linked := True, written := [create_decision]\<rparr>"
  let ?w = "init_world [(2, 9)]" and ?v = "perform_step 0 ?U (Write create_decision) (Sending For_create) (init_world [(2, 9)])"
  have t0: "threads ?w 0 = Some ?U" by (simp add: init_world_def)
  have "thread_step ?U (Write create_decision) (Sending For_create)"
    by (rule thread_step.intros(2), rule create_step.create_call)
      (simp_all add: new_thread_def create_decision_def no_think_def)
  then have w1: "worlds [(2, 9)] ?v"
    using worlds_init t0 by (intro worlds_step [OF _ thread_moves]) auto
  have "threads ?w = [0 \<mapsto> ?U]" by (auto simp: init_world_def fun_eq_iff)
  then have "threads ?v = [0 \<mapsto> ?T]" by (simp add: perform_step_def after_def new_thread_def)
  moreover have "actors (server ?v) = [2 \<mapsto> \<lparr>a_socket = Some 9, a_phase = Starting\<rparr>]"
    by (rule ext) (simp add: init_world_def init_sys_def)
  ultimately have s1: "stage ?v Map.empty Starting empty_server [] ?T"
    using w1 by (simp add: stage_def calm_others_def)
      (simp add: perform_step_def init_world_def init_sys_def new_thread_def fun_eq_iff)
  have "sys_step (server ?v) (set_phase 2 \<lparr>a_socket = Some 9, a_phase = Starting\<rparr> Reading (server ?v))"
    by (rule sys_step_with.start) (use stage_facts [OF s1] in simp_all)
  from stage_serve [OF s1 this, of Map.empty Reading "[]"] s1
  obtain w2 where "stage w2 Map.empty Reading empty_server [] ?T"
    by (auto simp: sys_ops stage_def calm_others_def)
  then show ?thesis by (auto simp: stage_def)
qed

text \<open>The creator waits for its semaphore; the new thread has not connected yet.\<close>

definition creator :: thread where
  "creator = \<lparr>process = 0, actor_of = 2, linked = True, lost = False, place = Sem_waiting 0,
     written = [create_decision], got = [create_reply], children = [1]\<rparr>"

lemma example_world:
  "\<exists>w. worlds [(2, 9)] w \<and> threads w = [0 \<mapsto> creator, 1 \<mapsto> new_thread 0 3 (Before_connect 0)] \<and>
     semaphores w = [0 \<mapsto> 0] \<and> \<not> interrupted w"
proof -
  obtain st1 k1 st2 q k2 st3 m k3 st4 q1 k4 st5 k5 st6 k6 st7 where turn:
    "actor_turn create_decision empty_server = (st1, Do (Host_by_name ''h'') k1)"
    "k1 Ret_unit st1 = (st2, Do (Actor_create ''a'' ''h'' q) k2)"
    "k2 (Ret_int 3) st2 = (st3, Do (Queue_push_to_command m) k3)"
    "k3 (Ret_bool True) st3 = (st4, Do (Queue_wait q1) k4)"
    "k4 Ret_unit st4 = (st5, Do (Queue_pop q1) k5)"
    "k5 (Ret_msg (Some Im_actor_create_ack)) st5 = (st6, Do (Socket_write create_reply) k6)"
    "k6 Ret_unit st6 = (st7, Done (Handled create_reply False False))"
    using create_turn by blast
  let ?D = "drops (type_case create_decision)" and ?rx = "[Rx create_decision]"
  note ok = well_typed_def call_shape_def s4u_ok_def sent_def tx_def
  obtain w0 T where w0: "stage w0 Map.empty Reading empty_server [] T"
    and T: "T = (new_thread 0 2 (Sending For_create))\<lparr>linked := True, written := [create_decision]\<rparr>"
    using stage_begin by blast
  obtain w1 where w1: "stage w1 Map.empty (Handling ?D (Do (Host_by_name ''h'') k1)) st1 ?rx T"
    using stage_read [OF w0 turn(1)] T by auto
  obtain w2 where w2: "stage w2 Map.empty (Handling ?D (Do (Actor_create ''a'' ''h'' q) k2)) st2 ?rx T"
    using stage_resume [OF w1 _ _ _ turn(2)] by (auto simp: ok)
  obtain w3 B where w3: "stage w3 [3 \<mapsto> B] (Handling ?D (Do (Queue_push_to_command m) k3)) st3 ?rx T"
    using stage_create [OF w2 turn(3)] by blast
  obtain w4 where w4: "stage w4 [3 \<mapsto> B] (Handling ?D (Do (Queue_wait q1) k4)) st4 ?rx T"
    using stage_resume [OF w3 _ _ _ turn(4)] by (auto simp: ok)
  obtain w5 where w5: "stage w5 [3 \<mapsto> B] (Handling ?D (Do (Queue_pop q1) k5)) st5 ?rx T"
    using stage_resume [OF w4 _ _ _ turn(5)] by (auto simp: ok)
  obtain w6 where w6: "stage w6 [3 \<mapsto> B] (Handling ?D (Do (Socket_write create_reply) k6)) st6 ?rx T"
    using stage_resume [OF w5 _ _ _ turn(6)] by (auto simp: ok)
  obtain w7 where w7: "stage w7 [3 \<mapsto> B] (Handling ?D (Done (Handled create_reply False False))) st7
      (?rx @ [Tx create_reply]) T"
    using stage_resume [OF w6 _ _ _ turn(7)] by (auto simp: ok)
  let ?V = "T\<lparr>place := Creating 3, got := [create_reply]\<rparr>"
  have step1: "thread_step T (Read create_reply) (Creating 3)"
    using create_step.create_ack [of T create_reply] T
    by (intro thread_step.intros(2)) (simp add: new_thread_def create_reply_def ack_ok_def get_actorCreate_def)
  have en1: "enabled w7 T (Read create_reply)"
    using w7 T by (simp add: stage_def new_thread_def)
  have w7': "threads w7 0 = Some T" "worlds [(2, 9)] w7" using w7 by (simp_all add: stage_def)
  have "worlds [(2, 9)] (perform_step 0 T (Read create_reply) (Creating 3) w7)"
    by (rule worlds_step [OF w7'(2) thread_moves [OF w7'(1) step1 en1]])
  moreover have "threads (perform_step 0 T (Read create_reply) (Creating 3) w7) = [0 \<mapsto> ?V] \<and>
      next_tid (perform_step 0 T (Read create_reply) (Creating 3) w7) = 1 \<and>
      semaphores (perform_step 0 T (Read create_reply) (Creating 3) w7) = Map.empty \<and>
      next_semaphore (perform_step 0 T (Read create_reply) (Creating 3) w7) = 0 \<and>
      \<not> interrupted (perform_step 0 T (Read create_reply) (Creating 3) w7)"
    using w7 T by (simp add: stage_def perform_step_def after_def new_thread_def)
  ultimately obtain w8 where w8: "worlds [(2, 9)] w8" "threads w8 = [0 \<mapsto> ?V]" "next_tid w8 = 1"
    "semaphores w8 = Map.empty" "next_semaphore w8 = 0" "\<not> interrupted w8" by blast
  have step2: "thread_step ?V (Spawn 0 3) (Sem_waiting 0)"
    using create_step.create_thread [of ?V 3 0] by (intro thread_step.intros(2)) simp
  have "worlds [(2, 9)] (perform_step 0 ?V (Spawn 0 3) (Sem_waiting 0) w8)"
    by (rule worlds_step [OF w8(1) thread_moves [OF _ step2]]) (use w8 in simp_all)
  moreover have "threads (perform_step 0 ?V (Spawn 0 3) (Sem_waiting 0) w8) =
      [0 \<mapsto> creator, 1 \<mapsto> new_thread 0 3 (Before_connect 0)]"
    using w8 T by (simp add: perform_step_def after_def creator_def new_thread_def)
  moreover have "semaphores (perform_step 0 ?V (Spawn 0 3) (Sem_waiting 0) w8) = [0 \<mapsto> 0] \<and>
      \<not> interrupted (perform_step 0 ?V (Spawn 0 3) (Sem_waiting 0) w8)"
    using w8 by (simp add: perform_step_def)
  ultimately show ?thesis by blast
qed



text \<open>The callback of the new thread throws: the semaphore is posted and the process terminates.\<close>

lemma example_terminated:
  "\<exists>w. worlds [(2, 9)] w \<and> threads w = [0 \<mapsto> creator\<lparr>place := Ended\<rparr>, 1 \<mapsto> new_thread 0 3 Ended]"
proof -
  obtain w where w: "worlds [(2, 9)] w" "threads w = [0 \<mapsto> creator, 1 \<mapsto> new_thread 0 3 (Before_connect 0)]"
    "semaphores w = [0 \<mapsto> 0]" "\<not> interrupted w" using example_world by blast
  let ?U = "new_thread 0 3 (Before_connect 0)" and ?U' = "new_thread 0 3 Rethrowing"
  have 1: "thread_step ?U (Post 0) Rethrowing"
    by (intro thread_step.intros(4) wrapper_step.wrapper_before_error) (simp_all add: new_thread_def)
  have 2: "thread_step ?U' Terminate Ended"
    by (intro thread_step.intros(4) wrapper_step.wrapper_rethrow) (simp add: new_thread_def)
  have "worlds [(2, 9)] (perform_step 1 ?U (Post 0) Rethrowing w)"
    by (rule worlds_step [OF w(1) thread_moves [OF _ 1]]) (use w in simp_all)
  moreover have "threads (perform_step 1 ?U (Post 0) Rethrowing w) = [0 \<mapsto> creator, 1 \<mapsto> ?U']"
    using w(2) by (simp add: perform_step_def after_def new_thread_def)
  ultimately obtain w1 where w1: "worlds [(2, 9)] w1" "threads w1 = [0 \<mapsto> creator, 1 \<mapsto> ?U']" by blast
  have "worlds [(2, 9)] (perform_step 1 ?U' Terminate Ended w1)"
    by (rule worlds_step [OF w1(1) thread_moves [OF _ 2]]) (use w1 in simp_all)
  moreover have "threads (perform_step 1 ?U' Terminate Ended w1) =
      [0 \<mapsto> creator\<lparr>place := Ended\<rparr>, 1 \<mapsto> new_thread 0 3 Ended]"
    using w1(2) by (auto simp: perform_step_def after_def new_thread_def end_process_def creator_def fun_eq_iff)
  ultimately show ?thesis by blast
qed

theorem descendants_end_first_witness:
  "\<exists>w C. worlds [(2, 9)] w \<and> (0, 1) \<in> (child_of w)\<^sup>* \<and> threads w 1 = Some C \<and> place C = Ended"
proof -
  obtain w where w: "worlds [(2, 9)] w" "threads w = [0 \<mapsto> creator\<lparr>place := Ended\<rparr>, 1 \<mapsto> new_thread 0 3 Ended]"
    using example_terminated by blast
  have "(0, 1) \<in> child_of w" using w(2) by (simp add: child_of_def creator_def)
  then have c: "(0, 1) \<in> (child_of w)\<^sup>*" by blast
  have t: "threads w 0 = Some (creator\<lparr>place := Ended\<rparr>)" using w(2) by simp
  from descendants_end_first [OF w(1) t _ c] w(1) c show ?thesis by auto
qed

text \<open>C34: a signal that interrupts the wait of \<^verbatim>\<open>Actor::create\<close> makes it throw while the new thread
  still has the address of its semaphore: the new thread posts a semaphore that does not exist any
  more.\<close>

theorem interrupted_create_dangles: "\<exists>w. worlds [(2, 9)] w \<and> dangling w"
proof -
  obtain w where w: "worlds [(2, 9)] w" "threads w = [0 \<mapsto> creator, 1 \<mapsto> new_thread 0 3 (Before_connect 0)]"
    "semaphores w = [0 \<mapsto> 0]" using example_world by blast
  let ?U = "new_thread 0 3 (Before_connect 0)"
  have 1: "thread_step creator (Interrupt 0) Code"
    by (intro thread_step.intros(2) create_step.create_interrupted) (simp add: creator_def)
  have 2: "thread_step ?U (Post 0) Rethrowing"
    by (intro thread_step.intros(4) wrapper_step.wrapper_before_error) (simp_all add: new_thread_def)
  let ?v = "perform_step 0 creator (Interrupt 0) Code w"
  have w1: "worlds [(2, 9)] ?v"
    by (rule worlds_step [OF w(1) thread_moves [OF _ 1]]) (use w in simp_all)
  have t1: "threads ?v 1 = Some ?U" "semaphores ?v 0 = None" using w by (simp_all add: perform_step_def)
  have "worlds [(2, 9)] (perform_step 1 ?U (Post 0) Rethrowing ?v)"
    by (rule worlds_step [OF w1 thread_moves [OF t1(1) 2]]) simp
  moreover have "dangling (perform_step 1 ?U (Post 0) Rethrowing ?v)"
    using t1(2) unfolding perform_step_def [of 1] by (simp add: post_def)
  ultimately show ?thesis by blast
qed

end
