(* ===== verification/Turn_Handles.thy ===== *)
theory Turn_Handles
  imports Actor_System Client_Api
begin

text \<open>
  What a turn of an actor does with the handles of communications: it blocks on the communication
  that its decision names and on no other, the handle that it gives to its client is that of an entry
  that did not exist before, and a release keeps the entry until it answers.
\<close>

section \<open>Stretches of a turn\<close>

text \<open>The handle that an acknowledgment gives to the client.\<close>

definition new_comm :: "decision_ack \<Rightarrow> u64 option" where
  "new_comm ack = (if success ack
     then (case ack_data ack of A_mailboxPutAsync a \<Rightarrow> Some a | A_mailboxGetAsync a \<Rightarrow> Some a | _ \<Rightarrow> None)
     else None)"

definition waits_on :: "decision_type \<Rightarrow> u64 set" where
  "waits_on d = (case d of KCommWaitFor a t \<Rightarrow> {a} | KCommTest a \<Rightarrow> {a} | _ \<Rightarrow> {})"

definition is_write :: "call \<Rightarrow> bool" where
  "is_write c \<longleftrightarrow> (\<exists>a. c = Socket_write a)"

definition registered :: "server \<Rightarrow> server \<Rightarrow> decision_ack \<Rightarrow> bool" where
  "registered st st' ack \<longleftrightarrow> (\<forall>a. new_comm ack = Some a \<longrightarrow> comms st a = None \<and> comms st' a \<noteq> None)"

definition answers_with :: "decision_type \<Rightarrow> server \<Rightarrow> server \<Rightarrow> decision_ack \<Rightarrow> bool" where
  "answers_with d st st' ack \<longleftrightarrow> conforms d ack \<and> registered st st' ack"

text \<open>A stretch of the turn that answers \<open>d\<close>, from \<open>st\<close> to \<open>st'\<close>, where the computation is \<open>p\<close>.\<close>

definition stretch :: "decision_type \<Rightarrow> server \<Rightarrow> server \<Rightarrow> prog \<Rightarrow> bool" where
  "stretch d st st' p \<longleftrightarrow> (case p of
      Do c k \<Rightarrow> (\<forall>a. pinned_comm c = Some a \<longrightarrow> a \<in> waits_on d) \<and>
        (\<forall>ack. c = Socket_write ack \<longrightarrow> answers_with d st st' ack) \<and>
        (is_write c \<or> (\<forall>a. d = KCommRefcountDecrease a \<longrightarrow> comms st a \<noteq> None \<longrightarrow> comms st' a \<noteq> None))
    | Done (Handled ack True q) \<Rightarrow> answers_with d st st' ack
    | _ \<Rightarrow> True)"

primrec turn_ok :: "prog \<Rightarrow> decision_type \<Rightarrow> bool" where
  "turn_ok (Done out) = (\<lambda>d. True)"
| "turn_ok (Do c k) = (\<lambda>d. \<forall>r st. server_ok st \<longrightarrow> s4u_ok c r st \<longrightarrow>
     stretch d st (fst (k r st)) (snd (k r st)) \<and> snd (map_prod id turn_ok (k r st)) d)"

definition turn_code :: "decision_type \<Rightarrow> code \<Rightarrow> bool" where
  "turn_code d m \<longleftrightarrow> (\<forall>st. server_ok st \<longrightarrow> stretch d st (fst (m st)) (snd (m st)) \<and> turn_ok (snd (m st)) d)"

lemma turn_ok_do: "turn_ok (Do c k) d \<longleftrightarrow> (\<forall>r st. server_ok st \<longrightarrow> s4u_ok c r st \<longrightarrow>
     stretch d st (fst (k r st)) (snd (k r st)) \<and> turn_ok (snd (k r st)) d)"
  by simp

declare turn_ok.simps(2) [simp del] turn_ok_do [simp]

lemma stretch_done [simp]:
  "stretch d st st' (Done (Handled ack s q)) \<longleftrightarrow> (s \<longrightarrow> answers_with d st st' ack)"
  "stretch d st st' (Done (Threw e))" "stretch d st st' (Done (Uncaught x))"
  "stretch d st st' (Done (Undefined u))" "stretch d st st' (Done Ill_typed)" "stretch d st st' (Done (failure r))"
  by (cases s, simp_all add: stretch_def) (cases r; simp)

lemma registered_none: "new_comm ack = None \<Longrightarrow> answers_with d st st' ack = conforms d ack"
  by (simp add: registered_def answers_with_def)

declare registered_none [simp]

lemma new_comm_ack [simp]: "new_comm (ack_ok\<lparr>success := b\<rparr>) = None" "new_comm ack_ok = None" "new_comm ack_ko = None"
  "new_comm (ack_ok\<lparr>ack_data := x\<rparr>) = (case x of A_mailboxPutAsync a \<Rightarrow> Some a | A_mailboxGetAsync a \<Rightarrow> Some a | _ \<Rightarrow> None)"
  by (simp_all add: new_comm_def ack_ok_def ack_ko_def decision_ack0_def)

section \<open>The handlers\<close>

lemma stretch_do: "stretch d st st' (Do c k) \<longleftrightarrow> (\<forall>a. pinned_comm c = Some a \<longrightarrow> a \<in> waits_on d) \<and>
     (\<forall>ack. c = Socket_write ack \<longrightarrow> answers_with d st st' ack) \<and>
     (is_write c \<or> (\<forall>a. d = KCommRefcountDecrease a \<longrightarrow> comms st a \<noteq> None \<longrightarrow> comms st' a \<noteq> None))"
  by (simp add: stretch_def)

lemmas stretch_facts = stretch_do is_write_def pinned_comm_def waits_on_def

lemma turn_simple:
  "turn_code (KQuit b) handle_quit"
  "turn_code (KThisActorExecute t) (handle_execute t)"
  "turn_code (KThisActorSleepFor t) (handle_sleep_for t)"
  "turn_code (KThisActorSleepUntil t) (handle_sleep_until t)"
  "turn_code (KThisActorYield b) handle_yield"
  "turn_code (KActorGetName i) (handle_actor_get_name i)"
  "turn_code (KActorGetHost i) (handle_actor_get_host i)"
  "turn_code (KActorJoin i t) (handle_actor_join i t)"
  "turn_code (KCommCancel a) (handle_comm_cancel a)"
  "turn_code (KEngineGetClock b) handle_engine_get_clock"
  "turn_code (KHostByNameOrNull n) (handle_host_by_name_or_null n)"
  "turn_code (KHostCurrent b) handle_host_current"
  "turn_code (KMailboxEmpty n) (handle_mailbox_empty n)"
  "turn_code (KMailboxListen n) (handle_mailbox_listen n)"
  "turn_code (KMailboxReady n) (handle_mailbox_ready n)"
  "turn_code (KMutexCreate b) handle_mutex_create"
  "turn_code (KMutexLock a) (handle_mutex_lock a)"
  "turn_code (KMutexUnlock a) (handle_mutex_unlock a)"
  "turn_code (KMutexTryLock a) (handle_mutex_try_lock d)"
  "turn_code (KConditionVariableCreate b) handle_cv_create"
  "turn_code (KConditionVariableNotifyOne a) (handle_cv_notify_one a)"
  "turn_code (KConditionVariableNotifyAll a) (handle_cv_notify_all a)"
  by (auto simp: turn_code_def handler_defs run_defs stretch_facts on_host_failure_def expected_def
      split: answer.splits option.splits if_splits)

lemma turn_cv_handlers:
  "turn_code (KConditionVariableWait c m) (handle_cv_wait c m)"
  "turn_code (KConditionVariableWaitUntil c m t) (handle_cv_wait_until c m t)"
  "turn_code (KConditionVariableWaitFor c m t) (handle_cv_wait_for c m t)"
  by (auto simp: turn_code_def handle_cv_wait_def handle_cv_wait_until_def handle_cv_wait_for_def
      with_cv_and_lock_def run_defs stretch_facts expected_def split: answer.splits option.splits prod.splits)

lemma turn_drop_handlers:
  "turn_code (KCommRefcountDecrease a) (handle_comm_refcount_decrease a)"
  "turn_code (KMutexRefcountDecrease a) (handle_mutex_refcount_decrease a)"
  "turn_code (KConditionVariableRefcountDecrease a) (handle_cv_refcount_decrease a)"
  by (auto simp: turn_code_def handle_comm_refcount_decrease_def handle_mutex_refcount_decrease_def
      handle_cv_refcount_decrease_def call_defs expected_def split_beta)

lemma turn_received:
  assumes "\<And>d'. new_comm (ack_ok\<lparr>ack_data := mk d'\<rparr>) = None" "\<And>d'. expected d (mk d')"
  shows "stretch d st0 (fst (reply_received a e mk st)) (snd (reply_received a e mk st)) \<and>
    turn_ok (snd (reply_received a e mk st)) d"
  using assms by (auto simp: reply_received_def call_defs split: sum.splits)

lemma turn_comm_handlers:
  "turn_code (KCommWaitFor a t) (handle_comm_wait_for a t)"
  "turn_code (KCommTest a) (handle_comm_test a)"
  "turn_code (KCommWaitAnyFor as t) (handle_comm_wait_any_for as t)"
  by (auto simp: turn_code_def handler_defs run_defs stretch_facts Let_def comm_entry(1) expected_def
      intro!: turn_received [THEN conjunct1] turn_received [THEN conjunct2]
      split: answer.splits option.splits if_splits)

lemma turn_actor_create: "turn_code (KActorCreate n h) (handle_actor_create n h)"
  by (auto simp: turn_code_def handle_actor_create_def announce_actor_def create_acknowledged_def
      new_queue_def run_defs stretch_facts expected_def Let_def split: answer.splits option.splits)

lemma turn_mailbox_handlers:
  "turn_code (KMailboxPut n d z) (handle_mailbox_put n d z)"
  "turn_code (KMailboxPutAsync n d z) (handle_mailbox_put_async n d z)"
  "turn_code (KMailboxGet n) (handle_mailbox_get n)"
  "turn_code (KMailboxGetAsync n) (handle_mailbox_get_async n)"
  by (auto simp: turn_code_def handle_mailbox_put_def handle_mailbox_put_async_def handle_mailbox_get_def
      handle_mailbox_get_async_def deliver_message_def store_new_comm_def new_string_def new_cell_def call_defs
      stretch_facts registered_def answers_with_def expected_def comm_register_def add_ref_def Let_def split: answer.splits option.splits)

lemma turn_handle_type: "turn_code d (handle_type d)"
  by (cases d) (simp_all add: turn_simple turn_comm_handlers turn_actor_create turn_mailbox_handlers
      turn_drop_handlers turn_cv_handlers, simp_all add: turn_code_def throw_def)

section \<open>The whole turn\<close>

lemma turn_send_reply:
  assumes "stretch d st0 st (Done out)"
  shows "stretch d st0 (fst (send_reply out st)) (snd (send_reply out st)) \<and> turn_ok (snd (send_reply out st)) d"
  using assms
  by (cases out) (auto simp: send_reply_def call_defs stretch_facts split: answer.splits)

lemma turn_bind:
  "stretch d st0 st p \<Longrightarrow> turn_ok p d \<Longrightarrow>
     stretch d st0 (fst (bind_prog p send_reply st)) (snd (bind_prog p send_reply st)) \<and>
     turn_ok (snd (bind_prog p send_reply st)) d"
proof (induction p arbitrary: st0 st)
  case (Done out)
  then show ?case using turn_send_reply by simp
next
  case (Do c k)
  have "stretch d st2 (fst (bind_prog (snd (k r st2)) send_reply (fst (k r st2))))
        (snd (bind_prog (snd (k r st2)) send_reply (fst (k r st2)))) \<and>
      turn_ok (snd (bind_prog (snd (k r st2)) send_reply (fst (k r st2)))) d"
    if "server_ok st2" "s4u_ok c r st2" for r st2
  proof -
    have "snd (k r st2) \<in> Basic_BNFs.snds (k r st2)" by (cases "k r st2") simp
    from Do.IH [OF rangeI rangeI this, of st2 "fst (k r st2)"] Do.prems(2) that show ?thesis by simp
  qed
  with Do.prems(1) show ?case by (simp add: split_beta stretch_do)
qed

lemma turn_actor_turn: "turn_code (type_case d) (actor_turn d)"
proof -
  have "turn_code (type_case d) (handle_decision d)"
    using turn_handle_type [of "type_case d"]
    by (auto simp: turn_code_def handle_decision_def call_defs stretch_facts split: answer.splits)
  then have "stretch (type_case d) st (fst (bind_prog (snd (handle_decision d st)) send_reply (fst (handle_decision d st))))
      (snd (bind_prog (snd (handle_decision d st)) send_reply (fst (handle_decision d st)))) \<and>
      turn_ok (snd (bind_prog (snd (handle_decision d st)) send_reply (fst (handle_decision d st)))) (type_case d)"
    if "server_ok st" for st
    using that by (intro turn_bind) (simp_all add: turn_code_def)
  then show ?thesis by (simp add: turn_code_def actor_turn_def bind_code_def split_beta)
qed

section \<open>The prologue pins nothing\<close>

primrec pins_nothing :: "prog \<Rightarrow> bool" where
  "pins_nothing (Done out) \<longleftrightarrow> True"
| "pins_nothing (Do c k) \<longleftrightarrow> pinned_comm c = None \<and> (\<forall>r st. snd (map_prod id pins_nothing (k r st)))"

lemma pins_nothing_do: "pins_nothing (Do c k) \<longleftrightarrow> pinned_comm c = None \<and> (\<forall>r st. pins_nothing (snd (k r st)))"
  by simp

declare pins_nothing.simps(2) [simp del] pins_nothing_do [simp]

lemma pins_nothing_prologue: "pins_nothing (snd (actor_prologue q st))"
  by (auto simp: actor_prologue_def actor_connected_def call_defs pinned_comm_def split: answer.splits option.splits)

end
