(* ===== verification/Client_Objects.thy ===== *)
theory Client_Objects
  imports Turn_Handles "HOL-Library.Multiset"
begin

text \<open>
  The objects of the client library (\<^verbatim>\<open>src/librsg/*.hpp\<close>) and the shared pointers by which user
  code holds them (\<^verbatim>\<open>pointers.hpp\<close>): the accessors, the destructors of \<^verbatim>\<open>Comm\<close>, \<^verbatim>\<open>Mutex\<close> and
  \<^verbatim>\<open>ConditionVariable\<close>, which release the handle on the server, every call of the library with the
  objects it works on, and the client threads that own, copy, pass on and drop pointers, running together
  with the server of \<open>Actor_System\<close>.
\<close>

section \<open>Objects\<close>

record client_actor =
  actor_id :: int

record client_host =
  host_name :: string

record client_mailbox =
  mailbox_name :: string

record client_mutex =
  mutex_address :: u64

record client_cv =
  cv_address :: u64

datatype client_object =
    Client_actor client_actor
  | Client_comm client_comm
  | Client_cv client_cv
  | Client_host client_host
  | Client_mailbox client_mailbox
  | Client_mutex client_mutex

text \<open>The accessors that ask nothing to the server; \<^verbatim>\<open>c_str\<close> ends at the first null character.\<close>

definition mailbox_by_name :: "string \<Rightarrow> client_mailbox" where
  "mailbox_by_name name = \<lparr>mailbox_name = name\<rparr>"

definition mailbox_get_name :: "client_mailbox \<Rightarrow> string" where
  "mailbox_get_name m = mailbox_name m"

definition mailbox_get_cname :: "client_mailbox \<Rightarrow> string" where
  "mailbox_get_cname m = c_str (mailbox_name m)"

definition host_get_name :: "client_host \<Rightarrow> string" where
  "host_get_name h = host_name h"

definition host_get_cname :: "client_host \<Rightarrow> string" where
  "host_get_cname h = c_str (host_name h)"

text \<open>\<^verbatim>\<open>Actor::self\<close>: the actor of the thread's connection.\<close>

definition actor_self :: "int \<Rightarrow> client_actor" where
  "actor_self i = \<lparr>actor_id = i\<rparr>"

definition actor_get_pid :: "client_actor \<Rightarrow> int" where
  "actor_get_pid a = actor_id a"

definition actor_join_forever :: "int \<Rightarrow> unit client_call" where
  "actor_join_forever i = actor_join i (Finite (-1))"

text \<open>Maestro is in the server.\<close>

definition this_actor_is_maestro :: bool where
  "this_actor_is_maestro = False"

definition comm_remote_address :: "client_comm \<Rightarrow> u64" where
  "comm_remote_address c = remote_address c"

text \<open>The decision that the destructor of an object sends, if any.\<close>

definition destructor :: "client_object \<Rightarrow> decision_type option" where
  "destructor x = (case x of
      Client_comm c \<Rightarrow> Some (fst (comm_destructor c))
    | Client_cv v \<Rightarrow> Some (fst (cv_destructor (cv_address v)))
    | Client_mutex m \<Rightarrow> Some (fst (mutex_destructor (mutex_address m)))
    | _ \<Rightarrow> None)"

section \<open>Shared pointers\<close>

text \<open>
  The objects of one process, with the use count of their control block. An object is destroyed
  with the last pointer to it.
\<close>

record client_heap =
  object :: "nat \<rightharpoonup> client_object"
  use_count :: "nat \<Rightarrow> nat"
  next_object :: nat

definition empty_heap :: client_heap where
  "empty_heap = \<lparr>object = Map.empty, use_count = (\<lambda>_. 0), next_object = 0\<rparr>"

definition make_shared :: "client_object \<Rightarrow> client_heap \<Rightarrow> nat \<times> client_heap" where
  "make_shared x H = (next_object H, H\<lparr>object := (object H)(next_object H \<mapsto> x),
     use_count := (use_count H)(next_object H := 1), next_object := Suc (next_object H)\<rparr>)"

definition copy_shared :: "nat \<Rightarrow> client_heap \<Rightarrow> client_heap" where
  "copy_shared n H = H\<lparr>use_count := (use_count H)(n := Suc (use_count H n))\<rparr>"

text \<open>The object whose destructor runs, if it was the last pointer.\<close>

definition drop_shared :: "nat \<Rightarrow> client_heap \<Rightarrow> client_object option \<times> client_heap" where
  "drop_shared n H = (let H' = H\<lparr>use_count := (use_count H)(n := use_count H n - 1)\<rparr> in
     if use_count H n = 1 then (object H n, H'\<lparr>object := (object H)(n := None)\<rparr>) else (None, H'))"

section \<open>The calls of the library\<close>

text \<open>
  A call: the decision, and the object that the user gets from the acknowledgment, if any. The
  first argument of \<open>library_call\<close> holds the objects the call works on.
\<close>

type_synonym object_call = "decision_type \<times> (decision_ack \<Rightarrow> client_object option)"

definition no_object :: "'a client_call \<Rightarrow> object_call" where
  "no_object m = (fst m, \<lambda>ack. None)"

definition new_object :: "('a \<Rightarrow> client_object option) \<Rightarrow> 'a client_call \<Rightarrow> object_call" where
  "new_object f m = (fst m, \<lambda>ack. case snd m ack of Inl e \<Rightarrow> None | Inr x \<Rightarrow> f x)"

abbreviation an_actor :: "int \<Rightarrow> client_object option" where
  "an_actor i \<equiv> Some (Client_actor \<lparr>actor_id = i\<rparr>)"

abbreviation a_host :: "string \<Rightarrow> client_object option" where
  "a_host n \<equiv> Some (Client_host \<lparr>host_name = n\<rparr>)"

abbreviation a_mutex :: "u64 \<Rightarrow> client_object option" where
  "a_mutex a \<equiv> Some (Client_mutex \<lparr>mutex_address = a\<rparr>)"

abbreviation a_cv :: "u64 \<Rightarrow> client_object option" where
  "a_cv a \<equiv> Some (Client_cv \<lparr>cv_address = a\<rparr>)"

abbreviation a_comm :: "client_comm \<Rightarrow> client_object option" where
  "a_comm c \<equiv> Some (Client_comm c)"

inductive library_call :: "client_object set \<Rightarrow> object_call \<Rightarrow> bool" where
  "library_call {Client_host h} (new_object an_actor (actor_create n (host_name h)))"
| "library_call {Client_actor a} (no_object (actor_join (actor_id a) t))"
| "library_call {Client_actor a} (new_object a_host (actor_get_host (actor_id a)))"
| "library_call {Client_actor a} (no_object (actor_get_name (actor_id a)))"
| "library_call {} (no_object (this_actor_execute flop))"
| "library_call {} (no_object (this_actor_sleep_for t))"
| "library_call {} (no_object (this_actor_sleep_until t))"
| "library_call {} (no_object this_actor_yield)"
| "library_call {Client_comm c} (no_object (comm_wait_for c t))"
| "library_call {Client_comm c} (no_object (comm_cancel c))"
| "library_call {Client_comm c} (no_object (comm_test c))"
| "library_call (Client_comm ` set cs) (no_object (comm_wait_any_for cs t))"
| "library_call {} (no_object engine_get_clock)"
| "library_call {} (new_object (\<lambda>x. Option.bind x a_host) (host_by_name_or_null n))"
| "library_call {} (new_object a_host (host_by_name n))"
| "library_call {} (new_object a_host host_current)"
| "library_call {Client_mailbox m} (no_object (mailbox_empty (mailbox_name m)))"
| "library_call {Client_mailbox m} (no_object (mailbox_listen (mailbox_name m)))"
| "library_call {Client_mailbox m} (no_object (mailbox_ready (mailbox_name m)))"
| "library_call {Client_mailbox m} (no_object (mailbox_put (mailbox_name m) d z))"
| "library_call {Client_mailbox m} (new_object a_comm (mailbox_put_async (mailbox_name m) d z))"
| "library_call {Client_mailbox m} (no_object (mailbox_get (mailbox_name m)))"
| "library_call {Client_mailbox m} (new_object a_comm (mailbox_get_async (mailbox_name m) dst))"
| "library_call {} (new_object a_mutex mutex_create)"
| "library_call {Client_mutex m} (no_object (mutex_lock (mutex_address m)))"
| "library_call {Client_mutex m} (no_object (mutex_unlock (mutex_address m)))"
| "library_call {Client_mutex m} (no_object (mutex_try_lock (mutex_address m)))"
| "library_call {} (new_object (\<lambda>x. Option.bind x a_cv) cv_create)"
| "library_call {Client_cv v, Client_mutex m} (no_object (cv_wait (cv_address v) (mutex_address m)))"
| "library_call {Client_cv v, Client_mutex m} (no_object (cv_wait_until (cv_address v) (mutex_address m) t))"
| "library_call {Client_cv v, Client_mutex m} (no_object (cv_wait_for (cv_address v) (mutex_address m) t))"
| "library_call {Client_cv v} (no_object (cv_notify_one (cv_address v)))"
| "library_call {Client_cv v} (no_object (cv_notify_all (cv_address v)))"
| "library_call {} (KQuit True, \<lambda>ack. None)"

section \<open>Client threads with their pointers\<close>

text \<open>
  \<open>pointers\<close>: the shared pointers that exist, each with the actor whose thread has it. \<open>calling\<close>: the
  call that the thread of an actor has sent and has no answer to.
\<close>

record client_process =
  heap :: client_heap
  pointers :: "(int \<times> nat) multiset"

record clients =
  processes :: "nat \<Rightarrow> client_process"
  calling :: "int \<rightharpoonup> object_call"

definition no_clients :: clients where
  "no_clients = \<lparr>processes = (\<lambda>_. \<lparr>heap = empty_heap, pointers = {#}\<rparr>), calling = Map.empty\<rparr>"

definition set_process :: "nat \<Rightarrow> client_heap \<Rightarrow> (int \<times> nat) multiset \<Rightarrow> clients \<Rightarrow> clients" where
  "set_process p H M C = C\<lparr>processes := (processes C)(p := \<lparr>heap = H, pointers = M\<rparr>)\<rparr>"

text \<open>What a thread does by itself: \<open>P\<close> says in which process the thread of an actor is.\<close>

inductive client_step :: "(int \<Rightarrow> nat) \<Rightarrow> clients \<Rightarrow> clients \<Rightarrow> bool" for P C where
  make: "calling C i = None \<Longrightarrow> processes C (P i) = \<lparr>heap = H, pointers = M\<rparr> \<Longrightarrow>
    x = Client_mailbox (mailbox_by_name name) \<or> x = Client_actor (actor_self i) \<Longrightarrow> make_shared x H = (n, H') \<Longrightarrow>
    client_step P C (set_process (P i) H' (add_mset (i, n) M) C)"
| copy: "calling C i = None \<Longrightarrow> processes C (P i) = \<lparr>heap = H, pointers = M\<rparr> \<Longrightarrow>
    (i, n) \<in># M \<Longrightarrow> P j = P i \<Longrightarrow>
    client_step P C (set_process (P i) (copy_shared n H) (add_mset (j, n) M) C)"
| drop: "calling C i = None \<Longrightarrow> processes C (P i) = \<lparr>heap = H, pointers = M\<rparr> \<Longrightarrow>
    (i, n) \<in># M \<Longrightarrow> drop_shared n H = (x, H') \<Longrightarrow> Option.bind x destructor = None \<Longrightarrow>
    client_step P C (set_process (P i) H' (M - {#(i, n)#}) C)"
| die: "processes C p = \<lparr>heap = H, pointers = M\<rparr> \<Longrightarrow> client_step P C (set_process p H {#} C)"

text \<open>What it sends: a call on objects that it has a pointer to, or the release of an object.\<close>

inductive client_sends :: "(int \<Rightarrow> nat) \<Rightarrow> clients \<Rightarrow> int \<Rightarrow> decision_type \<Rightarrow> clients \<Rightarrow> bool" for P C i where
  call: "calling C i = None \<Longrightarrow> processes C (P i) = \<lparr>heap = H, pointers = M\<rparr> \<Longrightarrow>
    library_call X (t, f) \<Longrightarrow> (\<And>x. x \<in> X \<Longrightarrow> \<exists>n. (i, n) \<in># M \<and> object H n = Some x) \<Longrightarrow>
    client_sends P C i t (C\<lparr>calling := (calling C)(i \<mapsto> (t, f))\<rparr>)"
| destroy: "calling C i = None \<Longrightarrow> processes C (P i) = \<lparr>heap = H, pointers = M\<rparr> \<Longrightarrow>
    (i, n) \<in># M \<Longrightarrow> drop_shared n H = (Some x, H') \<Longrightarrow> destructor x = Some t \<Longrightarrow>
    client_sends P C i t ((set_process (P i) H' (M - {#(i, n)#}) C)\<lparr>calling := (calling C)(i \<mapsto> (t, \<lambda>ack. None))\<rparr>)"

definition client_receives :: "(int \<Rightarrow> nat) \<Rightarrow> int \<Rightarrow> decision_ack \<Rightarrow> clients \<Rightarrow> clients" where
  "client_receives P i ack C = (case calling C i of
      None \<Rightarrow> C
    | Some (t, f) \<Rightarrow>
        (let C = C\<lparr>calling := (calling C)(i := None)\<rparr> in
         case f ack of
           None \<Rightarrow> C
         | Some x \<Rightarrow>
             (let (n, H) = make_shared x (heap (processes C (P i))) in
              set_process (P i) H (add_mset (i, n) (pointers (processes C (P i)))) C)))"

text \<open>
  \<^verbatim>\<open>fork\<close>: the new process has the same objects and counts, and one thread, with the pointers of the
  one that has forked.
\<close>

definition client_forks :: "(int \<Rightarrow> nat) \<Rightarrow> int \<Rightarrow> int \<Rightarrow> clients \<Rightarrow> clients" where
  "client_forks P i c C = set_process (P c) (heap (processes C (P i)))
     (image_mset (\<lambda>(j, n). (c, n)) (filter_mset (\<lambda>(j, n). j = i) (pointers (processes C (P i))))) C"

section \<open>Clients and server\<close>

text \<open>
  The server reads a decision when a client sends it, and a client gets the acknowledgment when the
  server writes it; in between the thread waits. The server's steps are those of \<open>Actor_System\<close>
  without any condition on the releases. \<open>forks\<close>: whether a client may fork.
\<close>

abbreviation any_release :: "sys \<Rightarrow> int \<Rightarrow> u64 set \<Rightarrow> bool" where
  "any_release s i D \<equiv> True"

inductive clients_step :: "(int \<Rightarrow> nat) \<Rightarrow> bool \<Rightarrow> clients \<Rightarrow> sys \<Rightarrow> clients \<Rightarrow> sys \<Rightarrow> bool"
  for P forks C s where
  inside: "sys_step_if any_release s s' \<Longrightarrow> events s' = events s \<Longrightarrow> clients_step P forks C s C s'"
| request: "sys_step_if any_release s s' \<Longrightarrow> events s' = (events s)(i := events s i @ [Rx d]) \<Longrightarrow>
    client_sends P C i (type_case d) C' \<Longrightarrow> clients_step P forks C s C' s'"
| answer: "sys_step_if any_release s s' \<Longrightarrow> events s' = (events s)(i := events s i @ [Tx a]) \<Longrightarrow>
    clients_step P forks C s (client_receives P i a C) s'"
| fork: "forks \<Longrightarrow> sys_step_if any_release s s' \<Longrightarrow> events s' = (events s)(i := events s i @ [Tx a]) \<Longrightarrow>
    calling C i = Some (KActorCreate n h, f) \<Longrightarrow> success a \<Longrightarrow> c = get_actorCreate (ack_data a) \<Longrightarrow>
    processes C (P c) = \<lparr>heap = empty_heap, pointers = {#}\<rparr> \<Longrightarrow>
    clients_step P forks C s (client_forks P i c (C\<lparr>calling := (calling C)(i := None)\<rparr>)) s'"
| alone: "client_step P C C' \<Longrightarrow> clients_step P forks C s C' s"
| connection_lost: "actors s i = Some A \<Longrightarrow> a_phase A = Terminated \<or> a_phase A = Crashed \<Longrightarrow>
    clients_step P forks C s (C\<lparr>calling := (calling C)(i := None)\<rparr>) s"

inductive clients_reach :: "(int \<times> socket) list \<Rightarrow> (int \<Rightarrow> nat) \<Rightarrow> bool \<Rightarrow> clients \<Rightarrow> sys \<Rightarrow> bool"
  for conns P forks where
  clients_init: "clients_reach conns P forks no_clients (init_sys conns)"
| clients_next: "clients_reach conns P forks C s \<Longrightarrow> clients_step P forks C s C' s' \<Longrightarrow>
    clients_reach conns P forks C' s'"

section \<open>The pointers of a process\<close>

definition pointers_to :: "nat \<Rightarrow> (int \<times> nat) multiset \<Rightarrow> nat" where
  "pointers_to n M = count (image_mset snd M) n"

lemma pointers_to_add [simp]: "pointers_to n (add_mset (i, m) M) = (if m = n then Suc (pointers_to n M) else pointers_to n M)"
  by (simp add: pointers_to_def)

lemma pointers_to_remove:
  assumes "(i, m) \<in># M"
  shows "pointers_to n M = (if m = n then Suc (pointers_to n (M - {#(i, m)#})) else pointers_to n (M - {#(i, m)#}))"
proof -
  have "M = add_mset (i, m) (M - {#(i, m)#})" using assms by simp
  then have "pointers_to n M = pointers_to n (add_mset (i, m) (M - {#(i, m)#}))" by simp
  then show ?thesis by (simp only: pointers_to_add)
qed

lemma pointers_to_pos: "(i, n) \<in># M \<Longrightarrow> 0 < pointers_to n M"
  using pointers_to_remove [of i n M n] by simp

lemma pointers_to_two:
  assumes "(i, n) \<in># M" "(j, n) \<in># M" "i \<noteq> j"
  shows "1 < pointers_to n M"
proof -
  have "(j, n) \<in># M - {#(i, n)#}" using assms(2,3) by (simp add: in_diff_count)
  from pointers_to_pos [OF this] pointers_to_remove [OF assms(1), of n] show ?thesis by simp
qed

lemma pointers_to_zero: "pointers_to n M = 0 \<longleftrightarrow> (\<forall>i. (i, n) \<notin># M)"
  by (force simp: pointers_to_def count_eq_zero_iff)

text \<open>Every pointer refers to an object, and counts.\<close>

definition process_ok :: "client_process \<Rightarrow> bool" where
  "process_ok p \<longleftrightarrow>
     (\<forall>n. next_object (heap p) \<le> n \<longrightarrow> object (heap p) n = None) \<and>
     (\<forall>i n. (i, n) \<in># pointers p \<longrightarrow> object (heap p) n \<noteq> None) \<and>
     (\<forall>n. pointers_to n (pointers p) \<le> use_count (heap p) n)"

lemma process_ok_make:
  assumes "process_ok \<lparr>heap = H, pointers = M\<rparr>" "make_shared x H = (n, H')"
  shows "process_ok \<lparr>heap = H', pointers = add_mset (i, n) M\<rparr>" "object H n = None" "object H' = (object H)(n \<mapsto> x)"
proof -
  have n: "n = next_object H" "H' = H\<lparr>object := (object H)(n \<mapsto> x), use_count := (use_count H)(n := 1), next_object := Suc n\<rparr>"
    using assms(2) by (auto simp: make_shared_def)
  show free: "object H n = None" using assms(1) n(1) by (simp add: process_ok_def)
  then have "\<forall>j. (j, n) \<notin># M" using assms(1) unfolding process_ok_def by fastforce
  then have "pointers_to n M = 0" by (simp add: pointers_to_zero)
  with assms(1) n show "process_ok \<lparr>heap = H', pointers = add_mset (i, n) M\<rparr>" by (auto simp: process_ok_def)
  show "object H' = (object H)(n \<mapsto> x)" by (simp add: n(2))
qed

lemma process_ok_copy:
  "process_ok \<lparr>heap = H, pointers = M\<rparr> \<Longrightarrow> (i, n) \<in># M \<Longrightarrow>
     process_ok \<lparr>heap = copy_shared n H, pointers = add_mset (j, n) M\<rparr>"
  by (auto simp: process_ok_def copy_shared_def)

lemma drop_shared_objects:
  assumes "drop_shared n H = (x, H')"
  shows "object H' = (if use_count H n = 1 then (object H)(n := None) else object H)"
    "x = (if use_count H n = 1 then object H n else None)"
  using assms by (auto simp: drop_shared_def Let_def split: if_splits)

lemma process_ok_drop:
  assumes ok: "process_ok \<lparr>heap = H, pointers = M\<rparr>" and i: "(i, n) \<in># M" and d: "drop_shared n H = (x, H')"
  shows "process_ok \<lparr>heap = H', pointers = M - {#(i, n)#}\<rparr>"
proof -
  let ?M = "M - {#(i, n)#}"
  have H': "use_count H' = (use_count H)(n := use_count H n - 1)" "next_object H' = next_object H"
    using d by (auto simp: drop_shared_def Let_def split: if_splits)
  have count: "pointers_to m M = (if n = m then Suc (pointers_to m ?M) else pointers_to m ?M)" for m
    using i by (rule pointers_to_remove)
  have ok': "\<forall>m. next_object H \<le> m \<longrightarrow> object H m = None" "\<forall>j m. (j, m) \<in># M \<longrightarrow> object H m \<noteq> None"
    "\<forall>m. pointers_to m M \<le> use_count H m" using ok by (simp_all add: process_ok_def)
  have "pointers_to m ?M \<le> use_count H' m" for m
    using ok'(3) [rule_format, of m] count [of m] H'(1) by (auto split: if_splits)
  moreover have "object H' m \<noteq> None" if "(j, m) \<in># ?M" for j m
  proof -
    have "(j, m) \<in># M" using that by (rule in_diffD)
    with ok' have "object H m \<noteq> None" by blast
    moreover have "use_count H n \<noteq> 1" if "m = n"
    proof -
      have "0 < pointers_to n ?M" using \<open>(j, m) \<in># ?M\<close> that pointers_to_pos by blast
      with count [of n] ok'(3) [rule_format, of n] show ?thesis by simp
    qed
    ultimately show ?thesis using drop_shared_objects(1) [OF d] by auto
  qed
  moreover have "object H' m = None" if "next_object H \<le> m" for m
    using ok'(1) that drop_shared_objects(1) [OF d] by auto
  ultimately show ?thesis using H'(2) by (auto simp: process_ok_def)
qed

section \<open>Calls and the handles they name\<close>

lemma destructor_drops:
  "destructor x = Some t \<Longrightarrow> drops t = (case x of Client_comm c \<Rightarrow> {remote_address c} | _ \<Rightarrow> {})"
  "destructor x = Some t \<Longrightarrow> waits_on t = {}"
  by (auto simp: destructor_def drops_def waits_on_def comm_destructor_def cv_destructor_def mutex_destructor_def
      split: client_object.splits)

lemmas method_defs = actor_create_def actor_join_def actor_get_host_def actor_get_name_def
  this_actor_execute_def this_actor_sleep_for_def this_actor_sleep_until_def this_actor_yield_def
  comm_wait_for_def comm_cancel_def comm_test_def comm_wait_any_for_def engine_get_clock_def
  host_by_name_or_null_def host_by_name_def host_current_def mailbox_empty_def mailbox_listen_def
  mailbox_ready_def mailbox_put_def mailbox_put_async_def mailbox_get_def mailbox_get_async_def
  mutex_create_def mutex_lock_def mutex_unlock_def mutex_try_lock_def cv_create_def cv_wait_def
  cv_wait_until_def cv_wait_for_def cv_notify_one_def cv_notify_all_def

lemma library_call_drops: "library_call X m \<Longrightarrow> drops (fst m) = {}"
  by (induction rule: library_call.induct) (simp_all add: no_object_def new_object_def drops_def method_defs)

lemma library_call_waits:
  "library_call X m \<Longrightarrow> a \<in> waits_on (fst m) \<Longrightarrow> \<exists>c. Client_comm c \<in> X \<and> remote_address c = a"
  by (induction rule: library_call.induct) (simp_all add: no_object_def new_object_def waits_on_def method_defs)

text \<open>A new communication is the one that the server has told.\<close>

lemma library_call_new:
  assumes "library_call X m" "conforms (fst m) ack" "snd m ack = Some (Client_comm c)"
  shows "new_comm ack = Some (remote_address c)"
  using assms
  by (induction rule: library_call.induct)
    (auto simp: no_object_def new_object_def method_defs enforce_success_def conforms_def expected_def new_comm_def
      getter_defs bind_eq_Some_conv Let_def split: sum.splits if_splits prod.splits ack_data.splits)

end
