(* ===== verification/Client_Handles.thy ===== *)
theory Client_Handles
  imports Client_Objects
begin

text \<open>
  The shared pointers of the clients against the server's handles. As long as no process forks, the
  clients satisfy the discipline which the server's memory safety rests on, and every communication that a
  client has an object for has its entry on the server. The last part runs single exchanges, for examples.
\<close>

section \<open>Who owns a communication\<close>

definition owns :: "clients \<Rightarrow> nat \<Rightarrow> nat \<Rightarrow> u64 \<Rightarrow> bool" where
  "owns C p n a \<longleftrightarrow> (\<exists>c. object (heap (processes C p)) n = Some (Client_comm c) \<and> remote_address c = a)"

definition alive :: "clients \<Rightarrow> u64 \<Rightarrow> bool" where
  "alive C a \<longleftrightarrow> (\<exists>p n. owns C p n a)"

text \<open>An object that the thread of \<open>i\<close> works on: nobody else can destroy it.\<close>

definition in_use :: "(int \<Rightarrow> nat) \<Rightarrow> clients \<Rightarrow> int \<Rightarrow> client_object \<Rightarrow> bool" where
  "in_use P C i x \<longleftrightarrow> (\<exists>n. object (heap (processes C (P i))) n = Some x \<and>
     ((i, n) \<in># pointers (processes C (P i)) \<or> pointers_to n (pointers (processes C (P i))) = 0))"

definition call_ok :: "(int \<Rightarrow> nat) \<Rightarrow> clients \<Rightarrow> int \<Rightarrow> object_call \<Rightarrow> bool" where
  "call_ok P C i m \<longleftrightarrow> (\<exists>X. library_call X m \<and> (\<forall>x \<in> X. in_use P C i x)) \<or>
     (waits_on (fst m) = {} \<and> snd m = (\<lambda>ack. None))"

definition heaps_ok :: "(int \<Rightarrow> nat) \<Rightarrow> clients \<Rightarrow> bool" where
  "heaps_ok P C \<longleftrightarrow> (\<forall>p. process_ok (processes C p)) \<and>
     (\<forall>a p n p' n'. owns C p n a \<and> owns C p' n' a \<longrightarrow> p = p' \<and> n = n') \<and>
     (\<forall>i m. calling C i = Some m \<longrightarrow> call_ok P C i m)"

lemma heaps_okD:
  assumes "heaps_ok P C"
  shows "process_ok (processes C p)" "owns C p n a \<Longrightarrow> owns C p' n' a \<Longrightarrow> p = p' \<and> n = n'"
    "calling C i = Some m \<Longrightarrow> call_ok P C i m"
  using assms unfolding heaps_ok_def by blast+

lemma waits_alive:
  assumes "call_ok P C i m" "a \<in> waits_on (fst m)"
  shows "\<exists>c. in_use P C i (Client_comm c) \<and> remote_address c = a"
proof -
  from assms obtain X where X: "library_call X m" "\<forall>x \<in> X. in_use P C i x" by (auto simp: call_ok_def)
  from library_call_waits [OF X(1) assms(2)] X(2) show ?thesis by blast
qed

lemma in_use_alive: "in_use P C i (Client_comm c) \<Longrightarrow> alive C (remote_address c)"
  by (auto simp: in_use_def alive_def owns_def)

text \<open>Dropping a pointer of a thread that is not in a call.\<close>

lemma in_use_drop:
  assumes "process_ok (processes C (P i))" "processes C (P i) = \<lparr>heap = H, pointers = M\<rparr>" "(i, n) \<in># M"
    and "drop_shared n H = (x, H')" "in_use P C j y" "j \<noteq> i"
  shows "in_use P (set_process (P i) H' (M - {#(i, n)#}) C) j y"
proof (cases "P j = P i")
  case True
  obtain m where m: "object H m = Some y" "(j, m) \<in># M \<or> pointers_to m M = 0"
    using assms(2,5) True by (auto simp: in_use_def)
  have count: "pointers_to k M \<le> use_count H k" for k using assms(1,2) by (simp add: process_ok_def)
  have "object H' m = Some y"
  proof (cases "m = n")
    case same: True
    then have "(j, n) \<in># M" using m(2) assms(3) pointers_to_pos by fastforce
    with assms(3,6) have "1 < pointers_to n M" using pointers_to_two by blast
    with count [of n] m(1) same show ?thesis using drop_shared_objects(1) [OF assms(4)] by simp
  next
    case False
    then show ?thesis using m(1) drop_shared_objects(1) [OF assms(4)] by auto
  qed
  moreover have "(j, m) \<in># M - {#(i, n)#} \<or> pointers_to m (M - {#(i, n)#}) = 0"
    using m(2) assms(6) pointers_to_remove [OF assms(3), of m] by (auto simp: in_diff_count split: if_splits)
  ultimately show ?thesis using True by (auto simp: in_use_def set_process_def)
next
  case False
  with assms(5) show ?thesis by (simp add: in_use_def set_process_def)
qed

section \<open>What the clients do keeps the ownership\<close>

lemma set_process_simps [simp]:
  "processes (set_process p H M C) = (processes C)(p := \<lparr>heap = H, pointers = M\<rparr>)"
  "calling (set_process p H M C) = calling C"
  by (simp_all add: set_process_def)

lemma calling_only [simp]:
  "owns (C\<lparr>calling := g\<rparr>) = owns C" "alive (C\<lparr>calling := g\<rparr>) = alive C"
  "in_use P (C\<lparr>calling := g\<rparr>) = in_use P C" "call_ok P (C\<lparr>calling := g\<rparr>) = call_ok P C"
  by (simp_all add: owns_def alive_def in_use_def call_ok_def fun_eq_iff)

lemma call_ok_mono:
  assumes "call_ok P C i m" "\<And>y. in_use P C i y \<Longrightarrow> in_use P C' i y"
  shows "call_ok P C' i m"
  using assms by (auto simp: call_ok_def)

text \<open>One process changes; its threads that are in a call keep what they use.\<close>

lemma heaps_ok_change:
  assumes ok: "heaps_ok P C" and process: "process_ok \<lparr>heap = H', pointers = M'\<rparr>"
    and C': "C' = set_process p H' M' C"
    and own: "\<And>q n a. owns C' q n a \<Longrightarrow> owns C q n a"
    and use: "\<And>j m y. calling C j = Some m \<Longrightarrow> in_use P C j y \<Longrightarrow> in_use P C' j y"
  shows "heaps_ok P C'"
  unfolding heaps_ok_def
proof (intro conjI allI impI)
  fix q show "process_ok (processes C' q)" using heaps_okD(1) [OF ok] process C' by simp
next
  fix a q n q' n' assume "owns C' q n a \<and> owns C' q' n' a"
  then show "q = q'" "n = n'" using own heaps_okD(2) [OF ok] by blast+
next
  fix j m assume "calling C' j = Some m"
  then have m: "calling C j = Some m" using C' by simp
  from call_ok_mono [OF heaps_okD(3) [OF ok m], of C'] use [OF m] show "call_ok P C' j m" by blast
qed

lemma in_use_change:
  assumes "processes C p = \<lparr>heap = H, pointers = M\<rparr>" "in_use P C j y"
    and "\<And>n. object H n = Some y \<Longrightarrow> (j, n) \<in># M \<or> pointers_to n M = 0 \<Longrightarrow>
           object H' n = Some y \<and> ((j, n) \<in># M' \<or> pointers_to n M' = 0)"
  shows "in_use P (set_process p H' M' C) j y"
proof (cases "P j = p")
  case True
  with assms(1,2) obtain n where "object H n = Some y" "(j, n) \<in># M \<or> pointers_to n M = 0"
    by (auto simp: in_use_def)
  from assms(3) [OF this] True show ?thesis by (auto simp: in_use_def)
next
  case False
  with assms(2) show ?thesis by (simp add: in_use_def)
qed

lemma client_step_ok:
  assumes "client_step P C C'" "heaps_ok P C"
  shows "heaps_ok P C'" "owns C' q n a \<Longrightarrow> owns C q n a" "calling C' = calling C"
proof -
  have "heaps_ok P C' \<and> (\<forall>q n a. owns C' q n a \<longrightarrow> owns C q n a)"
    using assms(1)
  proof cases
    case (make i H M x name m H')
    have ok: "process_ok \<lparr>heap = H, pointers = M\<rparr>" using heaps_okD(1) [OF assms(2), of "P i"] make(3) by simp
    note new = process_ok_make [OF ok make(5)]
    have own: "owns C' q n a \<Longrightarrow> owns C q n a" for q n a
      using make(1,3,4) new(3) by (auto simp: owns_def split: if_splits)
    moreover have "heaps_ok P C'"
    proof (rule heaps_ok_change [OF assms(2) new(1) make(1) own])
      fix j y assume "in_use P C j y"
      then show "in_use P C' j y"
        unfolding make(1) by (rule in_use_change [OF make(3)]) (use new(2,3) in \<open>auto simp: fun_upd_apply\<close>)
    qed
    ultimately show ?thesis by blast
  next
    case (copy i H M m j)
    have ok: "process_ok \<lparr>heap = H, pointers = M\<rparr>" using heaps_okD(1) [OF assms(2), of "P i"] copy(3) by simp
    note new = process_ok_copy [OF ok copy(4), of j]
    have own: "owns C' q n a \<Longrightarrow> owns C q n a" for q n a
      using copy(1,3) by (auto simp: owns_def copy_shared_def split: if_splits)
    moreover have "heaps_ok P C'"
    proof (rule heaps_ok_change [OF assms(2) new copy(1) own])
      fix j y assume "in_use P C j y"
      then show "in_use P C' j y"
        unfolding copy(1) by (rule in_use_change [OF copy(3)])
          (use pointers_to_pos [OF copy(4)] in \<open>auto simp: copy_shared_def\<close>)
    qed
    ultimately show ?thesis by blast
  next
    case (drop i H M m x H')
    have ok: "process_ok \<lparr>heap = H, pointers = M\<rparr>" using heaps_okD(1) [OF assms(2), of "P i"] drop(3) by simp
    have own: "owns C' q n a \<Longrightarrow> owns C q n a" for q n a
      using drop(1,3) drop_shared_objects(1) [OF drop(5)] by (auto simp: owns_def split: if_splits)
    moreover have "heaps_ok P C'"
    proof (rule heaps_ok_change [OF assms(2) process_ok_drop [OF ok drop(4,5)] drop(1) own])
      fix j m y assume "calling C j = Some m" "in_use P C j y"
      then show "in_use P C' j y"
        using in_use_drop [where P = P and i = i, OF heaps_okD(1) [OF assms(2)] drop(3,4,5), of j y] drop(1,2) by (cases "j = i") simp_all
    qed
    ultimately show ?thesis by blast
  next
    case (die p H M)
    have ok: "process_ok \<lparr>heap = H, pointers = M\<rparr>" using heaps_okD(1) [OF assms(2), of p] die(2) by simp
    then have new: "process_ok \<lparr>heap = H, pointers = {#}\<rparr>" by (simp add: process_ok_def pointers_to_def)
    have own: "owns C' q n a \<Longrightarrow> owns C q n a" for q n a
      using die by (auto simp: owns_def split: if_splits)
    moreover have "heaps_ok P C'"
    proof (rule heaps_ok_change [OF assms(2) new die(1) own])
      fix j y assume "in_use P C j y"
      then show "in_use P C' j y"
        unfolding die(1) by (rule in_use_change [OF die(2)]) (auto simp: pointers_to_def)
    qed
    ultimately show ?thesis by blast
  qed
  then show "heaps_ok P C'" "owns C' q n a \<Longrightarrow> owns C q n a" by blast+
  show "calling C' = calling C" using assms(1) by (auto elim: client_step.cases)
qed

lemma client_sends_ok:
  assumes "client_sends P C i t C'" "heaps_ok P C"
  shows "calling C i = None" "\<exists>f. calling C' = (calling C)(i \<mapsto> (t, f))" "heaps_ok P C'"
    "owns C' q n a \<Longrightarrow> owns C q n a"
    "a \<in> drops t \<Longrightarrow> alive C a \<and> \<not> alive C' a \<and> (\<forall>j c. j \<noteq> i \<and> remote_address c = a \<longrightarrow> \<not> in_use P C j (Client_comm c))"
proof -
  have "calling C i = None \<and> (\<exists>f. calling C' = (calling C)(i \<mapsto> (t, f))) \<and> heaps_ok P C' \<and>
      (\<forall>q n a. owns C' q n a \<longrightarrow> owns C q n a) \<and> (a \<in> drops t \<longrightarrow> alive C a \<and> \<not> alive C' a \<and>
         (\<forall>j c. j \<noteq> i \<and> remote_address c = a \<longrightarrow> \<not> in_use P C j (Client_comm c)))"
    using assms(1)
  proof cases
    case (call H M X f)
    have "\<And>x. x \<in> X \<Longrightarrow> in_use P C i x" using call(3,5) by (auto simp: in_use_def)
    then have "call_ok P C i (t, f)" using call(4) by (auto simp: call_ok_def)
    then have "heaps_ok P C'" using assms(2) call(1) by (auto simp: heaps_ok_def)
    with call library_call_drops [OF call(4)] show ?thesis by auto
  next
    case (destroy H M m x H')
    let ?C = "set_process (P i) H' (M - {#(i, m)#}) C"
    have ok: "process_ok \<lparr>heap = H, pointers = M\<rparr>" using heaps_okD(1) [OF assms(2), of "P i"] destroy(3) by simp
    note obj = drop_shared_objects [OF destroy(5)]
    have last: "use_count H m = 1" "object H m = Some x" using obj(2) by (auto split: if_splits)
    have own: "owns ?C q n a \<Longrightarrow> owns C q n a \<and> (q, n) \<noteq> (P i, m)" for q n a
      using destroy(3) obj(1) last by (auto simp: owns_def split: if_splits)
    have "heaps_ok P ?C"
    proof (rule heaps_ok_change [OF assms(2) process_ok_drop [OF ok destroy(4,5)] refl])
      fix q n a assume "owns ?C q n a" then show "owns C q n a" using own by blast
    next
      fix j m' y assume "calling C j = Some m'" "in_use P C j y"
      then show "in_use P ?C j y"
        using in_use_drop [where P = P and i = i, OF heaps_okD(1) [OF assms(2)] destroy(3,4,5), of j y] destroy(2) by (cases "j = i") simp_all
    qed
    moreover have "call_ok P ?C i (t, \<lambda>ack. None)" using destructor_drops(2) [OF destroy(6)] by (simp add: call_ok_def)
    ultimately have new: "heaps_ok P C'" using destroy(1) by (auto simp: heaps_ok_def)
    have "alive C a \<and> \<not> alive C' a \<and> (\<forall>j c. j \<noteq> i \<and> remote_address c = a \<longrightarrow> \<not> in_use P C j (Client_comm c))"
      if a: "a \<in> drops t"
    proof -
      obtain c where c: "x = Client_comm c" "remote_address c = a"
        using a destructor_drops(1) [OF destroy(6)] by (auto split: client_object.splits)
      have mine: "owns C (P i) m a" using destroy(3) last(2) c by (auto simp: owns_def)
      then have "\<not> owns ?C q n a" for q n
        using own heaps_okD(2) [OF assms(2) mine] by blast
      then have "\<not> alive ?C a" by (simp add: alive_def)
      then have "\<not> alive C' a" unfolding destroy(1) by simp
      moreover have "\<not> in_use P C j (Client_comm c')" if "j \<noteq> i" "remote_address c' = a" for j c'
      proof
        assume "in_use P C j (Client_comm c')"
        then obtain n where n: "object (heap (processes C (P j))) n = Some (Client_comm c')"
          "(j, n) \<in># pointers (processes C (P j)) \<or> pointers_to n (pointers (processes C (P j))) = 0"
          by (auto simp: in_use_def)
        then have "owns C (P j) n a" using that(2) by (auto simp: owns_def)
        from heaps_okD(2) [OF assms(2) mine this] have eq: "P j = P i" "n = m" by simp_all
        have "pointers_to m M \<le> use_count H m" using ok by (simp add: process_ok_def)
        then have le: "pointers_to m M \<le> 1" using last(1) by simp
        with n(2) eq destroy(3,4) pointers_to_two [OF destroy(4), of j] that(1) pointers_to_pos [OF destroy(4)]
        show False by auto
      qed
      moreover have "alive C a" using mine by (auto simp: alive_def)
      ultimately show ?thesis by blast
    qed
    with new destroy(1,2) own show ?thesis by auto
  qed
  then show "calling C i = None" "\<exists>f. calling C' = (calling C)(i \<mapsto> (t, f))" "heaps_ok P C'"
    "owns C' q n a \<Longrightarrow> owns C q n a"
    "a \<in> drops t \<Longrightarrow> alive C a \<and> \<not> alive C' a \<and> (\<forall>j c. j \<noteq> i \<and> remote_address c = a \<longrightarrow> \<not> in_use P C j (Client_comm c))"
    by blast+
qed

text \<open>An acknowledgment with a handle gives one new object, and any other none.\<close>

lemma client_receives_ok:
  assumes "heaps_ok P C" "calling C i = Some m" "conforms (fst m) ack"
    and fresh: "\<And>a. new_comm ack = Some a \<Longrightarrow> \<not> alive C a"
  shows "heaps_ok P (client_receives P i ack C)" "calling (client_receives P i ack C) = (calling C)(i := None)"
    "owns (client_receives P i ack C) q n a \<Longrightarrow> owns C q n a \<or> new_comm ack = Some a"
proof -
  let ?R = "client_receives P i ack C" and ?C = "C\<lparr>calling := (calling C)(i := None)\<rparr>"
  obtain t f where m: "m = (t, f)" by (cases m)
  have ok: "heaps_ok P ?C" using assms(1) by (auto simp: heaps_ok_def)
  have "heaps_ok P ?R \<and> calling ?R = (calling C)(i := None) \<and>
     (\<forall>q n a. owns ?R q n a \<longrightarrow> owns C q n a \<or> new_comm ack = Some a)"
  proof (cases "f ack")
    case None
    then have "?R = ?C" using assms(2) m by (simp add: client_receives_def)
    with ok show ?thesis by simp
  next
    case (Some x)
    obtain H M where p: "processes C (P i) = \<lparr>heap = H, pointers = M\<rparr>" by (cases "processes C (P i)")
    obtain n H' where new: "make_shared x H = (n, H')" by (cases "make_shared x H")
    have R: "?R = set_process (P i) H' (add_mset (i, n) M) ?C"
      using assms(2) m Some p new by (simp add: client_receives_def Let_def)
    have pok: "process_ok \<lparr>heap = H, pointers = M\<rparr>" using heaps_okD(1) [OF assms(1), of "P i"] p by simp
    note made = process_ok_make [OF pok new]
    from heaps_okD(3) [OF assms(1,2)] Some m obtain X where X: "library_call X m" by (auto simp: call_ok_def)
    have comm: "new_comm ack = Some (remote_address c)" if "x = Client_comm c" for c
      using library_call_new [OF X assms(3)] Some m that by simp
    have own: "owns ?R q k a \<Longrightarrow> (owns C q k a \<and> (q, k) \<noteq> (P i, n)) \<or> (q = P i \<and> k = n \<and> new_comm ack = Some a)" for q k a
      using R made(2,3) p comm by (auto simp: owns_def split: if_splits)
    have "heaps_ok P ?R"
      unfolding heaps_ok_def
    proof (intro conjI allI impI)
      fix q show "process_ok (processes ?R q)" using heaps_okD(1) [OF assms(1)] made(1) R by simp
    next
      fix a q k q' k' assume both: "owns ?R q k a \<and> owns ?R q' k' a"
      have "\<not> owns C q k a" if "new_comm ack = Some a" for q k using fresh [OF that] by (auto simp: alive_def)
      with own [of q k a] own [of q' k' a] both heaps_okD(2) [OF assms(1)] show "q = q'" "k = k'" by blast+
    next
      fix j m' assume "calling ?R j = Some m'"
      then have j: "calling ?C j = Some m'" using R by simp
      show "call_ok P ?R j m'"
      proof (rule call_ok_mono [OF heaps_okD(3) [OF ok j]])
        fix y assume "in_use P ?C j y"
        then show "in_use P ?R j y"
          unfolding R by (rule in_use_change [rotated]) (use p made(2,3) in \<open>auto simp: fun_upd_apply\<close>)
      qed
    qed
    with R own show ?thesis by auto
  qed
  then show "heaps_ok P ?R" "calling ?R = (calling C)(i := None)"
    "owns ?R q n a \<Longrightarrow> owns C q n a \<or> new_comm ack = Some a" by blast+
qed

section \<open>The turns that are under way\<close>

type_synonym turns = "int \<Rightarrow> (u64 set \<times> prog) option"

definition handling :: "sys \<Rightarrow> turns" where
  "handling s i = (case actors s i of None \<Rightarrow> None | Some A \<Rightarrow> (case a_phase A of Handling D p \<Rightarrow> Some (D, p) | _ \<Rightarrow> None))"

definition writing :: "turns \<Rightarrow> int \<Rightarrow> bool" where
  "writing h i \<longleftrightarrow> (\<exists>D ack k. h i = Some (D, Do (Socket_write ack) k))"

text \<open>The server is about to tell the client of \<open>i\<close> a new handle.\<close>

definition telling :: "turns \<Rightarrow> int \<Rightarrow> u64 \<Rightarrow> bool" where
  "telling h i a \<longleftrightarrow> (\<exists>D ack k. h i = Some (D, Do (Socket_write ack) k) \<and> new_comm ack = Some a)"

definition releasing :: "turns \<Rightarrow> int \<Rightarrow> u64 \<Rightarrow> bool" where
  "releasing h i a \<longleftrightarrow> (\<exists>D c k. h i = Some (D, Do c k) \<and> a \<in> D)"

text \<open>A turn answers the call that the client has sent.\<close>

definition turn_for :: "decision_type \<Rightarrow> u64 set \<Rightarrow> prog \<Rightarrow> bool" where
  "turn_for t D p \<longleftrightarrow> D = drops t \<and> turn_ok p t \<and> (case p of
      Done out \<Rightarrow> True
    | Do c k \<Rightarrow> (\<forall>a. pinned_comm c = Some a \<longrightarrow> a \<in> waits_on t) \<and> (\<forall>ack. c = Socket_write ack \<longrightarrow> conforms t ack))"

definition turns_ok :: "clients \<Rightarrow> turns \<Rightarrow> bool" where
  "turns_ok C h \<longleftrightarrow> (\<forall>i D c k. h i = Some (D, Do c k) \<longrightarrow> (\<exists>t f. calling C i = Some (t, f) \<and> turn_for t D (Do c k)))"

text \<open>
  The server's entries of communications: those of the clients' objects, those about to be told and those
  about to be released, all different.
\<close>

definition entries_ok :: "clients \<Rightarrow> turns \<Rightarrow> server \<Rightarrow> bool" where
  "entries_ok C h st \<longleftrightarrow> (\<forall>a. alive C a \<longrightarrow> comms st a \<noteq> None) \<and>
     (\<forall>i a. telling h i a \<longrightarrow> comms st a \<noteq> None \<and> \<not> alive C a) \<and>
     (\<forall>i a. releasing h i a \<longrightarrow> (writing h i \<or> comms st a \<noteq> None) \<and> \<not> alive C a \<and>
        (\<forall>j. \<not> telling h j a) \<and> (\<forall>j. releasing h j a \<longrightarrow> j = i))"

lemma entries_okI:
  assumes "\<And>a. alive C a \<Longrightarrow> comms st a \<noteq> None"
    and "\<And>i a. telling h i a \<Longrightarrow> comms st a \<noteq> None \<and> \<not> alive C a"
    and "\<And>i a. releasing h i a \<Longrightarrow> (writing h i \<or> comms st a \<noteq> None) \<and> \<not> alive C a"
    and "\<And>i a j. releasing h i a \<Longrightarrow> \<not> telling h j a" "\<And>i a j. releasing h i a \<Longrightarrow> releasing h j a \<Longrightarrow> j = i"
  shows "entries_ok C h st"
  using assms unfolding entries_ok_def by blast

lemma entries_okD:
  assumes "entries_ok C h st"
  shows "alive C a \<Longrightarrow> comms st a \<noteq> None" "telling h i a \<Longrightarrow> comms st a \<noteq> None" "telling h i a \<Longrightarrow> \<not> alive C a"
    "releasing h i a \<Longrightarrow> writing h i \<or> comms st a \<noteq> None" "releasing h i a \<Longrightarrow> \<not> alive C a"
    "releasing h i a \<Longrightarrow> \<not> telling h j a" "releasing h i a \<Longrightarrow> releasing h j a \<Longrightarrow> j = i"
  using assms unfolding entries_ok_def by blast+

lemma telling_writing: "telling h i a \<Longrightarrow> writing h i"
  by (auto simp: telling_def writing_def)

lemma turns_other [simp]:
  assumes "j \<noteq> i"
  shows "writing (h(i := x)) j = writing h j" "telling (h(i := x)) j a = telling h j a" "releasing (h(i := x)) j a = releasing h j a"
  using assms by (simp_all add: writing_def telling_def releasing_def)

lemma turns_over:
  assumes "x = None \<or> (\<exists>D out. x = Some (D, Done out))"
  shows "\<not> writing (h(i := x)) i" "\<not> telling (h(i := x)) i a" "\<not> releasing (h(i := x)) i a"
  using assms by (auto simp: writing_def telling_def releasing_def)

lemma drops_one: "a \<in> drops t \<Longrightarrow> t = KCommRefcountDecrease a" "a \<in> drops t \<Longrightarrow> drops t = {a}"
  by (auto simp: drops_def split: decision_type.splits)

text \<open>The turn of \<open>i\<close> goes on to its next call.\<close>

lemma turn_advances:
  assumes old: "turns_ok C h" "entries_ok C h st"
    and C': "\<And>a. alive C' a \<Longrightarrow> alive C a" "calling C' = (calling C)(i \<mapsto> (t, f))"
    and turn: "stretch t st st' p" "turn_ok p t"
    and alone: "\<And>j. j \<noteq> i \<Longrightarrow> \<not> writing h j"
    and keeps: "\<And>a. a \<notin> drops t \<Longrightarrow> comms st a \<noteq> None \<Longrightarrow> comms st' a \<noteq> None"
    and drop: "\<And>a. a \<in> drops t \<Longrightarrow> \<not> alive C' a" "\<And>a j. a \<in> drops t \<Longrightarrow> releasing h j a \<Longrightarrow> j = i"
      "\<And>a c k. a \<in> drops t \<Longrightarrow> p = Do c k \<Longrightarrow> comms st a \<noteq> None"
  shows "turns_ok C' (h(i \<mapsto> (drops t, p)))" "entries_ok C' (h(i \<mapsto> (drops t, p))) st'"
proof -
  let ?h = "h(i \<mapsto> (drops t, p))"
  have "turn_for t (drops t) p"
    using turn by (cases p) (auto simp: turn_for_def stretch_do answers_with_def)
  then show "turns_ok C' ?h"
    using old(1) C'(2) by (auto simp: turns_ok_def)
  have alive: "comms st a \<noteq> None" "comms st' a \<noteq> None" if "alive C' a" for a
    using entries_okD(1) [OF old(2) C'(1) [OF that]] keeps drop(1) that by blast+
  have tell: "j = i \<and> comms st a = None \<and> comms st' a \<noteq> None \<and> drops t = {}" if tl: "telling ?h j a" for j a
  proof -
    have "j = i" using tl alone telling_writing by (cases "j = i") auto
    then obtain ack k where ack: "p = Do (Socket_write ack) k" "new_comm ack = Some a"
      using tl by (auto simp: telling_def)
    then have st: "conforms t ack" "comms st a = None" "comms st' a \<noteq> None"
      using turn(1) by (auto simp: stretch_do answers_with_def registered_def)
    have "drops t = {}"
      using ack(2) st(1) by (cases t) (auto simp: drops_def new_comm_def conforms_def expected_def split: if_splits)
    with \<open>j = i\<close> st show ?thesis by blast
  qed
  have release: "(writing ?h j \<or> comms st' a \<noteq> None) \<and> comms st a \<noteq> None \<and> \<not> alive C' a \<and> (\<forall>j'. releasing ?h j' a \<longrightarrow> j' = j)"
    if rel: "releasing ?h j a" for j a
  proof (cases "j = i")
    case True
    with rel obtain c k where p: "p = Do c k" "a \<in> drops t" by (auto simp: releasing_def)
    have "is_write c \<or> comms st' a \<noteq> None"
      using turn(1) drop(3) [OF p(2,1)] drops_one(1) [OF p(2)] by (simp add: p(1) stretch_do)
    then have "writing ?h i \<or> comms st' a \<noteq> None" by (auto simp: writing_def p(1) is_write_def)
    moreover have "j' = i" if "releasing ?h j' a" for j'
      using that drop(2) [OF p(2), of j'] by (cases "j' = i") simp_all
    ultimately show ?thesis using True drop(1,3) p by blast
  next
    case False
    with rel have r: "releasing h j a" by simp
    with False alone have st: "comms st a \<noteq> None" using entries_okD(4) [OF old(2)] by blast
    have "a \<notin> drops t" using drop(2) [OF _ r] False by blast
    moreover have "\<not> alive C' a" using entries_okD(5) [OF old(2) r] C'(1) by blast
    moreover have "j' = j" if "releasing ?h j' a" for j'
    proof (cases "j' = i")
      case True
      with that have "a \<in> drops t" by (auto simp: releasing_def)
      with \<open>a \<notin> drops t\<close> show ?thesis by simp
    next
      case False
      with that entries_okD(7) [OF old(2) r] show ?thesis by simp
    qed
    ultimately show ?thesis using keeps st by blast
  qed
  show "entries_ok C' ?h st'"
  proof (rule entries_okI)
    show "alive C' a \<Longrightarrow> comms st' a \<noteq> None" for a by (rule alive(2))
    show "comms st' a \<noteq> None \<and> \<not> alive C' a" if "telling ?h j a" for j a
      using tell [OF that] alive(1) [of a] by auto
    show "(writing ?h j \<or> comms st' a \<noteq> None) \<and> \<not> alive C' a" if "releasing ?h j a" for j a
      using release [OF that] by blast
    show "\<not> telling ?h j' a" if "releasing ?h j a" for j a j'
    proof
      assume "telling ?h j' a"
      then have "comms st a = None" using tell by simp
      with release [OF that] show False by simp
    qed
    show "j' = j" if "releasing ?h j a" "releasing ?h j' a" for j a j'
      using release [OF that(1)] that(2) by blast
  qed
qed

text \<open>The turn of \<open>i\<close> makes no more calls, or is over.\<close>

lemma turn_stops:
  assumes old: "turns_ok C h" "entries_ok C h st"
    and over: "x = None \<or> (\<exists>D out. x = Some (D, Done out))"
    and C': "\<And>a. alive C' a \<Longrightarrow> alive C a \<or> telling h i a" "\<And>j. j \<noteq> i \<Longrightarrow> calling C' j = calling C j"
    and alone: "\<And>j. j \<noteq> i \<Longrightarrow> \<not> writing h j"
    and keeps: "\<And>a. \<not> releasing h i a \<Longrightarrow> comms st a \<noteq> None \<Longrightarrow> comms st' a \<noteq> None"
  shows "turns_ok C' (h(i := x))" "entries_ok C' (h(i := x)) st'"
proof -
  let ?h = "h(i := x)"
  note none = turns_over [OF over, of h i]
  show "turns_ok C' ?h"
    using old(1) C'(2) over by (auto simp: turns_ok_def)
  have no_tell: "\<not> telling ?h j a" for j a
    using alone telling_writing none(2) by (cases "j = i") auto
  have rel: "releasing h j a \<and> j \<noteq> i" if "releasing ?h j a" for j a
    using that none(3) by (cases "j = i") auto
  have gone: "\<not> alive C' a" if "releasing h j a" for j a
    using C'(1) entries_okD(5,6) [OF old(2) that] by blast
  show "entries_ok C' ?h st'"
  proof (rule entries_okI)
    show "comms st' a \<noteq> None" if "alive C' a" for a
      using C'(1) [OF that] entries_okD(1,2) [OF old(2)] gone [of i a] that keeps by blast
    show "comms st' a \<noteq> None \<and> \<not> alive C' a" if "telling ?h j a" for j a using that no_tell by blast
    show "(writing ?h j \<or> comms st' a \<noteq> None) \<and> \<not> alive C' a" if "releasing ?h j a" for j a
    proof -
      from rel [OF that] have j: "releasing h j a" "j \<noteq> i" by simp_all
      then have "comms st a \<noteq> None" using entries_okD(4) [OF old(2) j(1)] alone by blast
      moreover have "\<not> releasing h i a" using entries_okD(7) [OF old(2) j(1), of i] j(2) by blast
      ultimately show ?thesis using keeps gone [OF j(1)] by blast
    qed
    show "\<not> telling ?h j' a" for a j' by (rule no_tell)
    show "j' = j" if "releasing ?h j a" "releasing ?h j' a" for j a j'
      using rel [OF that(1)] rel [OF that(2)] entries_okD(7) [OF old(2)] by blast
  qed
qed

lemma entries_ok_cong: "comms st' = comms st \<Longrightarrow> entries_ok C h st' = entries_ok C h st"
  by (simp add: entries_ok_def)

section \<open>Client and server together\<close>

definition prologues_ok :: "sys \<Rightarrow> bool" where
  "prologues_ok s \<longleftrightarrow> (\<forall>i A p. actors s i = Some A \<and> a_phase A = Connecting p \<longrightarrow> pins_nothing p)"

definition joint_ok :: "(int \<Rightarrow> nat) \<Rightarrow> clients \<Rightarrow> sys \<Rightarrow> bool" where
  "joint_ok P C s \<longleftrightarrow> heaps_ok P C \<and> turns_ok C (handling s) \<and> entries_ok C (handling s) (shared s) \<and> prologues_ok s"

lemma joint_okD:
  assumes "joint_ok P C s"
  shows "heaps_ok P C" "turns_ok C (handling s)" "entries_ok C (handling s) (shared s)" "prologues_ok s"
  using assms by (simp_all add: joint_ok_def)

lemma handling_ops [simp]:
  "handling (set_actor i A s) = (handling s)(i := (case a_phase A of Handling D p \<Rightarrow> Some (D, p) | _ \<Rightarrow> None))"
  "handling (set_phase i A ph s) = (handling s)(i := (case ph of Handling D p \<Rightarrow> Some (D, p) | _ \<Rightarrow> None))"
  "handling (log_event i e s) = handling s" "handling (s\<lparr>shared := st\<rparr>) = handling s"
  "handling (s\<lparr>to_command := ms\<rparr>) = handling s"
  by (auto simp: handling_def sys_ops fun_eq_iff)

lemma handling_record [simp]: "handling (record_call i c r s) = handling s" "shared (record_call i c r s) = shared s"
  by (cases c; cases r; simp add: record_call_def log_event_def handling_def fun_eq_iff split: bool.splits)+

lemma handling_actor: "actors s i = Some A \<Longrightarrow>
    handling s i = (case a_phase A of Handling D p \<Rightarrow> Some (D, p) | _ \<Rightarrow> None)"
  by (simp add: handling_def)

lemma handling_actorE:
  assumes "handling s i = Some (D, p)"
  obtains A where "actors s i = Some A" "a_phase A = Handling D p"
  using assms by (auto simp: handling_def split: option.splits phase.splits)

lemma exclusive_writing: "exclusive s i \<Longrightarrow> j \<noteq> i \<Longrightarrow> \<not> writing (handling s) j"
  by (force simp: exclusive_def writing_def io_call_def elim!: handling_actorE)

lemma write_ends:
  assumes "dialogues_ok s" "actors s i = Some A" "a_phase A = Handling D (Do (Socket_write ack) k)"
  shows "\<exists>out. snd (k r st) = Done out"
proof -
  obtain F w where "tracks F w (Do (Socket_write ack) k)"
    using dialogues_ok_actor [OF assms(1,2)] assms(3) by (auto simp: dialogue_def)
  then show ?thesis
  proof (cases rule: tracks.cases)
    case tracks_write
    show ?thesis
    proof (cases "r = Ret_unit")
      case True
      from tracks_write(2) [of st] have "tracks F (Some ack) (snd (k Ret_unit st))" .
      then show ?thesis using True by (cases rule: tracks.cases) auto
    next
      case False
      with tracks_write(3) show ?thesis by blast
    qed
  next
    case tracks_do
    then show ?thesis by blast
  qed
qed

text \<open>A blocked actor waits on an object of its client.\<close>

lemma pinned_in_use:
  assumes "joint_ok P C s" "actors s j = Some B" "running (a_phase B) = Some (D, Do c k)" "pinned_comm c = Some a"
  shows "\<exists>v. in_use P C j (Client_comm v) \<and> remote_address v = a"
proof (cases "a_phase B")
  case (Handling D' p)
  then have "handling s j = Some (D, Do c k)" using assms(2,3) by (simp add: handling_actor)
  then obtain t f where t: "calling C j = Some (t, f)" "turn_for t D (Do c k)"
    using joint_okD(2) [OF assms(1)] unfolding turns_ok_def by blast
  then have "a \<in> waits_on (fst (t, f))" using assms(4) by (simp add: turn_for_def)
  from waits_alive [OF heaps_okD(3) [OF joint_okD(1) [OF assms(1)] t(1)] this] show ?thesis .
next
  case (Connecting p)
  then have "pins_nothing p" using joint_okD(4) [OF assms(1)] assms(2) by (auto simp: prologues_ok_def)
  with Connecting assms(3,4) show ?thesis by simp
qed (use assms(3) in simp_all)

lemma handling_drops_allowed:
  assumes "joint_ok P C s" "handling s i = Some (D, Do c k)"
  shows "drops_allowed s i D"
  unfolding drops_allowed_def
proof (intro allI impI)
  fix j B D' c' k' a
  assume j: "j \<noteq> i \<and> actors s j = Some B \<and> running (a_phase B) = Some (D', Do c' k') \<and> pinned_comm c' = Some a"
  then have "alive C a" using pinned_in_use [OF assms(1)] in_use_alive by blast
  then show "a \<notin> D"
    using entries_okD(5) [OF joint_okD(3) [OF assms(1)], of i a] assms(2) by (auto simp: releasing_def)
qed

lemma sending_drops_allowed:
  assumes "joint_ok P C s" "client_sends P C i t C'"
  shows "drops_allowed s i (drops t)"
  unfolding drops_allowed_def
  using pinned_in_use [OF assms(1)] client_sends_ok(5) [OF assms(2) joint_okD(1) [OF assms(1)]] by blast

text \<open>The next call of a turn, or its end.\<close>

lemma turn_resumes:
  assumes joint: "joint_ok P C s" and reach: "reachable conns s"
    and A: "actors s i = Some A" "a_phase A = Handling D (Do c k)" "exclusive s i"
    and r: "well_typed c r" "s4u_ok c r (shared s)" "k r (shared s) = (st', p)"
  shows "turns_ok C ((handling s)(i \<mapsto> (D, p)))" "entries_ok C ((handling s)(i \<mapsto> (D, p))) st'"
proof -
  let ?h = "handling s"
  note inv = joint_okD [OF joint]
  have h: "?h i = Some (D, Do c k)" using A(1,2) by (simp add: handling_actor)
  obtain t f where t: "calling C i = Some (t, f)" "turn_for t D (Do c k)"
    using inv(2) h unfolding turns_ok_def by blast
  have sys: "sys_ok s" using reach by (rule reachable_sys_ok)
  have keeps: "comms st' a \<noteq> None" if "a \<notin> D" "comms (shared s) a \<noteq> None" for a
    using running_keeps [where c = c and k = k and r = r and p = p and D = D and a = a, OF sys A(1) _ r] A(2) that
    by (auto simp: same_node_def)
  have rel: "releasing ?h i a \<longleftrightarrow> a \<in> D" for a using h by (simp add: releasing_def)
  note alone = exclusive_writing [OF A(3)]
  have "turns_ok C (?h(i \<mapsto> (D, p))) \<and> entries_ok C (?h(i \<mapsto> (D, p))) st'"
  proof (cases p)
    case (Done out)
    with turn_stops [OF inv(2,3), of "Some (D, p)" C i st'] alone keeps rel show ?thesis by blast
  next
    case (Do c' k')
    have D: "D = drops t" using t(2) by (simp add: turn_for_def)
    have turn: "stretch t (shared s) st' p" "turn_ok p t"
      using t(2) r(2,3) sys by (auto simp: turn_for_def sys_ok_def dest!: spec [of _ r])
    have "c \<noteq> Socket_write ack" for ack
      using write_ends [OF reachable_dialogues_ok [OF reach] A(1), of D ack k r "shared s"] A(2) r(3) Do by auto
    then have "\<not> writing ?h i" using h by (auto simp: writing_def)
    then have entry: "comms (shared s) a \<noteq> None" if "a \<in> D" for a
      using entries_okD(4) [OF inv(3)] rel that by blast
    have same: "calling C = (calling C)(i \<mapsto> (t, f))" using t(1) by (simp add: fun_upd_idem)
    have drop: "a \<in> drops t \<Longrightarrow> \<not> alive C a" "a \<in> drops t \<Longrightarrow> releasing ?h j a \<Longrightarrow> j = i" for a j
      using entries_okD(5,7) [OF inv(3), of i a] rel D by auto
    have keeps': "a \<notin> drops t \<Longrightarrow> comms (shared s) a \<noteq> None \<Longrightarrow> comms st' a \<noteq> None" for a
      using keeps D by simp
    have entry': "a \<in> drops t \<Longrightarrow> p = Do c k \<Longrightarrow> comms (shared s) a \<noteq> None" for a c k
      using entry D by simp
    have "alive C a \<Longrightarrow> alive C a" for a .
    note adv = turn_advances [OF inv(2,3) this same turn alone keeps' drop entry']
    show ?thesis unfolding D by (intro conjI adv)
  qed
  then show "turns_ok C (?h(i \<mapsto> (D, p)))" "entries_ok C (?h(i \<mapsto> (D, p))) st'" by blast+
qed

text \<open>The other steps of the server: a phase without calls begins or ends, and the store keeps its entries.\<close>

lemma phase_changes:
  assumes joint: "joint_ok P C s" and excl: "exclusive s i" and h: "x = None \<or> (\<exists>D out. x = Some (D, Done out))"
    and keeps: "\<And>a. comms (shared s) a \<noteq> None \<Longrightarrow> comms st' a \<noteq> None"
  shows "turns_ok C ((handling s)(i := x))" "entries_ok C ((handling s)(i := x)) st'"
proof -
  note inv = joint_okD [OF joint]
  have alive: "alive C a \<Longrightarrow> alive C a \<or> telling (handling s) i a" for a by simp
  have "\<not> releasing (handling s) i a \<Longrightarrow> comms (shared s) a \<noteq> None \<Longrightarrow> comms st' a \<noteq> None" for a
    using keeps by simp
  note stop = turn_stops [where C' = C and st' = st', OF inv(2,3) h alive refl exclusive_writing [OF excl] this]
  show "turns_ok C ((handling s)(i := x))" by (rule stop(1))
  show "entries_ok C ((handling s)(i := x)) st'" by (rule stop(2))
qed

text \<open>The events of a step.\<close>

lemma events_upd [simp]:
  "(f :: int \<Rightarrow> io_event list)(i := f i @ [e]) = f \<longleftrightarrow> False" "f = (f :: int \<Rightarrow> io_event list)(i := f i @ [e]) \<longleftrightarrow> False"
  "(f :: int \<Rightarrow> io_event list)(i := f i @ [e]) = f(j := f j @ [e']) \<longleftrightarrow> i = j \<and> e = e'"
proof -
  have "(f(i := f i @ [e])) i \<noteq> f i" by simp
  then show "f(i := f i @ [e]) = f \<longleftrightarrow> False" "f = f(i := f i @ [e]) \<longleftrightarrow> False" by metis+
  show "f(i := f i @ [e]) = f(j := f j @ [e']) \<longleftrightarrow> i = j \<and> e = e'"
  proof
    assume eq: "f(i := f i @ [e]) = f(j := f j @ [e'])"
    then have "(f(i := f i @ [e])) i = (f(j := f j @ [e'])) i" by simp
    then show "i = j \<and> e = e'" by (cases "i = j") auto
  qed simp
qed

lemma events_ops [simp]:
  "events (set_actor i A s) = events s" "events (set_phase i A ph s) = events s"
  "events (log_event i e s) = (events s)(i := events s i @ [e])"
  "shared (set_actor i A s) = shared s" "shared (set_phase i A ph s) = shared s" "shared (log_event i e s) = shared s"
  by (simp_all add: sys_ops)

lemma events_recorded: "events (record_call i c r s) =
    (case sent c r of None \<Rightarrow> events s | Some a \<Rightarrow> (events s)(i := events s i @ [Tx a]))"
  by (rule ext) (auto simp: events_record_call tx_def split: option.splits)

lemma prologues_ok_set:
  "prologues_ok s \<Longrightarrow> \<forall>p. a_phase A = Connecting p \<longrightarrow> pins_nothing p \<Longrightarrow> prologues_ok (set_actor i A s)"
  "prologues_ok s \<Longrightarrow> \<forall>p. ph = Connecting p \<longrightarrow> pins_nothing p \<Longrightarrow> prologues_ok (set_phase i B ph s)"
  "prologues_ok (s\<lparr>shared := st\<rparr>) = prologues_ok s" "prologues_ok (s\<lparr>to_command := ms\<rparr>) = prologues_ok s"
  "prologues_ok (log_event i e s) = prologues_ok s"
  "prologues_ok (record_call i c r s) = prologues_ok s"
  by (auto simp: prologues_ok_def sys_ops record_call_def split: call.splits answer.splits bool.splits)

lemma inside_ok:
  assumes joint: "joint_ok P C s" and reach: "reachable conns s"
    and step: "sys_step_if any_release s s'" and silent: "events s' = events s"
  shows "joint_ok P C s'" "sys_step s s'"
proof -
  note inv = joint_okD [OF joint]
  note change = phase_changes [OF joint, of _ _ "shared s"]
  have "joint_ok P C s' \<and> sys_step s s'"
    using step
  proof cases
    case (start i A)
    with change [of i None] sys_step_with.start [of s i A] inv show ?thesis by (simp add: joint_ok_def prologues_ok_set)
  next
    case (prologue i A c k r st' p)
    have "comms st' a \<noteq> None" if "comms (shared s) a \<noteq> None" for a
      using running_keeps [where c = c and k = k and r = r and p = p and D = "{}" and a = a,
          OF reachable_sys_ok [OF reach] prologue(2)] prologue that by (auto simp: same_node_def)
    then have "turns_ok C ((handling s)(i := None))" "entries_ok C ((handling s)(i := None)) st'"
      using phase_changes [OF joint prologue(4), of None st'] by auto
    moreover have "pins_nothing p"
    proof -
      have "pins_nothing (Do c k)" using inv(4) prologue(2,3) unfolding prologues_ok_def by blast
      then have "pins_nothing (snd (k r (shared s)))" by simp
      then show ?thesis using prologue(8) by simp
    qed
    ultimately show ?thesis
      using prologue(1) sys_step_with.prologue [OF prologue(2-8)] inv by (simp add: joint_ok_def prologues_ok_set)
  next
    case (connected i A a se q)
    with change [of i None] sys_step_with.connected [of s i A] inv show ?thesis by (auto simp add: joint_ok_def prologues_ok_set)
  next
    case (not_connected i A out)
    with change [of i None] sys_step_with.not_connected [of s i A out] inv show ?thesis by (simp add: joint_ok_def prologues_ok_set)
  next
    case (read i A d st' p)
    with silent show ?thesis by simp
  next
    case (read_error i A e)
    with change [of i None] sys_step_with.read_error [of s i A] inv show ?thesis by (simp add: joint_ok_def prologues_ok_set)
  next
    case (resume i A D c k r st' p)
    have "handling s i = Some (D, Do c k)" using resume(2,3) by (simp add: handling_actor)
    then have "drops_allowed s i D" by (rule handling_drops_allowed [OF joint])
    then have "sys_step s s'" unfolding resume(1)
      using resume by (intro sys_step_with.resume [where k = k and c = c and r = r]) simp_all
    moreover have "joint_ok P C s'"
      using turn_resumes [OF joint reach resume(2-4,6,7,10)] inv(1,4) resume(1) by (simp add: joint_ok_def prologues_ok_set)
    ultimately show ?thesis by blast
  next
    case (create i A D n h q k pid st' p st'' p')
    have "handling s i = Some (D, Do (Actor_create n h q) k)" using create(2,3) by (simp add: handling_actor)
    then have "drops_allowed s i D" by (rule handling_drops_allowed [OF joint])
    then have "sys_step s s'" unfolding create(1)
      using create by (intro sys_step_with.create [where k = k and n = n and h = h and q = q]) simp_all
    moreover have "joint_ok P C s'"
    proof -
      have st: "st'' = st'" using create(8) by (auto simp: actor_prologue_def call_int_def)
      have "pid \<noteq> i" "handling s pid = None" using create(2,6) by (auto simp: handling_def)
      then have h: "handling s' = (handling s)(i \<mapsto> (D, p))" by (auto simp: create(1))
      have "pins_nothing p'" using pins_nothing_prologue [of q st'] create(8) by simp
      then have pro: "prologues_ok s'" using inv(4) by (simp add: create(1) prologues_ok_set)
      have "well_typed (Actor_create n h q) (Ret_int pid)" "s4u_ok (Actor_create n h q) (Ret_int pid) (shared s)"
        by (simp_all add: well_typed_def call_shape_def s4u_ok_def)
      from turn_resumes [OF joint reach create(2-4) this create(7)] inv(1) pro show ?thesis
        by (simp add: joint_ok_def h) (simp add: create(1) sys_ops st)
    qed
    ultimately show ?thesis by blast
  next
    case (create_error i A D n h q k x st' p)
    have "handling s i = Some (D, Do (Actor_create n h q) k)" using create_error(2,3) by (simp add: handling_actor)
    then have "drops_allowed s i D" by (rule handling_drops_allowed [OF joint])
    then have "sys_step s s'" unfolding create_error(1)
      using create_error by (intro sys_step_with.create_error [where k = k and n = n and h = h and q = q]) simp_all
    moreover have "well_typed (Actor_create n h q) (Exn x)" "s4u_ok (Actor_create n h q) (Exn x) (shared s)"
      by (simp_all add: well_typed_def call_shape_def s4u_ok_def)
    from turn_resumes [OF joint reach create_error(2-4) this create_error(6)] inv(1,4) have "joint_ok P C s'"
      by (simp add: joint_ok_def create_error(1) prologues_ok_set)
    ultimately show ?thesis by blast
  next
    case (next_turn i A D a se)
    with change [of i None] sys_step_with.next_turn [of s i A] inv show ?thesis by (auto simp add: joint_ok_def prologues_ok_set)
  next
    case (quit i A D a se sk)
    with change [of i None] sys_step_with.quit [of s i A] inv show ?thesis by (auto simp add: joint_ok_def prologues_ok_set)
  next
    case (abort i A D e)
    with change [of i None] sys_step_with.abort [of s i A] inv show ?thesis by (auto simp add: joint_ok_def prologues_ok_set)
  next
    case (crash i A D x)
    with change [of i None] sys_step_with.crash [of s i A] inv show ?thesis by (auto simp add: joint_ok_def prologues_ok_set)
  next
    case (deliver p d b)
    have "sys_step s s'" unfolding deliver(1) by (rule sys_step_with.deliver [OF deliver(2-5)])
    moreover have "entries_ok C (handling s) (shared s')" using inv(3) by (simp add: deliver(1) entries_ok_def)
    ultimately show ?thesis using inv deliver(1) by (simp add: joint_ok_def prologues_ok_set)
  qed
  then show "joint_ok P C s'" "sys_step s s'" by blast+
qed

lemma request_ok:
  assumes joint: "joint_ok P C s" and reach: "reachable conns s"
    and step: "sys_step_if any_release s s'" and ev: "events s' = (events s)(i := events s i @ [Rx d])"
    and send: "client_sends P C i (type_case d) C'"
  shows "joint_ok P C' s'" "sys_step s s'"
proof -
  note inv = joint_okD [OF joint] and sent = client_sends_ok [OF send joint_okD(1) [OF joint]]
  have "joint_ok P C' s' \<and> sys_step s s'"
    using step
  proof cases
    case (read j A d' st' p)
    with ev have eq: "j = i" "d' = d" by auto
    let ?t = "type_case d" and ?h = "handling s"
    have "sys_step s s'"
      unfolding read(1) eq using read sending_drops_allowed [OF joint send] by (intro sys_step_with.read) (simp_all add: eq)
    moreover have "joint_ok P C' s'"
    proof -
      have ok: "server_ok (shared s)" using reachable_sys_ok [OF reach] by (simp add: sys_ok_def)
      have none: "?h i = None" using read(2,3) eq by (simp add: handling_actor)
      obtain f where f: "calling C' = (calling C)(i \<mapsto> (?t, f))" using sent(2) by blast
      have turn: "stretch ?t (shared s) st' p" "turn_ok p ?t"
        using turn_actor_turn [of d] ok read(6) unfolding turn_code_def eq by (metis fst_conv snd_conv)+
      have "server_ok (shared s)" "preserves (drops ?t) None (shared s) (shared s)" using ok by simp_all
      from safe_actor_turn [OF this] read(6) have "preserves (drops ?t) None (shared s) st'" by (simp add: safe_code_def eq)
      then have keeps: "a \<notin> drops ?t \<Longrightarrow> comms (shared s) a \<noteq> None \<Longrightarrow> comms st' a \<noteq> None" for a
        unfolding preserves_def same_node_def by (metis option.exhaust option.distinct(1))
      have drop: "a \<in> drops ?t \<Longrightarrow> \<not> alive C' a" "a \<in> drops ?t \<Longrightarrow> releasing ?h j a \<Longrightarrow> j = i"
        "a \<in> drops ?t \<Longrightarrow> p = Do c k \<Longrightarrow> comms (shared s) a \<noteq> None" for a j c k
        using sent(5) [of a] entries_okD(1,5) [OF inv(3)] by blast+
      have alive: "alive C' a \<Longrightarrow> alive C a" for a using sent(4) unfolding alive_def by blast
      have alone: "j \<noteq> i \<Longrightarrow> \<not> writing ?h j" for j using exclusive_writing read(4) eq by blast
      note adv = turn_advances [OF inv(2,3) alive f turn alone keeps drop]
      have "turns_ok C' (?h(i \<mapsto> (drops ?t, p)))" by (rule adv(1))
      moreover have "entries_ok C' (?h(i \<mapsto> (drops ?t, p))) st'" by (rule adv(2))
      ultimately show ?thesis using sent(3) inv(4) by (simp add: joint_ok_def read(1) eq prologues_ok_set)
    qed
    ultimately show ?thesis by blast
  qed (use ev in \<open>simp_all add: events_recorded split: option.splits\<close>)
  then show "joint_ok P C' s'" "sys_step s s'" by blast+
qed

lemma answer_ok:
  assumes joint: "joint_ok P C s" and reach: "reachable conns s"
    and step: "sys_step_if any_release s s'" and ev: "events s' = (events s)(i := events s i @ [Tx a])"
  shows "joint_ok P (client_receives P i a C) s'" "sys_step s s'"
proof -
  note inv = joint_okD [OF joint]
  let ?C = "client_receives P i a C"
  have "joint_ok P ?C s' \<and> sys_step s s'"
    using step
  proof cases
    case (resume j A D c k r st' p)
    have "sent c r = Some a \<and> j = i" using ev resume(1) by (auto simp: events_recorded split: option.splits)
    then have c: "c = Socket_write a" "r = Ret_unit" and eq: "j = i"
      by (auto simp: sent_def split: call.splits if_splits)
    let ?h = "handling s"
    have h: "?h i = Some (D, Do (Socket_write a) k)" using resume(2,3) c eq by (simp add: handling_actor)
    have allowed: "drops_allowed s i D" by (rule handling_drops_allowed [OF joint h])
    have "sys_step s s'"
      unfolding resume(1) eq using resume allowed by (intro sys_step_with.resume [where k = k and c = c and r = r]) (simp_all add: eq)
    moreover have "joint_ok P ?C s'"
    proof -
      obtain t f where t: "calling C i = Some (t, f)" "turn_for t D (Do (Socket_write a) k)"
        using inv(2) h unfolding turns_ok_def by blast
      have tell: "new_comm a = Some b \<longleftrightarrow> telling ?h i b" for b using h by (simp add: telling_def)
      have con: "conforms (fst (t, f)) a" using t(2) by (simp add: turn_for_def)
      have "new_comm a = Some b \<Longrightarrow> \<not> alive C b" for b using tell entries_okD(3) [OF inv(3)] by blast
      note rec = client_receives_ok [OF inv(1) t(1) con this]
      have rel: "releasing ?h i b \<longleftrightarrow> b \<in> D" for b using h by (simp add: releasing_def)
      have sys: "sys_ok s" using reach by (rule reachable_sys_ok)
      have keeps: "\<not> releasing ?h i b \<Longrightarrow> comms (shared s) b \<noteq> None \<Longrightarrow> comms st' b \<noteq> None" for b
        using running_keeps [where c = c and k = k and r = r and p = p and D = D and a = b, OF sys resume(2) _ resume(6,7,10)]
          resume(3) rel by (auto simp: same_node_def)
      obtain out where out: "p = Done out"
        using write_ends [OF reachable_dialogues_ok [OF reach] resume(2), of D a k r "shared s"] resume(3,10) c by auto
      have over: "Some (D, p) = None \<or> (\<exists>D' out. Some (D, p) = Some (D', Done out))" using out by blast
      have alive: "alive ?C b \<Longrightarrow> alive C b \<or> telling ?h i b" for b
        using rec(3) tell unfolding alive_def by blast
      have call: "j \<noteq> i \<Longrightarrow> calling ?C j = calling C j" for j using rec(2) by simp
      have alone: "j \<noteq> i \<Longrightarrow> \<not> writing ?h j" for j using exclusive_writing resume(4) eq by blast
      note stop = turn_stops [OF inv(2,3) over alive call alone keeps]
      have "turns_ok ?C (?h(i \<mapsto> (D, p)))" by (rule stop(1))
      moreover have "entries_ok ?C (?h(i \<mapsto> (D, p))) st'" by (rule stop(2))
      moreover have "heaps_ok P ?C" by (rule rec(1))
      ultimately show ?thesis using inv(4) by (simp add: joint_ok_def resume(1) eq prologues_ok_set)
    qed
    ultimately show ?thesis by blast
  qed (use ev in simp_all)
  then show "joint_ok P ?C s'" "sys_step s s'" by blast+
qed

lemma clients_step_ok:
  assumes "clients_step P False C s C' s'" "joint_ok P C s" "reachable conns s"
  shows "joint_ok P C' s' \<and> reachable conns s'"
  using assms(1)
proof cases
  case inside
  with inside_ok [OF assms(2,3)] assms(3) show ?thesis by (blast intro: reach_step)
next
  case (request i d)
  with request_ok [OF assms(2,3)] assms(3) show ?thesis by (blast intro: reach_step)
next
  case (answer i a)
  with answer_ok [OF assms(2,3)] assms(3) show ?thesis by (blast intro: reach_step)
next
  case alone
  note step = client_step_ok [OF alone(2) joint_okD(1) [OF assms(2)]]
  have alive: "alive C' a \<Longrightarrow> alive C a" for a using step(2) unfolding alive_def by blast
  have "turns_ok C' (handling s)" using joint_okD(2) [OF assms(2)] step(3) by (simp add: turns_ok_def)
  moreover have "entries_ok C' (handling s) (shared s)"
    using joint_okD(3) [OF assms(2)] alive unfolding entries_ok_def by blast
  ultimately show ?thesis using step(1) joint_okD(4) [OF assms(2)] assms(3) alone(1) by (simp add: joint_ok_def)
next
  case (connection_lost i A)
  have "handling s i = None" using connection_lost(3,4) by (auto simp: handling_actor)
  then have "turns_ok C' (handling s)"
    using joint_okD(2) [OF assms(2)] connection_lost(1) by (auto simp: turns_ok_def)
  moreover have "heaps_ok P C'" using joint_okD(1) [OF assms(2)] connection_lost(1) by (auto simp: heaps_ok_def)
  ultimately show ?thesis
    using joint_okD(3,4) [OF assms(2)] assms(3) connection_lost(1,2) by (simp add: joint_ok_def entries_ok_def)
qed simp

lemma joint_ok_init: "joint_ok P no_clients (init_sys conns)"
proof -
  have h: "handling (init_sys conns) = (\<lambda>i. None)" by (auto simp: handling_def init_sys_def fun_eq_iff split: option.splits)
  have own: "\<not> owns no_clients p n a" for p n a by (simp add: owns_def no_clients_def empty_heap_def)
  have "heaps_ok P no_clients"
    using own by (auto simp: heaps_ok_def no_clients_def process_ok_def empty_heap_def pointers_to_def)
  moreover have "prologues_ok (init_sys conns)" by (auto simp: prologues_ok_def init_sys_def)
  ultimately show ?thesis
    using own by (auto simp: joint_ok_def h turns_ok_def entries_ok_def telling_def releasing_def alive_def)
qed

lemma clients_reach_ok: "clients_reach conns P False C s \<Longrightarrow> joint_ok P C s \<and> reachable conns s"
proof (induction rule: clients_reach.induct)
  case clients_init
  show ?case using joint_ok_init reach_init by blast
qed (use clients_step_ok in blast)


text \<open>C22: as long as no process forks, every communication that a client still has a pointer to has its
  entry on the server, with exactly one reference on the simulator's object, and it is the only
  object of all clients for that entry.\<close>

theorem client_objects_have_entries:
  assumes "clients_reach conns P False C s"
    and "object (heap (processes C p)) n = Some (Client_comm c)"
  shows "comm_count (shared s) (remote_address c) = Some 1 \<and> refs (shared s) (Comm_object (remote_address c)) = 1 \<and>
    (\<forall>q m c'. object (heap (processes C q)) m = Some (Client_comm c') \<and> remote_address c' = remote_address c \<longrightarrow>
       q = p \<and> m = n)"
proof -
  have joint: "joint_ok P C s" and reach: "reachable conns s" using clients_reach_ok [OF assms(1)] by simp_all
  have own: "owns C p n (remote_address c)" using assms(2) by (auto simp: owns_def)
  then have "comms (shared s) (remote_address c) \<noteq> None"
    using entries_okD(1) [OF joint_okD(3) [OF joint]] unfolding alive_def by blast
  moreover have "comm_table.balanced (shared s)"
    using reachable_sys_ok [OF reach] by (simp add: sys_ok_def server_ok_def tables_ok_def)
  ultimately have "comm_count (shared s) (remote_address c) = Some 1" "refs (shared s) (Comm_object (remote_address c)) = 1"
    using comm_table.balancedD [of "shared s" "remote_address c"] by auto
  moreover have "q = p \<and> m = n"
    if "object (heap (processes C q)) m = Some (Client_comm c') \<and> remote_address c' = remote_address c" for q m c'
    using heaps_okD(2) [OF joint_okD(1) [OF joint] own, of q m] that by (auto simp: owns_def)
  ultimately show ?thesis by blast
qed

section \<open>Running an exchange\<close>

text \<open>
  The rest of a turn with given answers of the simulator: the acknowledgment and the store at its end,
  if the turn writes one and goes on to the next decision.
\<close>

definition is_create :: "call \<Rightarrow> bool" where
  "is_create c \<longleftrightarrow> (\<exists>n h q. c = Actor_create n h q)"

definition admissible :: "call \<Rightarrow> answer \<Rightarrow> server \<Rightarrow> bool" where
  "admissible c r st \<longleftrightarrow> well_typed c r \<and> s4u_ok c r st \<and> \<not> is_create c"

definition goes_on :: "prog \<Rightarrow> bool" where
  "goes_on p \<longleftrightarrow> (\<exists>a se. p = Done (Handled a se False))"

lemma goes_on_handled [simp]: "goes_on (Done (Handled a se q)) \<longleftrightarrow> \<not> q"
  by (simp add: goes_on_def)

primrec turn_run :: "prog \<Rightarrow> answer list \<Rightarrow> server \<Rightarrow> (decision_ack \<times> server) option" where
  "turn_run (Done out) = (\<lambda>rs st. None)"
| "turn_run (Do c k) = (\<lambda>rs st. case rs of
      [] \<Rightarrow> None
    | r # rs' \<Rightarrow> if \<not> admissible c r st then None
        else (case c of
            Socket_write ack \<Rightarrow> if r = Ret_unit \<and> goes_on (snd (k r st)) then Some (ack, fst (k r st)) else None
          | _ \<Rightarrow> snd (map_prod id turn_run (k r st)) rs' (fst (k r st))))"

lemma turn_run_write: "turn_run (Do (Socket_write ack) k) (r # rs) st =
    (if admissible (Socket_write ack) r st \<and> r = Ret_unit \<and> goes_on (snd (k r st)) then Some (ack, fst (k r st)) else None)"
  by (cases "r = Ret_unit") simp_all

lemma turn_run_call: "\<not> is_write c \<Longrightarrow> turn_run (Do c k) (r # rs) st =
    (if admissible c r st then turn_run (snd (k r st)) rs (fst (k r st)) else None)"
  by (cases c) (simp_all add: is_write_def)

lemma turn_run_nil: "turn_run (Do c k) [] st = None"
  by simp

declare turn_run.simps(2) [simp del]

lemma reach_inside:
  "clients_reach conns P forks C s \<Longrightarrow> sys_step_if any_release s s' \<Longrightarrow> events s' = events s \<Longrightarrow> clients_reach conns P forks C s'"
  by (blast intro: clients_next clients_step.inside)

lemma exclusive_same: "exclusive s i \<Longrightarrow> actors s' = (actors s)(i \<mapsto> A) \<Longrightarrow> exclusive s' i"
  by (simp add: exclusive_def)

lemma run_call:
  assumes "clients_reach conns P forks C s" "actors s i = Some A" "a_phase A = Handling D (Do c k)" "exclusive s i"
    and "admissible c r (shared s)" "\<not> is_write c" "k r (shared s) = (st', p)"
  shows "\<exists>s'. clients_reach conns P forks C s' \<and> shared s' = st' \<and> actors s' = (actors s)(i \<mapsto> A\<lparr>a_phase := Handling D p\<rparr>)"
proof -
  let ?s = "set_phase i A (Handling D p) (record_call i c r (s\<lparr>shared := st'\<rparr>))"
  have step: "sys_step_if any_release s ?s"
    using assms(2-5,7) unfolding admissible_def is_create_def
    by (intro sys_step_with.resume [where c = c and r = r and k = k]) simp_all
  have "actors (record_call i c r (s\<lparr>shared := st'\<rparr>)) = actors s"
    by (cases c; cases r; simp add: record_call_def log_event_def split: bool.splits)
  then have s': "actors ?s = (actors s)(i \<mapsto> A\<lparr>a_phase := Handling D p\<rparr>)" "shared ?s = st'" by (simp_all add: sys_ops)
  from assms(6) have "sent c r = None" by (cases c) (simp_all add: is_write_def sent_def)
  then have "events ?s = events s" by (simp add: events_recorded)
  from reach_inside [OF assms(1) step this] s' show ?thesis by blast
qed

text \<open>The turn up to the writing of its acknowledgment.\<close>

definition about_to_write :: "int \<Rightarrow> actor \<Rightarrow> decision_ack \<Rightarrow> server \<Rightarrow> sys \<Rightarrow> sys \<Rightarrow> bool" where
  "about_to_write i A ack st' s s1 \<longleftrightarrow> (\<exists>D k. actors s1 = (actors s)(i \<mapsto> A\<lparr>a_phase := Handling D (Do (Socket_write ack) k)\<rparr>) \<and>
     goes_on (snd (k Ret_unit (shared s1))) \<and> fst (k Ret_unit (shared s1)) = st')"

lemma run_calls:
  assumes "turn_run p rs (shared s) = Some (ack, st')" "clients_reach conns P forks C s"
    "actors s i = Some A" "a_phase A = Handling D p" "exclusive s i"
  shows "\<exists>s1. clients_reach conns P forks C s1 \<and> about_to_write i A ack st' s s1"
  using assms
proof (induction p arbitrary: rs s A)
  case (Done out)
  then show ?case by simp
next
  case (Do c k)
  obtain r rs' where rs: "rs = r # rs'" using Do.prems(1) turn_run_nil by (cases rs) auto
  show ?case
  proof (cases "is_write c")
    case True
    then obtain a where c: "c = Socket_write a" by (auto simp: is_write_def)
    with Do.prems(1) rs have "a = ack" "goes_on (snd (k Ret_unit (shared s)))" "fst (k Ret_unit (shared s)) = st'"
      by (auto simp: turn_run_write split: if_splits)
    moreover have "actors s = (actors s)(i \<mapsto> A\<lparr>a_phase := Handling D (Do (Socket_write a) k)\<rparr>)"
      using Do.prems(3,4) c by (metis (full_types) actor.surjective actor.update_convs(2) actor.select_convs(2) fun_upd_triv)
    ultimately show ?thesis using Do.prems(2) unfolding about_to_write_def by blast
  next
    case False
    obtain st1 p1 where k: "k r (shared s) = (st1, p1)" by (cases "k r (shared s)")
    let ?A = "A\<lparr>a_phase := Handling D p1\<rparr>"
    have adm: "admissible c r (shared s)" and run: "turn_run p1 rs' st1 = Some (ack, st')"
      using Do.prems(1) k False unfolding rs by (auto simp: turn_run_call split: if_splits)
    obtain s1 where s1: "clients_reach conns P forks C s1" "shared s1 = st1" "actors s1 = (actors s)(i \<mapsto> ?A)"
      using run_call [OF Do.prems(2-5) adm False k] by blast
    have excl: "exclusive s1 i" using Do.prems(5) s1(3) by (rule exclusive_same)
    have "p1 \<in> Basic_BNFs.snds (k r (shared s))" by (simp add: k)
    moreover have "actors s1 i = Some ?A" "a_phase ?A = Handling D p1" "turn_run p1 rs' (shared s1) = Some (ack, st')"
      using s1 run by simp_all
    ultimately obtain s2 where "clients_reach conns P forks C s2" "about_to_write i ?A ack st' s1 s2"
      using Do.IH [OF rangeI rangeI _ _ s1(1) _ _ excl] by blast
    moreover have "about_to_write i A ack st' s s2"
      using calculation(2) s1(3) by (auto simp: about_to_write_def)
    ultimately show ?thesis by blast
  qed
qed

text \<open>The writing itself.\<close>

lemma run_write:
  assumes "about_to_write i A ack st' s s1" "exclusive s i"
  shows "\<exists>s2 s3. sys_step_if any_release s1 s2 \<and> events s2 = (events s1)(i := events s1 i @ [Tx ack]) \<and>
    sys_step_if any_release s2 s3 \<and> events s3 = events s2 \<and> shared s3 = st' \<and> actors s3 = (actors s)(i \<mapsto> A\<lparr>a_phase := Reading\<rparr>)"
proof -
  obtain D k where s1: "actors s1 = (actors s)(i \<mapsto> A\<lparr>a_phase := Handling D (Do (Socket_write ack) k)\<rparr>)"
    and k: "goes_on (snd (k Ret_unit (shared s1)))" "fst (k Ret_unit (shared s1)) = st'"
    using assms(1) unfolding about_to_write_def by blast
  then obtain a se where p: "k Ret_unit (shared s1) = (st', Done (Handled a se False))"
    by (cases "k Ret_unit (shared s1)") (auto simp: goes_on_def)
  let ?A = "A\<lparr>a_phase := Handling D (Do (Socket_write ack) k)\<rparr>" and ?ph = "Handling D (Done (Handled a se False))"
  let ?s2 = "set_phase i ?A ?ph (record_call i (Socket_write ack) Ret_unit (s1\<lparr>shared := st'\<rparr>))"
  let ?B = "?A\<lparr>a_phase := ?ph\<rparr>"
  let ?s3 = "set_phase i ?B Reading ?s2"
  have excl: "exclusive s1 i" using assms(2) s1 by (rule exclusive_same)
  have step: "sys_step_if any_release s1 ?s2"
    using s1 excl p by (intro sys_step_with.resume [where c = "Socket_write ack" and r = Ret_unit and k = k])
      (simp_all add: well_typed_def call_shape_def s4u_ok_def)
  have s2: "actors ?s2 = (actors s)(i \<mapsto> ?B)" using s1 by (simp add: sys_ops record_call_def)
  have "exclusive ?s2 i" using assms(2) s2 by (rule exclusive_same)
  with s2 have "sys_step_if any_release ?s2 ?s3"
    by (intro sys_step_with.next_turn [where a = a and se = se and D = D]) simp_all
  moreover have "shared ?s3 = st'" "actors ?s3 = (actors s)(i \<mapsto> A\<lparr>a_phase := Reading\<rparr>)" "events ?s3 = events ?s2"
    using s2 by (simp_all add: sys_ops record_call_def)
  moreover have "events ?s2 = (events s1)(i := events s1 i @ [Tx ack])" by (simp add: events_recorded sent_def)
  ultimately show ?thesis using step by blast
qed

lemma run_turn:
  assumes "turn_run p rs (shared s) = Some (ack, st')" "clients_reach conns P forks C s"
    "actors s i = Some A" "a_phase A = Handling D p" "exclusive s i"
  shows "\<exists>s'. clients_reach conns P forks (client_receives P i ack C) s' \<and> shared s' = st' \<and>
    actors s' = (actors s)(i \<mapsto> A\<lparr>a_phase := Reading\<rparr>)"
proof -
  obtain s1 where s1: "clients_reach conns P forks C s1" "about_to_write i A ack st' s s1"
    using run_calls [OF assms] by blast
  from run_write [OF this(2) assms(5)] obtain s2 s3 where
    s2: "sys_step_if any_release s1 s2" "events s2 = (events s1)(i := events s1 i @ [Tx ack])" and
    s3: "sys_step_if any_release s2 s3" "events s3 = events s2" "shared s3 = st'"
      "actors s3 = (actors s)(i \<mapsto> A\<lparr>a_phase := Reading\<rparr>)" by blast
  from clients_next [OF s1(1) clients_step.answer [OF s2]] reach_inside [OF _ s3(1,2)] s3(3,4) show ?thesis by blast
qed

lemma run_request:
  assumes "clients_reach conns P forks C s" "actors s i = Some A" "a_phase A = Reading" "exclusive s i"
    and "client_sends P C i t C'" "actor_turn (no_think t) (shared s) = (st1, p)"
    and allowed: "drops t = D"
  shows "\<exists>s'. clients_reach conns P forks C' s' \<and> shared s' = st1 \<and>
    actors s' = (actors s)(i \<mapsto> A\<lparr>a_phase := Handling D p\<rparr>)"
proof -
  let ?s = "set_phase i A (Handling (drops (type_case (no_think t))) p) (log_event i (Rx (no_think t)) (s\<lparr>shared := st1\<rparr>))"
  have "sys_step_if any_release s ?s" using assms by (intro sys_step_with.read) simp_all
  moreover have "events ?s = (events s)(i := events s i @ [Rx (no_think t)])" by simp
  moreover have "client_sends P C i (type_case (no_think t)) C'" using assms(5) by (simp add: no_think_def)
  ultimately have "clients_reach conns P forks C' ?s"
    using clients_next [OF assms(1)] clients_step.request by blast
  moreover have "shared ?s = st1" "actors ?s = (actors s)(i \<mapsto> A\<lparr>a_phase := Handling D p\<rparr>)"
    using allowed by (simp_all add: sys_ops no_think_def)
  ultimately show ?thesis by blast
qed

lemma run_exchange:
  assumes "clients_reach conns P forks C s" "actors s i = Some A" "a_phase A = Reading" "exclusive s i"
    and "client_sends P C i t C'" "actor_turn (no_think t) (shared s) = (st1, p)" "turn_run p rs st1 = Some (ack, st')"
  shows "\<exists>s'. clients_reach conns P forks (client_receives P i ack C') s' \<and> shared s' = st' \<and> actors s' = actors s"
proof -
  let ?B = "A\<lparr>a_phase := Handling (drops t) p\<rparr>"
  obtain s1 where s1: "clients_reach conns P forks C' s1" "shared s1 = st1" "actors s1 = (actors s)(i \<mapsto> ?B)"
    using run_request [OF assms(1-6) refl] by blast
  have "turn_run p rs (shared s1) = Some (ack, st')" "actors s1 i = Some ?B" "a_phase ?B = Handling (drops t) p"
    using s1 assms(7) by simp_all
  from run_turn [OF this(1) s1(1) this(2,3) exclusive_same [OF assms(4) s1(3)]]
  obtain s' where s': "clients_reach conns P forks (client_receives P i ack C') s'" "shared s' = st'"
    "actors s' = (actors s1)(i \<mapsto> ?B\<lparr>a_phase := Reading\<rparr>)" by blast
  have "?B\<lparr>a_phase := Reading\<rparr> = A" using assms(3) by simp
  then have "actors s' = actors s" using s'(3) s1(3) assms(2) by (auto simp: fun_upd_idem)
  with s' show ?thesis by blast
qed

section \<open>A first client\<close>

text \<open>A client with a mailbox and a reception that it has started.\<close>

definition first_heap :: client_heap where
  "first_heap = \<lparr>object = [0 \<mapsto> Client_mailbox \<lparr>mailbox_name = ''m''\<rparr>,
       1 \<mapsto> Client_comm \<lparr>remote_address = 5, has_destination = True\<rparr>],
     use_count = (\<lambda>_. 0)(0 := 1, 1 := 1), next_object = Suc 1\<rparr>"

definition first_clients :: clients where
  "first_clients = set_process 2 first_heap {#(2, 1), (2, 0)#} no_clients"

definition first_server :: server where
  "first_server = comm_register (Some 0) 5 (snd (new_cell empty_server))"

lemma first_client:
  "\<exists>s. clients_reach [(2, 9)] nat forks first_clients s \<and> shared s = first_server \<and>
     actors s = [2 \<mapsto> \<lparr>a_socket = Some 9, a_phase = Reading\<rparr>]"
proof -
  let ?A = "\<lparr>a_socket = Some 9, a_phase = Starting\<rparr>" and ?B = "\<lparr>a_socket = Some 9, a_phase = Reading\<rparr>"
  let ?m = "Client_mailbox (mailbox_by_name ''m'')"
  let ?s = "set_phase 2 ?A Reading (init_sys [(2, 9)])"
  define H1 where "H1 = \<lparr>object = [0 \<mapsto> ?m], use_count = (\<lambda>_. 0)(0 := 1), next_object = 1\<rparr>"
  then have H1: "make_shared ?m empty_heap = (0, H1)" "object H1 = [0 \<mapsto> ?m]" "next_object H1 = 1"
    "use_count H1 = (\<lambda>_. 0)(0 := 1)" by (simp_all add: make_shared_def empty_heap_def)
  let ?C1 = "set_process (nat 2) H1 (add_mset (2, 0) {#}) no_clients"
  have init: "actors (init_sys [(2, 9)]) = [2 \<mapsto> ?A]" "shared (init_sys [(2, 9)]) = empty_server"
    by (auto simp: init_sys_def)
  have alone: "exclusive s' 2" if "actors s' = [2 \<mapsto> A]" for s' A
    using that by (auto simp: exclusive_def)
  have "sys_step_if any_release (init_sys [(2, 9)]) ?s"
    using init alone by (intro sys_step_with.start) simp_all
  from reach_inside [OF clients_init this] have "clients_reach [(2, 9)] nat forks no_clients ?s" by simp
  moreover have "client_step nat no_clients ?C1"
    using H1(1) by (intro client_step.make [where x = ?m and H = empty_heap]) (simp_all add: no_clients_def)
  ultimately have reach: "clients_reach [(2, 9)] nat forks ?C1 ?s"
    by (blast intro: clients_next clients_step.alone)
  have s: "actors ?s = [2 \<mapsto> ?B]" "shared ?s = empty_server" using init by (simp_all add: sys_ops)
  let ?call = "new_object a_comm (mailbox_get_async ''m'' True)"
  have call: "library_call {Client_mailbox \<lparr>mailbox_name = ''m''\<rparr>} ?call"
    using library_call.intros(23) [of "\<lparr>mailbox_name = ''m''\<rparr>" True] by simp
  have send: "client_sends nat ?C1 2 (KMailboxGetAsync ''m'') (?C1\<lparr>calling := [2 \<mapsto> ?call]\<rparr>)"
    using client_sends.call [of ?C1 2 nat H1 "{#(2, 0)#}" "{Client_mailbox \<lparr>mailbox_name = ''m''\<rparr>}" "fst ?call" "snd ?call"]
      call H1(2) by (simp add: no_clients_def mailbox_by_name_def) (simp add: new_object_def mailbox_get_async_def)
  obtain st1 p where turn: "actor_turn (no_think (KMailboxGetAsync ''m'')) (shared ?s) = (st1, p)"
    "turn_run p [Ret_addr 5, Ret_unit] st1 = Some (ack_ok\<lparr>ack_data := A_mailboxGetAsync 5\<rparr>, first_server)"
    unfolding s(2)
    by (simp add: turn_defs turn_run_call turn_run_write is_write_def admissible_def well_typed_def call_shape_def s4u_ok_def
        is_create_def first_server_def empty_server_def)
  have "actors ?s 2 = Some ?B" "a_phase ?B = Reading" using s(1) by simp_all
  from run_exchange [OF reach this alone [OF s(1)] send turn] s(1)
  obtain s' where s': "clients_reach [(2, 9)] nat forks
      (client_receives nat 2 (ack_ok\<lparr>ack_data := A_mailboxGetAsync 5\<rparr>) (?C1\<lparr>calling := [2 \<mapsto> ?call]\<rparr>)) s'"
    "shared s' = first_server" "actors s' = [2 \<mapsto> ?B]" by auto
  have "client_receives nat 2 (ack_ok\<lparr>ack_data := A_mailboxGetAsync 5\<rparr>) (?C1\<lparr>calling := [2 \<mapsto> ?call]\<rparr>) = first_clients"
    by (simp add: H1_def client_receives_def new_object_def mailbox_get_async_def enforce_success_def ack_ok_def
        get_mailboxGetAsync_def make_shared_def first_clients_def first_heap_def set_process_def no_clients_def
        mailbox_by_name_def)
  with s' show ?thesis by auto
qed

lemma first_release:
  "\<exists>C s k. clients_reach [(2, 9)] nat forks C s \<and> comms (shared s) 5 = None \<and>
     actors s = [2 \<mapsto> \<lparr>a_socket = Some 9, a_phase = Handling {5} (Do (Socket_write ack_ok) k)\<rparr>]"
proof -
  let ?A = "\<lparr>a_socket = Some 9, a_phase = Reading\<rparr>"
  obtain s where s: "clients_reach [(2, 9)] nat forks first_clients s" "shared s = first_server" "actors s = [2 \<mapsto> ?A]"
    using first_client by blast
  have p: "processes first_clients (nat 2) = \<lparr>heap = first_heap, pointers = {#(2, 1), (2, 0)#}\<rparr>"
    "calling first_clients 2 = None" by (simp_all add: first_clients_def no_clients_def)
  obtain H where H: "drop_shared 1 first_heap = (Some (Client_comm \<lparr>remote_address = 5, has_destination = True\<rparr>), H)"
    by (simp add: drop_shared_def first_heap_def Let_def)
  have "destructor (Client_comm \<lparr>remote_address = 5, has_destination = True\<rparr>) = Some (KCommRefcountDecrease 5)"
    by (simp add: destructor_def comm_destructor_def)
  from client_sends.destroy [where P = nat and i = 2, OF p(2,1) _ H this]
  obtain C where C: "client_sends nat first_clients 2 (KCommRefcountDecrease 5) C" by auto
  obtain st1 k where turn: "actor_turn (no_think (KCommRefcountDecrease 5)) (shared s) = (st1, Do (Socket_write ack_ok) k)"
    "comms st1 5 = None"
    unfolding s(2)
    by (simp add: turn_defs split_beta first_server_def comm_register_def add_ref_def empty_server_def
        comm_refcount_decrease_def release_def ack_ok_def)
  have "exclusive s 2" "actors s 2 = Some ?A" "a_phase ?A = Reading" "drops (KCommRefcountDecrease 5) = {5}"
    using s(3) by (auto simp: exclusive_def drops_def)
  from run_request [OF s(1) this(2,3,1) C turn(1) this(4)] turn(2) s(3) show ?thesis by auto
qed


theorem client_objects_have_entries_witness:
  "comm_count first_server 5 = Some 1 \<and> refs first_server (Comm_object 5) = 1"
proof -
  obtain s where s: "clients_reach [(2, 9)] nat False first_clients s" "shared s = first_server"
    using first_client by blast
  have "object (heap (processes first_clients 2)) 1 = Some (Client_comm \<lparr>remote_address = 5, has_destination = True\<rparr>)"
    by (simp add: first_clients_def first_heap_def)
  from client_objects_have_entries [OF s(1) this] s(2) show ?thesis by simp
qed

end
