(* ===== verification/Client_Fork.thy ===== *)
theory Client_Fork
  imports Client_Handles
begin

text \<open>
  \<^verbatim>\<open>Actor::fork\<close> duplicates the objects of the process, and with them the shared pointers, but the
  server counts one handle. The theory runs a client that forks while it has a communication: the
  child's exit releases the handle on which the parent waits, and the server dereferences an
  iterator to the erased entry.
\<close>

section \<open>The child's connection\<close>

lemma run_prologue:
  assumes "clients_reach conns P forks C s" "actors s i = Some A" "a_phase A = Connecting (Do c k)" "exclusive s i"
    and "well_typed c r" "s4u_ok c r (shared s)" "k r (shared s) = (st', p)"
  shows "\<exists>s'. clients_reach conns P forks C s' \<and> shared s' = st' \<and>
    actors s' = (actors s)(i \<mapsto> A\<lparr>a_socket := next_socket r (a_socket A), a_phase := Connecting p\<rparr>)"
proof -
  let ?s = "set_phase i (A\<lparr>a_socket := next_socket r (a_socket A)\<rparr>) (Connecting p) (s\<lparr>shared := st'\<rparr>)"
  have "sys_step_if any_release s ?s" by (rule sys_step_with.prologue [where answered = "\<lambda>c r. True", OF assms(2-6) TrueI assms(7)])
  from reach_inside [OF assms(1) this] have "clients_reach conns P forks C ?s" by simp
  moreover have "shared ?s = st'"
    "actors ?s = (actors s)(i \<mapsto> A\<lparr>a_socket := next_socket r (a_socket A), a_phase := Connecting p\<rparr>)"
    by (simp_all add: sys_ops)
  ultimately show ?thesis by blast
qed

lemma run_fork:
  assumes "turn_run p rs (shared s) = Some (ack, st')" "clients_reach conns P True C s"
    "actors s i = Some A" "a_phase A = Handling D p" "exclusive s i"
    and "calling C i = Some (KActorCreate n h, f)" "success ack" "c = get_actorCreate (ack_data ack)"
    and "processes C (P c) = \<lparr>heap = empty_heap, pointers = {#}\<rparr>"
  shows "\<exists>s'. clients_reach conns P True (client_forks P i c (C\<lparr>calling := (calling C)(i := None)\<rparr>)) s' \<and>
    shared s' = st' \<and> actors s' = (actors s)(i \<mapsto> A\<lparr>a_phase := Reading\<rparr>)"
proof -
  obtain s1 where s1: "clients_reach conns P True C s1" "about_to_write i A ack st' s s1"
    using run_calls [OF assms(1-5)] by blast
  from run_write [OF this(2) assms(5)] obtain s2 s3 where
    s2: "sys_step_if any_release s1 s2" "events s2 = (events s1)(i := events s1 i @ [Tx ack])" and
    s3: "sys_step_if any_release s2 s3" "events s3 = events s2" "shared s3 = st'"
      "actors s3 = (actors s)(i \<mapsto> A\<lparr>a_phase := Reading\<rparr>)" by blast
  from clients_next [OF s1(1) clients_step.fork [where P = P, OF TrueI s2 assms(6-9)]] reach_inside [OF _ s3(1,2)] s3(3,4)
  show ?thesis by blast
qed

section \<open>The run\<close>

definition second_clients :: clients where
  "second_clients = set_process 2 (snd (make_shared (Client_host \<lparr>host_name = ''h''\<rparr>) first_heap))
     {#(2, Suc 1), (2, 1), (2, 0)#} no_clients"

definition reading :: actor where
  "reading = \<lparr>a_socket = Some 9, a_phase = Reading\<rparr>"

lemmas evaluate = turn_run_call turn_run_write is_write_def admissible_def well_typed_def call_shape_def s4u_ok_def
  is_create_def

text \<open>The client asks for its host.\<close>

lemma second_client:
  "\<exists>s. clients_reach [(2, 9)] nat forks second_clients s \<and> shared s = first_server \<and> actors s = [2 \<mapsto> reading]"
proof -
  obtain s where s: "clients_reach [(2, 9)] nat forks first_clients s" "shared s = first_server" "actors s = [2 \<mapsto> reading]"
    unfolding reading_def using first_client by blast
  let ?call = "new_object a_host host_current"
  have p: "calling first_clients 2 = None" "processes first_clients (nat 2) = \<lparr>heap = first_heap, pointers = {#(2, 1), (2, 0)#}\<rparr>"
    by (simp_all add: first_clients_def no_clients_def)
  have "library_call {} (fst ?call, snd ?call)" using library_call.intros(16) by simp
  from client_sends.call [where P = nat and i = 2, OF p this]
  have send: "client_sends nat first_clients 2 (KHostCurrent True) (first_clients\<lparr>calling := [2 \<mapsto> ?call]\<rparr>)"
    using p(1) by (simp add: new_object_def host_current_def) (simp add: first_clients_def no_clients_def)
  have turn: "\<exists>st1 q. actor_turn (no_think (KHostCurrent True)) (shared s) = (st1, q) \<and>
      turn_run q [Ret_string ''h'', Ret_unit] st1 = Some (ack_ok\<lparr>ack_data := A_hostCurrent ''h''\<rparr>, first_server)"
    by (simp add: s(2) turn_defs call_string_def handle_host_current_def evaluate)
  then obtain st1 q where turn: "actor_turn (no_think (KHostCurrent True)) (shared s) = (st1, q)"
      "turn_run q [Ret_string ''h'', Ret_unit] st1 = Some (ack_ok\<lparr>ack_data := A_hostCurrent ''h''\<rparr>, first_server)" by blast
  have "exclusive s 2" "actors s 2 = Some reading" "a_phase reading = Reading"
    using s(3) by (auto simp: exclusive_def reading_def)
  from run_exchange [OF s(1) this(2,3,1) send turn]
  obtain s' where s': "clients_reach [(2, 9)] nat forks
      (client_receives nat 2 (ack_ok\<lparr>ack_data := A_hostCurrent ''h''\<rparr>) (first_clients\<lparr>calling := [2 \<mapsto> ?call]\<rparr>)) s'"
    "shared s' = first_server" "actors s' = actors s" by blast
  have "client_receives nat 2 (ack_ok\<lparr>ack_data := A_hostCurrent ''h''\<rparr>) (first_clients\<lparr>calling := [2 \<mapsto> ?call]\<rparr>) = second_clients"
    by (simp add: client_receives_def new_object_def host_current_def enforce_success_def ack_ok_def get_hostCurrent_def
        make_shared_def first_clients_def second_clients_def set_process_def no_clients_def first_heap_def)
  with s' s(3) show ?thesis by metis
qed

text \<open>It forks: actor 3, in the process 3, has the same objects.\<close>

definition forked_clients :: clients where
  "forked_clients = client_forks nat 2 3 second_clients"

lemma run_create:
  assumes "clients_reach conns P forks C s" "actors s i = Some A" "a_phase A = Handling D (Do (Actor_create n h q) k)"
    and "exclusive s i" "actors s pid = None" "k (Ret_int pid) (shared s) = (st', p)" "actor_prologue q st' = (st'', p')"
  shows "\<exists>s'. clients_reach conns P forks C s' \<and> shared s' = st'' \<and>
    actors s' = (actors s)(i \<mapsto> A\<lparr>a_phase := Handling D p\<rparr>, pid \<mapsto> \<lparr>a_socket = None, a_phase = Connecting p'\<rparr>)"
proof -
  let ?s = "set_actor pid \<lparr>a_socket = None, a_phase = Connecting p'\<rparr> (set_phase i A (Handling D p) (s\<lparr>shared := st''\<rparr>))"
  have "sys_step_if any_release s ?s"
    using assms(2-7) by (intro sys_step_with.create [where k = k and n = n and h = h and q = q]) simp_all
  from reach_inside [OF assms(1) this] have "clients_reach conns P forks C ?s" by simp
  moreover have "shared ?s = st''"
    "actors ?s = (actors s)(i \<mapsto> A\<lparr>a_phase := Handling D p\<rparr>, pid \<mapsto> \<lparr>a_socket = None, a_phase = Connecting p'\<rparr>)"
    by (simp_all add: sys_ops)
  ultimately show ?thesis by blast
qed

lemma create_runs:
  "\<exists>k1 st2 q k2 st3. actor_turn (no_think (KActorCreate n h)) st = (st, Do (Host_by_name h) k1) \<and>
     k1 Ret_unit st = (st2, Do (Actor_create (c_str n) h q) k2) \<and> fst (k2 (Ret_int 3) st2) = st2 \<and>
     turn_run (snd (k2 (Ret_int 3) st2)) [Ret_bool True, Ret_unit, Ret_msg (Some Im_actor_create_ack), Ret_unit] st2 =
       Some (ack_ok\<lparr>ack_data := A_actorCreate 3\<rparr>, st3) \<and> comms st3 = comms st"
  by (simp add: turn_defs call_bool_def call_int_def call_msg_def handle_actor_create_def announce_actor_def
      create_acknowledged_def new_queue_def evaluate Let_def)

lemma reading_facts [simp]: "a_phase reading = Reading" "a_socket reading = Some 9"
  "reading\<lparr>a_phase := Reading\<rparr> = reading"
  by (simp_all add: reading_def)

lemma alone_exclusive: "actors s = [i \<mapsto> A] \<Longrightarrow> exclusive s i"
  by (auto simp: exclusive_def)

lemma pair_exclusive: "actors s = [i \<mapsto> A, j \<mapsto> B] \<Longrightarrow> \<not> holds_thread (a_phase B) \<Longrightarrow> exclusive s i"
  "actors s = [i \<mapsto> A, j \<mapsto> B] \<Longrightarrow> \<not> holds_thread (a_phase A) \<Longrightarrow> i \<noteq> j \<Longrightarrow> exclusive s j"
  by (auto simp: exclusive_def split: if_splits)

lemma forked_client:
  "\<exists>s q. clients_reach [(2, 9)] nat True forked_clients s \<and> comms (shared s) = comms first_server \<and>
     actors s = [2 \<mapsto> reading, 3 \<mapsto> \<lparr>a_socket = None, a_phase = Connecting (snd (actor_prologue q (shared s)))\<rparr>]"
proof -
  let ?h = "\<lparr>host_name = ''h''\<rparr>" and ?t = "KActorCreate ''child'' ''h''"
  let ?call = "new_object an_actor (actor_create ''child'' ''h'')"
  let ?C = "second_clients\<lparr>calling := [2 \<mapsto> (?t, snd ?call)]\<rparr>"
  obtain s where s: "clients_reach [(2, 9)] nat True second_clients s" "shared s = first_server" "actors s = [2 \<mapsto> reading]"
    using second_client by blast
  have none: "calling second_clients = Map.empty" by (simp add: second_clients_def no_clients_def)
  then have p: "calling second_clients 2 = None"
    "processes second_clients (nat 2) = \<lparr>heap = snd (make_shared (Client_host ?h) first_heap), pointers = {#(2, Suc 1), (2, 1), (2, 0)#}\<rparr>"
    by (simp_all add: second_clients_def)
  have call: "library_call {Client_host ?h} (fst ?call, snd ?call)" using library_call.intros(1) [of ?h "''child''"] by simp
  have "object (snd (make_shared (Client_host ?h) first_heap)) (Suc 1) = Some (Client_host ?h)"
    by (simp add: make_shared_def first_heap_def)
  then have held: "\<exists>n. (2, n) \<in># {#(2, Suc 1), (2, 1), (2, 0)#} \<and> object (snd (make_shared (Client_host ?h) first_heap)) n = Some x"
    if "x \<in> {Client_host ?h}" for x :: client_object using that by auto
  have fst_call: "fst ?call = ?t" by (simp add: new_object_def actor_create_def)
  from client_sends.call [where P = nat and i = 2, OF p call held]
  have send: "client_sends nat second_clients 2 ?t ?C" unfolding fst_call none by simp
  obtain k1 st2 q k2 st3 where turn: "actor_turn (no_think ?t) (shared s) = (shared s, Do (Host_by_name ''h'') k1)"
    "k1 Ret_unit (shared s) = (st2, Do (Actor_create (c_str ''child'') ''h'' q) k2)" "fst (k2 (Ret_int 3) st2) = st2"
    "turn_run (snd (k2 (Ret_int 3) st2)) [Ret_bool True, Ret_unit, Ret_msg (Some Im_actor_create_ack), Ret_unit] st2 =
       Some (ack_ok\<lparr>ack_data := A_actorCreate 3\<rparr>, st3)" "comms st3 = comms (shared s)"
    using create_runs by blast
  have "actors s 2 = Some reading" using s(3) by simp
  from run_request [OF s(1) this _ alone_exclusive [OF s(3)] send turn(1), of "{}"] s(3)
  obtain s1 where s1: "clients_reach [(2, 9)] nat True ?C s1" "shared s1 = shared s"
    "actors s1 = [2 \<mapsto> reading\<lparr>a_phase := Handling {} (Do (Host_by_name ''h'') k1)\<rparr>]" by (auto simp: drops_def)
  let ?A1 = "reading\<lparr>a_phase := Handling {} (Do (Host_by_name ''h'') k1)\<rparr>"
  let ?A2 = "reading\<lparr>a_phase := Handling {} (Do (Actor_create (c_str ''child'') ''h'' q) k2)\<rparr>"
  have k1: "k1 Ret_unit (shared s1) = (st2, Do (Actor_create (c_str ''child'') ''h'' q) k2)" using turn(2) s1(2) by simp
  have a1: "actors s1 2 = Some ?A1" "a_phase ?A1 = Handling {} (Do (Host_by_name ''h'') k1)" using s1(3) by simp_all
  have adm: "admissible (Host_by_name ''h'') Ret_unit (shared s1)" "\<not> is_write (Host_by_name ''h'')"
    by (simp_all add: evaluate)
  from run_call [where i = 2 and k = k1 and r = Ret_unit, OF s1(1) a1 alone_exclusive [OF s1(3)] adm k1] s1(3)
  obtain s2 where s2: "clients_reach [(2, 9)] nat True ?C s2" "shared s2 = st2" "actors s2 = [2 \<mapsto> ?A2]" by auto
  let ?p = "snd (k2 (Ret_int 3) st2)"
  have k2: "k2 (Ret_int 3) (shared s2) = (st2, ?p)" using turn(3) s2(2) by (metis prod.collapse)
  have pro: "actor_prologue q st2 = (st2, snd (actor_prologue q st2))" by (simp add: actor_prologue_def call_int_def)
  have a2: "actors s2 2 = Some ?A2" "a_phase ?A2 = Handling {} (Do (Actor_create (c_str ''child'') ''h'' q) k2)"
    "actors s2 3 = None" using s2(3) by simp_all
  from run_create [where i = 2 and k = k2 and q = q, OF s2(1) a2(1,2) alone_exclusive [OF s2(3)] a2(3) k2 pro] s2(3)
  obtain s3 where s3: "clients_reach [(2, 9)] nat True ?C s3" "shared s3 = st2"
    "actors s3 = [2 \<mapsto> reading\<lparr>a_phase := Handling {} ?p\<rparr>, 3 \<mapsto> \<lparr>a_socket = None, a_phase = Connecting (snd (actor_prologue q st2))\<rparr>]"
    by auto
  have idle: "\<not> holds_thread (Connecting (snd (actor_prologue q st2)))"
    by (simp add: actor_prologue_def call_int_def io_call_def)
  have excl: "exclusive s3 2" using pair_exclusive(1) [OF s3(3)] idle by simp
  have run: "turn_run ?p [Ret_bool True, Ret_unit, Ret_msg (Some Im_actor_create_ack), Ret_unit] (shared s3) =
      Some (ack_ok\<lparr>ack_data := A_actorCreate 3\<rparr>, st3)" using turn(4) s3(2) by simp
  have in_call: "calling ?C 2 = Some (?t, snd ?call)" by simp
  have child: "processes ?C (nat 3) = \<lparr>heap = empty_heap, pointers = {#}\<rparr>"
    by (simp add: second_clients_def no_clients_def)
  have s3': "actors s3 2 = Some (reading\<lparr>a_phase := Handling {} ?p\<rparr>)" "a_phase (reading\<lparr>a_phase := Handling {} ?p\<rparr>) = Handling {} ?p"
    using s3(3) by simp_all
  have ack: "success (ack_ok\<lparr>ack_data := A_actorCreate 3\<rparr>)" "3 = get_actorCreate (ack_data (ack_ok\<lparr>ack_data := A_actorCreate 3\<rparr>))"
    by (simp_all add: ack_ok_def get_actorCreate_def)
  from run_fork [where P = nat and i = 2, OF run s3(1) s3' excl in_call ack child]
  obtain s4 where s4: "clients_reach [(2, 9)] nat True (client_forks nat 2 3 (?C\<lparr>calling := (calling ?C)(2 := None)\<rparr>)) s4"
    "shared s4 = st3" "actors s4 = (actors s3)(2 \<mapsto> reading)" by auto
  have "?C\<lparr>calling := (calling ?C)(2 := None)\<rparr> = second_clients" using none by simp
  then have "clients_reach [(2, 9)] nat True forked_clients s4" using s4(1) by (simp add: forked_clients_def)
  moreover have "snd (actor_prologue q st2) = snd (actor_prologue q (shared s4))" by (simp add: actor_prologue_def call_int_def)
  then have "actors s4 = [2 \<mapsto> reading, 3 \<mapsto> \<lparr>a_socket = None, a_phase = Connecting (snd (actor_prologue q (shared s4)))\<rparr>]"
    using s4(3) s3(3) by (auto simp: fun_upd_twist)
  moreover have "comms (shared s4) = comms first_server" using s4(2) turn(5) s(2) by simp
  ultimately show ?thesis by blast
qed

text \<open>The child connects: the command thread tells it its socket.\<close>

lemma run_connect:
  assumes "clients_reach conns P forks C s" "\<not> holds_thread (a_phase W)"
    and "actors s = [2 \<mapsto> W, 3 \<mapsto> \<lparr>a_socket = None, a_phase = Connecting (snd (actor_prologue q (shared s)))\<rparr>]"
  shows "\<exists>s'. clients_reach conns P forks C s' \<and> comms (shared s') = comms (shared s) \<and>
    actors s' = [2 \<mapsto> W, 3 \<mapsto> \<lparr>a_socket = Some 10, a_phase = Reading\<rparr>]"
proof -
  let ?A = "\<lambda>p. \<lparr>a_socket = None, a_phase = Connecting p\<rparr>"
  have excl: "exclusive s' 3" if "actors s' = [2 \<mapsto> W, 3 \<mapsto> B]" for s' B
    using pair_exclusive(2) [OF that assms(2)] by simp
  have step: "\<exists>s'. clients_reach conns P forks C s' \<and> shared s' = st' \<and>
      actors s' = [2 \<mapsto> W, 3 \<mapsto> \<lparr>a_socket = next_socket r None, a_phase = Connecting p\<rparr>]"
    if "clients_reach conns P forks C s1" "actors s1 = [2 \<mapsto> W, 3 \<mapsto> ?A (Do c k)]"
      "well_typed c r" "s4u_ok c r (shared s1)" "k r (shared s1) = (st', p)" for s1 c k r st' p
  proof -
    have "actors s1 3 = Some (?A (Do c k))" "a_phase (?A (Do c k)) = Connecting (Do c k)" using that(2) by simp_all
    from run_prologue [OF that(1) this excl [OF that(2)] that(3-5)] that(2) show ?thesis by auto
  qed
  let ?st = "(shared s)\<lparr>queues := queues (shared s) - {q}\<rparr>"
  let ?pop = "call_msg (Queue_pop q) (actor_connected q)"
  let ?wait = "call_unit (Queue_wait q) ?pop"
  let ?yield = "call_unit Yield ?wait"
  have a0: "actors s = [2 \<mapsto> W, 3 \<mapsto> ?A (Do Get_pid (\<lambda>r st'. case r of Ret_int i \<Rightarrow> ?yield st' | _ \<Rightarrow> (st', Done (failure r))))]"
    using assms(3) by (simp add: actor_prologue_def call_int_def)
  from step [OF assms(1) a0, of "Ret_int 3" "shared s" "snd (?yield (shared s))"]
  obtain s1 where s1: "clients_reach conns P forks C s1" "shared s1 = shared s"
    "actors s1 = [2 \<mapsto> W, 3 \<mapsto> ?A (Do Yield (\<lambda>r st'. case r of Ret_unit \<Rightarrow> ?wait st' | _ \<Rightarrow> (st', Done (failure r))))]"
    by (auto simp: evaluate next_socket_def call_unit_def)
  from step [OF s1(1,3), of Ret_unit "shared s" "snd (?wait (shared s))"] s1(2)
  obtain s2 where s2: "clients_reach conns P forks C s2" "shared s2 = shared s"
    "actors s2 = [2 \<mapsto> W, 3 \<mapsto> ?A (Do (Queue_wait q) (\<lambda>r st'. case r of Ret_unit \<Rightarrow> ?pop st' | _ \<Rightarrow> (st', Done (failure r))))]"
    by (auto simp: evaluate next_socket_def call_unit_def)
  from step [OF s2(1,3), of Ret_unit "shared s" "snd (?pop (shared s))"] s2(2)
  obtain s3 where s3: "clients_reach conns P forks C s3" "shared s3 = shared s"
    "actors s3 = [2 \<mapsto> W, 3 \<mapsto> ?A (Do (Queue_pop q) (\<lambda>r st'. case r of Ret_msg m \<Rightarrow> actor_connected q m st' | _ \<Rightarrow> (st', Done (failure r))))]"
    by (auto simp: evaluate next_socket_def call_msg_def)
  from step [OF s3(1,3), of "Ret_msg (Some (Im_actor_connected 10))" ?st "Done (Handled decision_ack0 False False)"] s3(2)
  obtain s4 where s4: "clients_reach conns P forks C s4" "shared s4 = ?st"
    "actors s4 = [2 \<mapsto> W, 3 \<mapsto> \<lparr>a_socket = Some 10, a_phase = Connecting (Done (Handled decision_ack0 False False))\<rparr>]"
    by (auto simp: evaluate next_socket_def actor_connected_def finish_def)
  let ?B = "\<lparr>a_socket = Some 10, a_phase = Connecting (Done (Handled decision_ack0 False False))\<rparr>"
  let ?s = "set_phase 3 ?B Reading s4"
  have "sys_step_if any_release s4 ?s"
    using excl [OF s4(3)] s4(3) by (intro sys_step_with.connected [where a = decision_ack0 and se = False and q = False]) simp_all
  from reach_inside [OF s4(1) this] have "clients_reach conns P forks C ?s" by simp
  moreover have "comms (shared ?s) = comms (shared s)" "actors ?s = [2 \<mapsto> W, 3 \<mapsto> \<lparr>a_socket = Some 10, a_phase = Reading\<rparr>]"
    using s4(2,3) by (simp_all add: sys_ops)
  ultimately show ?thesis by blast
qed

text \<open>The parent waits for its communication, and blocks in the server.\<close>

definition wait_call :: object_call where
  "wait_call = no_object (comm_wait_for \<lparr>remote_address = 5, has_destination = True\<rparr> (Finite (-1)))"

definition waiting_clients :: clients where
  "waiting_clients = forked_clients\<lparr>calling := [2 \<mapsto> wait_call]\<rparr>"

lemma forked_processes:
  "calling forked_clients = Map.empty"
  "processes forked_clients 2 = \<lparr>heap = snd (make_shared (Client_host \<lparr>host_name = ''h''\<rparr>) first_heap), pointers = {#(2, Suc 1), (2, 1), (2, 0)#}\<rparr>"
  "processes forked_clients 3 = \<lparr>heap = snd (make_shared (Client_host \<lparr>host_name = ''h''\<rparr>) first_heap), pointers = {#(3, Suc 1), (3, 1), (3, 0)#}\<rparr>"
  "object (snd (make_shared (Client_host \<lparr>host_name = ''h''\<rparr>) first_heap)) 1 = Some (Client_comm \<lparr>remote_address = 5, has_destination = True\<rparr>)"
  "use_count (snd (make_shared (Client_host \<lparr>host_name = ''h''\<rparr>) first_heap)) 1 = 1"
  by (simp_all add: forked_clients_def client_forks_def second_clients_def no_clients_def make_shared_def first_heap_def)

lemma wait_turn:
  assumes "comms st = comms first_server"
  shows "\<exists>k. actor_turn (no_think (fst wait_call)) st = (st, Do (Comm_wait_for 5 (Finite (-1))) k) \<and>
     (\<forall>st'. comms st' 5 = None \<longrightarrow> k Ret_unit st' = (st', Done (Undefined Dangling_iterator)))"
  using assms by (simp add: wait_call_def no_object_def comm_wait_for_def turn_defs call_unit_catch_def find_or_fail_def
      handle_comm_wait_for_def first_server_def comm_register_def add_ref_def Let_def comm_deref_def undefined_behaviour_def empty_server_def
      send_reply_def)

definition waiting :: "(answer \<Rightarrow> code) \<Rightarrow> actor" where
  "waiting k = \<lparr>a_socket = Some 9, a_phase = Handling {} (Do (Comm_wait_for 5 (Finite (-1))) k)\<rparr>"

lemma not_io [simp]: "\<not> holds_thread (a_phase (waiting k))"
  by (simp add: waiting_def io_call_def)

lemma parent_waits:
  "\<exists>s k. clients_reach [(2, 9)] nat True waiting_clients s \<and> comms (shared s) = comms first_server \<and>
     (\<forall>st. comms st 5 = None \<longrightarrow> k Ret_unit st = (st, Done (Undefined Dangling_iterator))) \<and>
     actors s = [2 \<mapsto> waiting k, 3 \<mapsto> \<lparr>a_socket = Some 10, a_phase = Reading\<rparr>]"
proof -
  obtain s q where s: "clients_reach [(2, 9)] nat True forked_clients s" "comms (shared s) = comms first_server"
    "actors s = [2 \<mapsto> reading, 3 \<mapsto> \<lparr>a_socket = None, a_phase = Connecting (snd (actor_prologue q (shared s)))\<rparr>]"
    using forked_client by blast
  let ?c = "\<lparr>remote_address = 5, has_destination = True\<rparr>"
  obtain k where k: "actor_turn (no_think (fst wait_call)) (shared s) = (shared s, Do (Comm_wait_for 5 (Finite (-1))) k)"
    "\<forall>st. comms st 5 = None \<longrightarrow> k Ret_unit st = (st, Done (Undefined Dangling_iterator))"
    using wait_turn [OF s(2)] by blast
  have call: "library_call {Client_comm ?c} (fst wait_call, snd wait_call)"
    using library_call.intros(9) [of ?c "Finite (-1)"] by (simp add: wait_call_def)
  have p: "calling forked_clients 2 = None"
    "processes forked_clients (nat 2) = \<lparr>heap = snd (make_shared (Client_host \<lparr>host_name = ''h''\<rparr>) first_heap), pointers = {#(2, Suc 1), (2, 1), (2, 0)#}\<rparr>"
    by (simp_all add: forked_processes)
  have held: "\<exists>n. (2, n) \<in># {#(2, Suc 1), (2, 1), (2, 0)#} \<and>
      object (snd (make_shared (Client_host \<lparr>host_name = ''h''\<rparr>) first_heap)) n = Some x"
    if "x \<in> {Client_comm ?c}" for x using that forked_processes(4) by (intro exI [of _ 1]) simp
  from client_sends.call [where P = nat and i = 2, OF p call held]
  have send: "client_sends nat forked_clients 2 (fst wait_call) waiting_clients"
    by (simp add: waiting_clients_def forked_processes(1))
  have "\<not> holds_thread (Connecting (snd (actor_prologue q (shared s))))"
    by (simp add: actor_prologue_def call_int_def io_call_def)
  then have excl: "exclusive s 2" using pair_exclusive(1) [OF s(3)] by simp
  have r: "actors s 2 = Some reading" "a_phase reading = Reading" "drops (fst wait_call) = {}"
    using s(3) by (simp_all add: wait_call_def no_object_def comm_wait_for_def drops_def)
  from run_request [OF s(1) r(1,2) excl send k(1) r(3)] s(3)
  obtain s1 where s1: "clients_reach [(2, 9)] nat True waiting_clients s1" "shared s1 = shared s"
    "actors s1 = [2 \<mapsto> waiting k, 3 \<mapsto> \<lparr>a_socket = None, a_phase = Connecting (snd (actor_prologue q (shared s1)))\<rparr>]"
    by (auto simp: waiting_def reading_def fun_upd_twist)
  from run_connect [OF s1(1) not_io s1(3)] s1(2) s(2) k(2) show ?thesis by metis
qed

text \<open>The child drops its copy of the pointer, and its connection ends.\<close>

lemma release_turn:
  assumes "comms st = comms first_server"
  shows "\<exists>st1 p st'. actor_turn (no_think (KCommRefcountDecrease 5)) st = (st1, p) \<and>
     turn_run p [Ret_unit] st1 = Some (ack_ok, st') \<and> comms st' 5 = None"
  using assms by (simp add: turn_defs split_beta first_server_def comm_register_def add_ref_def empty_server_def
      comm_refcount_decrease_def release_def ack_ok_def Let_def evaluate)

lemma child_quits:
  "\<exists>C s k. clients_reach [(2, 9)] nat True C s \<and> comms (shared s) 5 = None \<and>
     (\<forall>st. comms st 5 = None \<longrightarrow> k Ret_unit st = (st, Done (Undefined Dangling_iterator))) \<and>
     actors s = [2 \<mapsto> waiting k, 3 \<mapsto> \<lparr>a_socket = Some 10, a_phase = Terminated\<rparr>]"
proof -
  let ?R = "\<lparr>a_socket = Some 10, a_phase = Reading\<rparr>" and ?c = "Client_comm \<lparr>remote_address = 5, has_destination = True\<rparr>"
  let ?H = "snd (make_shared (Client_host \<lparr>host_name = ''h''\<rparr>) first_heap)"
  obtain s k where s: "clients_reach [(2, 9)] nat True waiting_clients s" "comms (shared s) = comms first_server"
    "actors s = [2 \<mapsto> waiting k, 3 \<mapsto> ?R]"
    and k: "\<forall>st. comms st 5 = None \<longrightarrow> k Ret_unit st = (st, Done (Undefined Dangling_iterator))"
    using parent_waits by blast
  have p: "calling waiting_clients 3 = None"
    "processes waiting_clients (nat 3) = \<lparr>heap = ?H, pointers = {#(3, Suc 1), (3, 1), (3, 0)#}\<rparr>"
    by (simp_all add: waiting_clients_def forked_processes)
  obtain H where H: "drop_shared 1 ?H = (Some ?c, H)"
    using forked_processes(4,5) by (simp add: drop_shared_def Let_def)
  have "destructor ?c = Some (KCommRefcountDecrease 5)" by (simp add: destructor_def comm_destructor_def)
  from client_sends.destroy [where P = nat and i = 3, OF p _ H this]
  obtain C where C: "client_sends nat waiting_clients 3 (KCommRefcountDecrease 5) C" by auto
  obtain st1 p st' where turn: "actor_turn (no_think (KCommRefcountDecrease 5)) (shared s) = (st1, p)"
    "turn_run p [Ret_unit] st1 = Some (ack_ok, st')" "comms st' 5 = None" using release_turn [OF s(2)] by blast
  have excl: "exclusive s' 3" if "actors s' = [2 \<mapsto> waiting k, 3 \<mapsto> B]" for s' B
    using pair_exclusive(2) [OF that not_io] by simp
  have r: "actors s 3 = Some ?R" "a_phase ?R = Reading" using s(3) by simp_all
  from run_exchange [OF s(1) r excl [OF s(3)] C turn(1,2)]
  obtain s1 where s1: "clients_reach [(2, 9)] nat True (client_receives nat 3 ack_ok C) s1" "shared s1 = st'"
    "actors s1 = actors s" by blast
  let ?s = "set_phase 3 ?R Terminated (s1\<lparr>to_command := to_command s1 @ [Im_simulation_aborted 3 ''end of stream'']\<rparr>)"
  have r': "actors s1 3 = Some ?R" using s1(3) r(1) by simp
  have "actors s1 = [2 \<mapsto> waiting k, 3 \<mapsto> ?R]" using s1(3) s(3) by simp
  from sys_step_with.read_error [OF r' r(2) excl [OF this]]
  have "sys_step_if any_release s1 ?s" by blast
  from reach_inside [OF s1(1) this] have "clients_reach [(2, 9)] nat True (client_receives nat 3 ack_ok C) ?s" by simp
  moreover have "comms (shared ?s) 5 = None" "actors ?s = [2 \<mapsto> waiting k, 3 \<mapsto> \<lparr>a_socket = Some 10, a_phase = Terminated\<rparr>]"
    using s1(2,3) s(3) turn(3) by (simp_all add: sys_ops)
  ultimately show ?thesis using k by blast
qed


end
