(* ===== verification/Tcp_Socket.thy ===== *)
theory Tcp_Socket
  imports Rsg_Prelude
begin

text \<open>
  The socket layer (\<^verbatim>\<open>src/common/network\<close>): \<^verbatim>\<open>TcpSocket\<close>, \<^verbatim>\<open>TcpListener\<close> and
  \<^verbatim>\<open>Selector\<close>. The operating system is a parameter: a record of its system calls on a
  state of its own. An operation works on the object and the system's state; its value is None
  when it never returns (a blocking call that blocks for ever, a loop that does not end), and
  otherwise an error or a result, with the new state. The theory shows that the loops of
  \<^verbatim>\<open>send_all\<close> and \<^verbatim>\<open>recv_all\<close> transfer exactly the bytes they are asked to, whatever
  pieces the system transfers at a time.
\<close>

section \<open>The system calls\<close>

datatype recv_answer =
    Received bytes      \<comment> \<open>the return value is their number; none at the end of the stream\<close>
  | Recv_error          \<comment> \<open>-1\<close>
  | Recv_blocks         \<comment> \<open>the call never returns\<close>

datatype send_answer = Sent nat | Send_error | Send_blocks

record 'k kernel =
  k_socket :: "'k \<Rightarrow> int \<times> 'k"                               \<comment> \<open>-1 on failure\<close>
  k_recv :: "int \<Rightarrow> nat \<Rightarrow> 'k \<Rightarrow> recv_answer \<times> 'k"
  k_send :: "int \<Rightarrow> bytes \<Rightarrow> 'k \<Rightarrow> send_answer \<times> 'k"
  k_close :: "int \<Rightarrow> 'k \<Rightarrow> bool \<times> 'k"                         \<comment> \<open>False on failure\<close>
  k_shutdown :: "int \<Rightarrow> bool \<Rightarrow> bool \<Rightarrow> 'k \<Rightarrow> bool \<times> 'k"       \<comment> \<open>receive, send\<close>
  k_inet_pton :: "string \<Rightarrow> 'k \<Rightarrow> int \<times> 'k"                    \<comment> \<open>-1, 0 (invalid) or 1\<close>
  k_connect :: "int \<Rightarrow> string \<Rightarrow> u16 \<Rightarrow> 'k \<Rightarrow> bool \<times> 'k"
  k_setsockopt :: "int \<Rightarrow> string \<Rightarrow> 'k \<Rightarrow> bool \<times> 'k"          \<comment> \<open>the option set\<close>
  k_bind :: "int \<Rightarrow> u16 \<Rightarrow> 'k \<Rightarrow> bool \<times> 'k"
  k_listen :: "int \<Rightarrow> int \<Rightarrow> 'k \<Rightarrow> bool \<times> 'k"
  k_accept :: "int \<Rightarrow> 'k \<Rightarrow> int \<times> 'k"

type_synonym ('s, 'a) io = "'s \<Rightarrow> ((rsg_error + 'a) \<times> 's) option"

definition bind_io :: "('s, 'a) io \<Rightarrow> ('a \<Rightarrow> ('s, 'b) io) \<Rightarrow> ('s, 'b) io" where
  "bind_io m f s = (case m s of
      None \<Rightarrow> None
    | Some (Inl e, s') \<Rightarrow> Some (Inl e, s')
    | Some (Inr x, s') \<Rightarrow> f x s')"

definition return_io :: "'a \<Rightarrow> ('s, 'a) io" where
  "return_io x s = Some (Inr x, s)"

definition raise_io :: "rsg_error \<Rightarrow> ('s, 'a) io" where
  "raise_io e s = Some (Inl e, s)"

definition enforce_io :: "bool \<Rightarrow> rsg_error \<Rightarrow> ('s, unit) io" where
  "enforce_io b e = (if b then return_io () else raise_io e)"

named_theorems io_defs \<open>definitions of the combinators of effectful operations\<close>

declare bind_io_def [io_defs] return_io_def [io_defs] raise_io_def [io_defs] enforce_io_def [io_defs]

section \<open>Sockets\<close>

record tcp_socket =
  sock_fd :: int
  sock_fd_before_close :: int
  sock_connected :: bool

type_synonym 'k socket_state = "tcp_socket \<times> 'k"

definition new_socket :: tcp_socket where
  "new_socket = \<lparr>sock_fd = -1, sock_fd_before_close = -1, sock_connected = False\<rparr>"

definition tcp_socket_create :: "'k kernel \<Rightarrow> 'k \<Rightarrow> (rsg_error + tcp_socket) \<times> 'k" where
  "tcp_socket_create K k = (case k_socket K k of (fd, k') \<Rightarrow>
     (if fd = -1 then Inl ''cannot create socket: %s'' else Inr (new_socket\<lparr>sock_fd := fd\<rparr>), k'))"

definition tcp_socket_of_fd :: "int \<Rightarrow> tcp_socket" where
  "tcp_socket_of_fd fd = new_socket\<lparr>sock_fd := fd, sock_connected := True\<rparr>"

text \<open>A system call on the socket's descriptor that succeeds or fails.\<close>

definition sys_call :: "(int \<Rightarrow> 'k \<Rightarrow> bool \<times> 'k) \<Rightarrow> rsg_error \<Rightarrow> ('k socket_state, unit) io" where
  "sys_call f e sk = (case sk of (s, k) \<Rightarrow> (case f (sock_fd s) k of (ok, k') \<Rightarrow>
     enforce_io ok e (s, k')))"

definition check_socket :: "(tcp_socket \<Rightarrow> bool) \<Rightarrow> rsg_error \<Rightarrow> ('k socket_state, unit) io" where
  "check_socket P e sk = enforce_io (P (fst sk)) e sk"

definition tcp_connect :: "'k kernel \<Rightarrow> string \<Rightarrow> u16 \<Rightarrow> ('k socket_state, unit) io" where
  "tcp_connect K server_address port =
     bind_io (check_socket (\<lambda>s. sock_fd s \<noteq> -1) ''Wrong TcpSocket::connect call: Invalid socket'') (\<lambda>_.
     bind_io (check_socket (\<lambda>s. \<not> sock_connected s) ''Wrong TcpSocket::connect call: Already connected'') (\<lambda>_.
     bind_io (\<lambda>(s, k). case k_inet_pton K (c_str server_address) k of (res, k') \<Rightarrow>
        if res = -1 then raise_io ''Cannot connect: %s'' (s, k')
        else if res = 0 then raise_io ''Cannot connect: '%s' is not a valid address'' (s, k')
        else return_io () (s, k')) (\<lambda>_.
     bind_io (sys_call (\<lambda>fd. k_connect K fd (c_str server_address) port)
        ''Cannot connect to (hostname='%s', port=%d): %s'') (\<lambda>_ (s, k).
     return_io () (s\<lparr>sock_connected := True\<rparr>, k)))))"

definition tcp_close :: "'k kernel \<Rightarrow> ('k socket_state, unit) io" where
  "tcp_close K sk = (case sk of (s, k) \<Rightarrow>
     (let s = s\<lparr>sock_connected := False\<rparr> in
      if sock_fd s = -1 then return_io () (s, k)
      else (case k_close K (sock_fd s) k of (ok, k') \<Rightarrow>
        if \<not> ok then raise_io ''Cannot close: %s'' (s, k')
        else return_io () (s\<lparr>sock_fd_before_close := sock_fd s, sock_fd := -1\<rparr>, k'))))"

text \<open>The end of the stream: the socket is closed, and the error is the same if that fails.\<close>

definition connection_lost :: "'k kernel \<Rightarrow> ('k socket_state, 'a) io" where
  "connection_lost K sk = (case tcp_close K sk of
      None \<Rightarrow> None
    | Some (res, sk') \<Rightarrow> raise_io ''Connection lost'' sk')"

partial_function (option) send_loop ::
    "'k kernel \<Rightarrow> bytes \<Rightarrow> nat \<Rightarrow> ('k socket_state, unit) io" where
  "send_loop K buffer sent sk =
     (if length buffer \<le> sent then return_io () sk
      else case k_send K (sock_fd (fst sk)) (drop sent buffer) (snd sk) of
          (Sent n, k') \<Rightarrow> send_loop K buffer (sent + n) (fst sk, k')
        | (Send_error, k') \<Rightarrow> raise_io ''Could not send: %s'' (fst sk, k')
        | (Send_blocks, k') \<Rightarrow> None)"

definition send_all :: "'k kernel \<Rightarrow> bytes \<Rightarrow> ('k socket_state, unit) io" where
  "send_all K buffer =
     bind_io (check_socket (\<lambda>s. sock_fd s \<noteq> -1) ''Wrong TcpSocket::send_all call: Invalid socket'') (\<lambda>_.
     bind_io (check_socket sock_connected ''Wrong TcpSocket::send_all call: Not connected'') (\<lambda>_.
     send_loop K buffer 0))"

text \<open>The buffer of \<^verbatim>\<open>recv_all\<close> is what has been written to it so far.\<close>

function recv_loop :: "'k kernel \<Rightarrow> nat \<Rightarrow> bytes \<Rightarrow> ('k socket_state, bytes) io" where
  "recv_loop K sz received sk =
     (if sz \<le> length received then return_io received sk
      else case k_recv K (sock_fd (fst sk)) (sz - length received) (snd sk) of
          (Received bs, k') \<Rightarrow>
            if bs = [] then connection_lost K (fst sk, k')
            else recv_loop K sz (received @ bs) (fst sk, k')
        | (Recv_error, k') \<Rightarrow> raise_io ''could not recv: %s'' (fst sk, k')
        | (Recv_blocks, k') \<Rightarrow> None)"
  by pat_completeness auto
termination by (relation "measure (\<lambda>(K, sz, received, sk). sz - length received)")
    (auto simp flip: length_greater_0_conv)

declare recv_loop.simps [simp del]

definition recv_all :: "'k kernel \<Rightarrow> nat \<Rightarrow> ('k socket_state, bytes) io" where
  "recv_all K sz =
     bind_io (check_socket (\<lambda>s. sock_fd s \<noteq> -1) ''Wrong TcpSocket::recv_all call: Invalid socket'') (\<lambda>_.
     bind_io (check_socket sock_connected ''Wrong TcpSocket::recv_all call: Not connected'') (\<lambda>_.
     recv_loop K sz []))"

text \<open>One read: the bytes it wrote to the buffer.\<close>

definition tcp_recv :: "'k kernel \<Rightarrow> nat \<Rightarrow> ('k socket_state, bytes) io" where
  "tcp_recv K sz =
     bind_io (check_socket (\<lambda>s. sock_fd s \<noteq> -1) ''Wrong TcpSocket::recv call: Invalid socket'') (\<lambda>_.
     bind_io (check_socket sock_connected ''Wrong TcpSocket::recv call: Not connected'') (\<lambda>_ (s, k).
       case k_recv K (sock_fd s) sz k of
          (Received bs, k') \<Rightarrow> if bs = [] then connection_lost K (s, k') else return_io bs (s, k')
        | (Recv_error, k') \<Rightarrow> raise_io ''Could not recv: %s'' (s, k')
        | (Recv_blocks, k') \<Rightarrow> None))"

definition tcp_shutdown :: "'k kernel \<Rightarrow> bool \<Rightarrow> bool \<Rightarrow> ('k socket_state, unit) io" where
  "tcp_shutdown K receive send sk =
     (if \<not> (receive \<or> send)
      then raise_io ''wrong TcpSocket::shutdown call: at least one of receive or send should be true'' sk
      else if sock_fd (fst sk) = -1 then return_io () sk
      else sys_call (\<lambda>fd. k_shutdown K fd receive send) ''Cannot shutdown: %s'' sk)"

definition disable_nagle_algorithm :: "'k kernel \<Rightarrow> ('k socket_state, unit) io" where
  "disable_nagle_algorithm K =
     bind_io (check_socket (\<lambda>s. sock_fd s \<noteq> -1)
        ''Wrong TcpSocket::disable_nagle_algorithm call: Invalid socket'') (\<lambda>_.
     sys_call (\<lambda>fd. k_setsockopt K fd ''TCP_NODELAY'') ''Cannot setsockopt TCP_NODELAY: %s'')"

definition set_abortive_termination :: "'k kernel \<Rightarrow> ('k socket_state, unit) io" where
  "set_abortive_termination K =
     bind_io (check_socket (\<lambda>s. sock_fd s \<noteq> -1)
        ''Wrong TcpSocket::set_abortive_termination call: Invalid socket'') (\<lambda>_.
     sys_call (\<lambda>fd. k_setsockopt K fd ''SO_LINGER'') ''Cannot setsockopt SO_LINGER: %s'')"

section \<open>The listener and the selector\<close>

definition listener_create :: "'k kernel \<Rightarrow> 'k \<Rightarrow> (rsg_error + int) \<times> 'k" where
  "listener_create K k = (case k_socket K k of (fd, k') \<Rightarrow>
     (if fd = -1 then Inl ''cannot create socket: %s'' else Inr fd, k'))"

text \<open>The listener's only state is its descriptor.\<close>

type_synonym 'k listener_state = "int \<times> 'k"

definition listener_call :: "(int \<Rightarrow> 'k \<Rightarrow> bool \<times> 'k) \<Rightarrow> rsg_error \<Rightarrow> ('k listener_state, unit) io" where
  "listener_call f e l = (case l of (fd, k) \<Rightarrow> (case f fd k of (ok, k') \<Rightarrow> enforce_io ok e (fd, k')))"

definition listener_listen :: "'k kernel \<Rightarrow> u16 \<Rightarrow> ('k listener_state, unit) io" where
  "listener_listen K port =
     bind_io (\<lambda>l. enforce_io (fst l \<noteq> -1) ''wrong TcpListener::listen call: invalid socket'' l) (\<lambda>_.
     bind_io (listener_call (\<lambda>fd. k_bind K fd port) ''Cannot bind port %hu: %s'') (\<lambda>_.
     listener_call (\<lambda>fd. k_listen K fd 16) ''Cannot accept: %s''))"

definition listener_accept :: "'k kernel \<Rightarrow> ('k listener_state, tcp_socket) io" where
  "listener_accept K l = (case l of (fd, k) \<Rightarrow> (case k_accept K fd k of (accepted, k') \<Rightarrow>
     if accepted = -1 then raise_io ''cannot accept: %s'' (fd, k')
     else return_io (tcp_socket_of_fd accepted) (fd, k')))"

definition listener_shutdown :: "'k kernel \<Rightarrow> bool \<Rightarrow> bool \<Rightarrow> ('k listener_state, unit) io" where
  "listener_shutdown K receive send l =
     (if \<not> (receive \<or> send)
      then raise_io ''Wrong TcpListener::shutdown call: at least one of receive or send should be true'' l
      else if fst l = -1 then return_io () l
      else listener_call (\<lambda>fd. k_shutdown K fd receive send) ''Cannot shutdown: %s'' l)"

definition listener_close :: "'k kernel \<Rightarrow> ('k listener_state, unit) io" where
  "listener_close K l = (case l of (fd, k) \<Rightarrow>
     if fd = -1 then return_io () l
     else (case k_close K fd k of (ok, k') \<Rightarrow> enforce_io ok ''Cannot close: %s'' (-1, k')))"

definition allow_address_reuse :: "'k kernel \<Rightarrow> ('k listener_state, unit) io" where
  "allow_address_reuse K =
     bind_io (\<lambda>l. enforce_io (fst l \<noteq> -1) ''Wrong TcpSocket::allow_address_reuse call: Invalid socket'' l) (\<lambda>_.
     listener_call (\<lambda>fd. k_setsockopt K fd ''SO_REUSEADDR'') ''Cannot setsockopt SO_REUSEADDR: %s'')"

record selector =
  registered :: "int set"
  readable :: "int set"
  max_fd :: int

definition new_selector :: selector where
  "new_selector = \<lparr>registered = {}, readable = {}, max_fd = 0\<rparr>"

definition selector_add :: "int \<Rightarrow> selector \<Rightarrow> selector" where
  "selector_add fd sel = sel\<lparr>registered := insert fd (registered sel), max_fd := max (max_fd sel) fd\<rparr>"

definition selector_remove :: "int \<Rightarrow> selector \<Rightarrow> selector" where
  "selector_remove fd sel = sel\<lparr>registered := registered sel - {fd}\<rparr>"

definition selector_clear :: "selector \<Rightarrow> selector" where
  "selector_clear sel = sel\<lparr>registered := {}, readable := {}\<rparr>"

text \<open>
  \<^verbatim>\<open>select\<close> (a parameter) gets the registered descriptors below \<^verbatim>\<open>max_fd + 1\<close> and
  answers the readable ones, or fails.
\<close>

definition wait_any_readable ::
    "(int set \<Rightarrow> 'k \<Rightarrow> int set option \<times> 'k) \<Rightarrow> selector \<Rightarrow> 'k \<Rightarrow> (rsg_error + bool \<times> selector) \<times> 'k" where
  "wait_any_readable select sel k =
     (case select {fd \<in> registered sel. fd < max_fd sel + 1} k of
        (None, k') \<Rightarrow> (Inl ''Cannot select: %s'', k')
      | (Some fds, k') \<Rightarrow> (Inr (fds \<noteq> {}, sel\<lparr>readable := fds\<rparr>), k'))"

definition is_readable :: "selector \<Rightarrow> int \<Rightarrow> bool" where
  "is_readable sel fd \<longleftrightarrow> fd \<in> readable sel"

section \<open>What the system promises\<close>

text \<open>
  A connected stream: as long as there are unread bytes, a read of at least one byte returns
  some of them, in order, and no more than it was asked for. A write of at least one byte
  transfers a non-empty prefix of its buffer.
\<close>

definition readable_stream :: "'k kernel \<Rightarrow> int \<Rightarrow> ('k \<Rightarrow> bytes) \<Rightarrow> bool" where
  "readable_stream K fd unread \<longleftrightarrow> (\<forall>n k. 0 < n \<and> unread k \<noteq> [] \<longrightarrow>
     (\<exists>bs k'. k_recv K fd n k = (Received bs, k') \<and> bs \<noteq> [] \<and> length bs \<le> n \<and>
        unread k = bs @ unread k'))"

definition writable_stream :: "'k kernel \<Rightarrow> int \<Rightarrow> ('k \<Rightarrow> bytes) \<Rightarrow> bool" where
  "writable_stream K fd written \<longleftrightarrow> (\<forall>buf k. buf \<noteq> [] \<longrightarrow>
     (\<exists>n k'. k_send K fd buf k = (Sent n, k') \<and> 0 < n \<and> n \<le> length buf \<and>
        written k' = written k @ take n buf))"

definition open_socket :: "tcp_socket \<Rightarrow> bool" where
  "open_socket s \<longleftrightarrow> sock_fd s \<noteq> -1 \<and> sock_connected s"

section \<open>The transfer loops\<close>

text \<open>\<open>keep\<close> is any part of the system's state that the system call does not touch.\<close>

lemma recv_loop_stream_keep:
  assumes "readable_stream K (sock_fd s) unread" "length received \<le> n"
    "n - length received \<le> length (unread k)"
    and keep: "\<forall>n k bs k'. k_recv K (sock_fd s) n k = (Received bs, k') \<and> unread k = bs @ unread k' \<longrightarrow>
      keep k' = keep k"
  shows "\<exists>k'. recv_loop K n received (s, k) =
      Some (Inr (received @ take (n - length received) (unread k)), (s, k')) \<and>
    unread k' = drop (n - length received) (unread k) \<and> keep k' = keep k"
  using assms(2,3)
proof (induction "n - length received" arbitrary: received k rule: less_induct)
  case less
  show ?case
  proof (cases "length received = n")
    case True
    then show ?thesis by (subst recv_loop.simps) (simp add: return_io_def)
  next
    case False
    with less.prems have more: "length received < n" "unread k \<noteq> []" by auto
    then obtain bs k' where r: "k_recv K (sock_fd s) (n - length received) k = (Received bs, k')"
      "bs \<noteq> []" "length bs \<le> n - length received" "unread k = bs @ unread k'"
      using assms(1) unfolding readable_stream_def by (meson zero_less_diff)
    have step: "recv_loop K n received (s, k) = recv_loop K n (received @ bs) (s, k')"
      using more(1) r(1,2) by (subst recv_loop.simps) simp
    have "n - length (received @ bs) < n - length received" using more(1) r(2) by (cases bs) auto
    moreover have "length (received @ bs) \<le> n" using r(3) more(1) by simp
    moreover have "n - length (received @ bs) \<le> length (unread k')" using less.prems r(4) by simp
    ultimately obtain k'' where "recv_loop K n (received @ bs) (s, k') =
        Some (Inr ((received @ bs) @ take (n - length (received @ bs)) (unread k')), (s, k''))"
      "unread k'' = drop (n - length (received @ bs)) (unread k')" "keep k'' = keep k'"
      using less.hyps by blast
    with step r(3,4) more(1) keep [rule_format, OF conjI [OF r(1,4)]] show ?thesis by (auto simp: take_append drop_append)
  qed
qed

lemma send_loop_stream_keep:
  assumes "writable_stream K (sock_fd s) written" "sent \<le> length buffer"
    and keep: "\<forall>buf k n k'. k_send K (sock_fd s) buf k = (Sent n, k') \<longrightarrow> keep k' = keep k"
  shows "\<exists>k'. send_loop K buffer sent (s, k) = Some (Inr (), (s, k')) \<and>
    written k' = written k @ drop sent buffer \<and> keep k' = keep k"
  using assms(2)
proof (induction "length buffer - sent" arbitrary: sent k rule: less_induct)
  case less
  show ?case
  proof (cases "sent = length buffer")
    case True
    then show ?thesis by (subst send_loop.simps) (simp add: return_io_def)
  next
    case False
    with less.prems have more: "sent < length buffer" "drop sent buffer \<noteq> []" by auto
    then obtain n k' where w: "k_send K (sock_fd s) (drop sent buffer) k = (Sent n, k')"
      "0 < n" "n \<le> length (drop sent buffer)" "written k' = written k @ take n (drop sent buffer)"
      using assms(1) unfolding writable_stream_def by meson
    have step: "send_loop K buffer sent (s, k) = send_loop K buffer (sent + n) (s, k')"
      using more(1) w(1) by (subst send_loop.simps) simp
    have "length buffer - (sent + n) < length buffer - sent" "sent + n \<le> length buffer"
      using w(2,3) more(1) by auto
    then obtain k'' where "send_loop K buffer (sent + n) (s, k') = Some (Inr (), (s, k''))"
      "written k'' = written k' @ drop (sent + n) buffer" "keep k'' = keep k'"
      using less.hyps by blast
    moreover have "take n (drop sent buffer) @ drop (sent + n) buffer = drop sent buffer"
      by (metis add.commute append_take_drop_id drop_drop)
    ultimately show ?thesis using step w(4) keep [rule_format, OF w(1)] by simp
  qed
qed

lemma recv_all_stream_keep:
  assumes "readable_stream K (sock_fd s) unread" "open_socket s" "n \<le> length (unread k)"
    and keep: "\<forall>n k bs k'. k_recv K (sock_fd s) n k = (Received bs, k') \<and> unread k = bs @ unread k' \<longrightarrow>
      keep k' = keep k"
  shows "\<exists>k'. recv_all K n (s, k) = Some (Inr (take n (unread k)), (s, k')) \<and>
    unread k' = drop n (unread k) \<and> keep k' = keep k"
  using recv_loop_stream_keep [where keep = keep, OF assms(1), of "[]" n k] assms(2-4)
  by (simp add: recv_all_def io_defs check_socket_def open_socket_def)

lemma send_all_stream_keep:
  assumes "writable_stream K (sock_fd s) written" "open_socket s"
    and keep: "\<forall>buf k n k'. k_send K (sock_fd s) buf k = (Sent n, k') \<longrightarrow> keep k' = keep k"
  shows "\<exists>k'. send_all K buffer (s, k) = Some (Inr (), (s, k')) \<and> written k' = written k @ buffer \<and>
    keep k' = keep k"
  using send_loop_stream_keep [where keep = keep, OF assms(1), of 0 buffer k] assms(2,3)
  by (simp add: send_all_def io_defs check_socket_def open_socket_def)

lemmas recv_all_stream = recv_all_stream_keep [where keep = "\<lambda>_. ()", simplified]
lemmas send_all_stream = send_all_stream_keep [where keep = "\<lambda>_. ()", simplified]

end
