(* ===== verification/Message.thy ===== *)
theory Message
  imports Tcp_Socket
begin

text \<open>
  The framing of messages: \<^verbatim>\<open>write_message\<close> and \<^verbatim>\<open>read_message\<close> of
  \<^verbatim>\<open>src/common/message.hpp\<close>, and the server's reader of a client's first message,
  \<^verbatim>\<open>handle_barely_connected_socket_read\<close> of \<^verbatim>\<open>src/rsg/serve.cpp\<close>, which takes what one
  read returns and keeps the rest for the next call. The byte order of the machine and the
  Protocol Buffers encoding of the messages are parameters.
\<close>

unbundle bit_operations_syntax

section \<open>The header\<close>

text \<open>The bytes of a 32-bit number in memory; \<open>little\<close> is the byte order.\<close>

definition header_bytes :: "bool \<Rightarrow> u32 \<Rightarrow> bytes" where
  "header_bytes little n =
     (let bs = map (\<lambda>i. ucast (drop_bit (8 * i) n)) [0, 1, 2, 3] in if little then bs else rev bs)"

definition header_value :: "bool \<Rightarrow> bytes \<Rightarrow> u32" where
  "header_value little bs =
     foldr (\<lambda>b n. ucast b OR push_bit 8 n) (if little then bs else rev bs) 0"

lemma length_header_bytes [simp]: "length (header_bytes little n) = 4"
  by (simp add: header_bytes_def Let_def)

lemma header_value_bytes [simp]: "header_value little (header_bytes little n) = n"
proof (rule bit_eqI)
  fix k assume "possible_bit TYPE(32 word) k"
  then have "k < 32" by simp
  then consider "k < 8" | "8 \<le> k" "k < 16" | "16 \<le> k" "k < 24" | "24 \<le> k" "k < 32" by linarith
  then show "bit (header_value little (header_bytes little n)) k \<longleftrightarrow> bit n k"
    by cases (auto simp: header_value_def header_bytes_def bit_simps)
qed

definition max_content_size :: nat where
  "max_content_size = 16777216"

section \<open>Messages\<close>

text \<open>
  The generated encoder and decoder of a message type, and the message all of whose fields are
  unset. The encoder refuses messages of 2 GiB and more.
\<close>

record 'm codec =
  serialize :: "'m \<Rightarrow> bytes"
  parse :: "bytes \<Rightarrow> 'm option"
  default_message :: 'm

definition max_serialized_size :: nat where
  "max_serialized_size = 2 ^ 31 - 1"

text \<open>What Protocol Buffers documents: decoding inverts encoding, and only the default message
  may be encoded by no byte.\<close>

definition codec_ok :: "'m codec \<Rightarrow> bool" where
  "codec_ok C \<longleftrightarrow> (\<forall>m. parse C (serialize C m) = Some m) \<and>
     (\<forall>m. serialize C m = [] \<longrightarrow> m = default_message C)"

text \<open>The buffer has the size of the message plus four, computed on 32 bits.\<close>

definition frame :: "bool \<Rightarrow> bytes \<Rightarrow> bytes" where
  "frame little content = header_bytes little (of_nat (length content)) @ content"

definition write_message :: "'k kernel \<Rightarrow> bool \<Rightarrow> 'm codec \<Rightarrow> 'm \<Rightarrow> ('k socket_state, unit) io" where
  "write_message K little C message =
     (let content = serialize C message in
      bind_io (enforce_io (length content \<le> max_serialized_size) ''Could not serialize Protobuf message'')
        (\<lambda>_. send_all K (frame little content)))"

definition read_message :: "'k kernel \<Rightarrow> bool \<Rightarrow> 'm codec \<Rightarrow> ('k socket_state, 'm) io" where
  "read_message K little C =
     bind_io (recv_all K 4) (\<lambda>header.
       let content_size = unat (header_value little header) in
       bind_io (enforce_io (content_size < max_content_size)
          ''Read invalid message content size (%u). Expected it to be in [0,%u]'') (\<lambda>_.
       if content_size = 0 then return_io (default_message C)
       else bind_io (recv_all K content_size) (\<lambda>content.
          case parse C content of
            None \<Rightarrow> raise_io ''Could not deserialize Protobuf message of content_size=%u''
          | Some message \<Rightarrow> return_io message)))"

lemma unat_of_length: "length c < 2 ^ 32 \<Longrightarrow> unat (of_nat (length c) :: u32) = length c"
  by (simp add: unat_of_nat)

lemma header_content:
  "length c < 2 ^ 32 \<Longrightarrow>
     unat (header_value little (take 4 (frame little c @ rest))) = length c"
  by (simp add: frame_def unat_of_length)

lemma length_frame [simp]: "length (frame little c) = length c + 4"
  by (simp add: frame_def)

text \<open>Reading a frame: the header, then the content.\<close>

lemma read_message_frame_keep:
  assumes "readable_stream K (sock_fd s) unread" "open_socket s"
    "unread k = frame little c @ rest" "length c < 2 ^ 32"
    and keep: "\<forall>n k bs k'. k_recv K (sock_fd s) n k = (Received bs, k') \<and> unread k = bs @ unread k' \<longrightarrow>
      keep k' = keep k"
  shows "\<exists>k1 k2. unread k1 = c @ rest \<and> unread k2 = rest \<and> keep k1 = keep k \<and> keep k2 = keep k \<and> read_message K little C (s, k) =
     (if max_content_size \<le> length c
      then raise_io ''Read invalid message content size (%u). Expected it to be in [0,%u]'' (s, k1)
      else if c = [] then return_io (default_message C) (s, k1)
      else (case parse C c of
         None \<Rightarrow> raise_io ''Could not deserialize Protobuf message of content_size=%u'' (s, k2)
       | Some m \<Rightarrow> return_io m (s, k2)))"
proof -
  obtain k1 where k1: "recv_all K 4 (s, k) = Some (Inr (take 4 (unread k)), (s, k1))"
    "unread k1 = drop 4 (unread k)" "keep k1 = keep k"
    using recv_all_stream_keep [where keep = keep, OF assms(1,2), of 4 k] assms(3) keep by auto
  have u1: "unread k1 = c @ rest" using k1(2) assms(3) by (simp add: frame_def)
  then obtain k2 where k2: "recv_all K (length c) (s, k1) = Some (Inr c, (s, k2))" "unread k2 = rest"
    "keep k2 = keep k1"
    using recv_all_stream_keep [where keep = keep, OF assms(1,2), of "length c" k1] keep by auto
  have "unat (header_value little (take 4 (unread k))) = length c"
    using header_content [OF assms(4)] assms(3) by simp
  with k1 k2 u1 show ?thesis
    by (intro exI [of _ k1] exI [of _ k2])
      (auto simp: read_message_def io_defs Let_def split: option.splits)
qed

lemma keep_unit: "\<forall>n k bs k'. P n k bs k' \<longrightarrow> () = ()"
  by simp

lemmas read_message_frame = read_message_frame_keep [where keep = "\<lambda>_. ()", OF _ _ _ _ keep_unit]

text \<open>What the reader makes of a content.\<close>

definition decodes :: "'m codec \<Rightarrow> bytes \<Rightarrow> 'm \<Rightarrow> bool" where
  "decodes C c m \<longleftrightarrow> (if c = [] then m = default_message C else parse C c = Some m)"

lemma codec_ok_decodes: "codec_ok C \<Longrightarrow> decodes C (serialize C m) m"
  by (auto simp: codec_ok_def decodes_def)

lemma read_message_ok_keep:
  assumes "readable_stream K (sock_fd s) unread" "open_socket s" "decodes C (serialize C m) m"
    "length (serialize C m) < max_content_size" "unread k = frame little (serialize C m) @ rest"
    and keep: "\<forall>n k bs k'. k_recv K (sock_fd s) n k = (Received bs, k') \<and> unread k = bs @ unread k' \<longrightarrow>
      keep k' = keep k"
  shows "\<exists>k2. read_message K little C (s, k) = Some (Inr m, (s, k2)) \<and> unread k2 = rest \<and> keep k2 = keep k"
proof -
  have "length (serialize C m) < 2 ^ 32" using assms(4) by (simp add: max_content_size_def)
  from read_message_frame_keep [where keep = keep, OF assms(1,2,5) this keep, where C = C] assms(3,4) show ?thesis
    by (cases "serialize C m = []") (auto simp: decodes_def return_io_def)
qed

lemmas read_message_ok = read_message_ok_keep [where keep = "\<lambda>_. ()", OF _ _ _ _ _ keep_unit]

text \<open>
  A connection to a program that answers: what it has sent is a function of what it has been
  sent, \<open>taken\<close> bytes of it have been read. A request and its reply are an \<open>exchange\<close>.
\<close>

definition peer :: "'k kernel \<Rightarrow> int \<Rightarrow> ('k \<Rightarrow> bytes) \<Rightarrow> ('k \<Rightarrow> nat) \<Rightarrow> (bytes \<Rightarrow> bytes) \<Rightarrow> bool" where
  "peer K fd written taken answers \<longleftrightarrow>
     readable_stream K fd (\<lambda>k. drop (taken k) (answers (written k))) \<and> writable_stream K fd written \<and>
     (\<forall>buf k n k'. k_send K fd buf k = (Sent n, k') \<longrightarrow> taken k' = taken k) \<and>
     (\<forall>n k bs k'. k_recv K fd n k = (Received bs, k') \<longrightarrow>
        written k' = written k \<and> taken k' = taken k + length bs)"

lemma write_message_peer:
  assumes "peer K (sock_fd s) written taken answers" "open_socket s"
    "length (serialize C m) < max_content_size"
  shows "\<exists>k1. write_message K little C m (s, k) = Some (Inr (), (s, k1)) \<and>
    written k1 = written k @ frame little (serialize C m) \<and> taken k1 = taken k"
  using send_all_stream_keep [where keep = taken, of K s written "frame little (serialize C m)" k] assms
  by (auto simp: peer_def write_message_def io_defs Let_def max_content_size_def max_serialized_size_def)

lemma exchange:
  assumes "peer K (sock_fd s) written taken answers" "open_socket s" "decodes C' (serialize C' m') m'"
    "length (serialize C m) < max_content_size" "length (serialize C' m') < max_content_size"
    "drop (taken k) (answers (written k @ frame little (serialize C m))) = frame little (serialize C' m') @ rest"
  shows "\<exists>k1 k2. write_message K little C m (s, k) = Some (Inr (), (s, k1)) \<and>
    read_message K little C' (s, k1) = Some (Inr m', (s, k2)) \<and>
    written k2 = written k @ frame little (serialize C m) \<and>
    taken k2 = taken k + length (frame little (serialize C' m')) \<and>
    drop (taken k2) (answers (written k2)) = rest"
proof -
  obtain k1 where k1: "write_message K little C m (s, k) = Some (Inr (), (s, k1))"
    "written k1 = written k @ frame little (serialize C m)" "taken k1 = taken k"
    using write_message_peer [OF assms(1,2,4)] by blast
  let ?unread = "\<lambda>k. drop (taken k) (answers (written k))"
  have u: "?unread k1 = frame little (serialize C' m') @ rest" using k1 assms(6) by simp
  have "readable_stream K (sock_fd s) ?unread"
    "\<forall>n k bs k'. k_recv K (sock_fd s) n k = (Received bs, k') \<and> ?unread k = bs @ ?unread k' \<longrightarrow>
      (written k', taken k' + length (?unread k')) = (written k, taken k + length (?unread k))"
    using assms(1) unfolding peer_def by (auto simp del: length_drop)
  from read_message_ok_keep [where keep = "\<lambda>k. (written k, taken k + length (?unread k))", OF this(1) assms(2,3,5) u this(2)]
  obtain k2 where "read_message K little C' (s, k1) = Some (Inr m', (s, k2))" "?unread k2 = rest"
    "written k2 = written k1" "taken k2 + length (?unread k2) = taken k1 + length (?unread k1)"
    by (auto simp del: length_drop)
  with k1 u show ?thesis by (auto simp del: length_drop)
qed

text \<open>C17: a message that is written on a connection is read at its other end, whatever pieces the
  two systems cut the stream into, and what follows it on the stream is left for the next read.\<close>

theorem message_roundtrip:
  assumes "codec_ok C" "length (serialize C m) < max_content_size"
    and "writable_stream K (sock_fd s) written" "open_socket s"
    and "readable_stream K' (sock_fd s') unread" "open_socket s'"
  shows "\<exists>k1. write_message K little C m (s, k) = Some (Inr (), (s, k1)) \<and>
    (\<forall>k' rest. written k @ unread k' = written k1 @ rest \<longrightarrow>
      (\<exists>k2. read_message K' little C (s', k') = Some (Inr m, (s', k2)) \<and> unread k2 = rest))"
proof -
  let ?c = "serialize C m"
  have len: "length ?c \<le> max_serialized_size"
    using assms(2) by (simp add: max_content_size_def max_serialized_size_def)
  obtain k1 where k1: "send_all K (frame little ?c) (s, k) = Some (Inr (), (s, k1))"
    "written k1 = written k @ frame little ?c"
    using send_all_stream [OF assms(3,4)] by blast
  have "\<exists>k2. read_message K' little C (s', k') = Some (Inr m, (s', k2)) \<and> unread k2 = rest"
    if "written k @ unread k' = written k1 @ rest" for k' rest
  proof -
    have "unread k' = frame little ?c @ rest" using that k1(2) by simp
    from read_message_ok [OF assms(5,6) codec_ok_decodes [OF assms(1)] assms(2) this] show ?thesis by simp
  qed
  with k1 len show ?thesis by (auto simp: write_message_def io_defs Let_def)
qed

text \<open>C35: the writer does not check the limit of the reader: a message of 2^24 bytes or more is sent
  whole, and makes the reader fail after its header, with the content still on the stream.\<close>

theorem oversized_message_breaks_the_connection:
  assumes "max_content_size \<le> length (serialize C m)" "length (serialize C m) \<le> max_serialized_size"
    and "writable_stream K (sock_fd s) written" "open_socket s"
    and "readable_stream K' (sock_fd s') unread" "open_socket s'"
  shows "\<exists>k1. write_message K little C m (s, k) = Some (Inr (), (s, k1)) \<and>
    (\<forall>k' rest. written k @ unread k' = written k1 @ rest \<longrightarrow>
      (\<exists>k2. read_message K' little C (s', k') =
         Some (Inl ''Read invalid message content size (%u). Expected it to be in [0,%u]'', (s', k2)) \<and>
       unread k2 = serialize C m @ rest))"
proof -
  let ?c = "serialize C m"
  have len: "length ?c < 2 ^ 32" using assms(2) by (simp add: max_serialized_size_def)
  obtain k1 where k1: "send_all K (frame little ?c) (s, k) = Some (Inr (), (s, k1))"
    "written k1 = written k @ frame little ?c"
    using send_all_stream [OF assms(3,4)] by blast
  have "\<exists>k2. read_message K' little C (s', k') =
       Some (Inl ''Read invalid message content size (%u). Expected it to be in [0,%u]'', (s', k2)) \<and>
     unread k2 = ?c @ rest"
    if "written k @ unread k' = written k1 @ rest" for k' rest
  proof -
    have "unread k' = frame little ?c @ rest" using that k1(2) by simp
    from read_message_frame [OF assms(5,6) this len, where C = C] assms(1) show ?thesis
      by (auto simp: raise_io_def)
  qed
  with k1 assms(2) show ?thesis by (auto simp: write_message_def io_defs Let_def)
qed

section \<open>An example of a system\<close>

text \<open>
  A pipe that transfers at most \<open>c\<close> bytes per call and blocks when it is empty, and a message type
  whose encoding is the message itself.
\<close>

definition pipe_kernel :: "nat \<Rightarrow> bytes kernel" where
  "pipe_kernel c = \<lparr>k_socket = (\<lambda>k. (3, k)),
     k_recv = (\<lambda>fd n k. if k = [] then (Recv_blocks, k) else (Received (take (min n c) k), drop (min n c) k)),
     k_send = (\<lambda>fd buf k. (Sent (min c (length buf)), k @ take c buf)),
     k_close = (\<lambda>fd k. (True, k)), k_shutdown = (\<lambda>fd r s k. (True, k)), k_inet_pton = (\<lambda>a k. (1, k)),
     k_connect = (\<lambda>fd a p k. (True, k)), k_setsockopt = (\<lambda>fd opt k. (True, k)),
     k_bind = (\<lambda>fd p k. (True, k)), k_listen = (\<lambda>fd n k. (True, k)), k_accept = (\<lambda>fd k. (4, k))\<rparr>"

definition raw_codec :: "bytes codec" where
  "raw_codec = \<lparr>serialize = id, parse = Some, default_message = []\<rparr>"

lemma raw_codec_ok: "codec_ok raw_codec"
  by (simp add: codec_ok_def raw_codec_def)

lemma pipe_streams:
  assumes "0 < c"
  shows "readable_stream (pipe_kernel c) fd id" "writable_stream (pipe_kernel c) fd id"
  using assms by (auto simp: readable_stream_def writable_stream_def pipe_kernel_def min_def)

definition example_socket :: tcp_socket where
  "example_socket = tcp_socket_of_fd 3"

lemma example_socket_open: "open_socket example_socket"
  by (simp add: open_socket_def example_socket_def tcp_socket_of_fd_def new_socket_def)

theorem message_roundtrip_witness:
  "\<exists>k1 k2. write_message (pipe_kernel 2) True raw_codec [7, 0, 9] (example_socket, []) =
       Some (Inr (), (example_socket, k1)) \<and>
     read_message (pipe_kernel 3) True raw_codec (example_socket, k1 @ [5]) =
       Some (Inr [7, 0, 9], (example_socket, k2)) \<and> k2 = [5]"
proof -
  have "length (serialize raw_codec [7, 0, 9]) < max_content_size"
    by (simp add: raw_codec_def max_content_size_def)
  note * = message_roundtrip [OF raw_codec_ok this pipe_streams(2) [of 2] example_socket_open
      pipe_streams(1) [of 3] example_socket_open, of True "[]"]
  from * obtain k1 where k1: "write_message (pipe_kernel 2) True raw_codec [7, 0, 9] (example_socket, []) =
       Some (Inr (), (example_socket, k1))"
    "\<forall>k' rest. id [] @ id k' = id k1 @ rest \<longrightarrow> (\<exists>k2. read_message (pipe_kernel 3) True raw_codec
      (example_socket, k') = Some (Inr [7, 0, 9], (example_socket, k2)) \<and> id k2 = rest)" by auto
  from k1(2) [rule_format, of "k1 @ [5]" "[5]"] k1(1) show ?thesis by auto
qed

theorem oversized_message_breaks_the_connection_witness:
  "\<exists>k1 k2. write_message (pipe_kernel 9) False raw_codec (replicate (2 ^ 24) 1) (example_socket, []) =
       Some (Inr (), (example_socket, k1)) \<and>
     read_message (pipe_kernel 7) False raw_codec (example_socket, k1) =
       Some (Inl ''Read invalid message content size (%u). Expected it to be in [0,%u]'', (example_socket, k2))"
proof -
  have "max_content_size \<le> length (serialize raw_codec (replicate (2 ^ 24) 1))"
    "length (serialize raw_codec (replicate (2 ^ 24) 1)) \<le> max_serialized_size"
    by (simp_all add: raw_codec_def max_content_size_def max_serialized_size_def)
  from oversized_message_breaks_the_connection [OF this pipe_streams(2) [of 9] example_socket_open
      pipe_streams(1) [of 7] example_socket_open, of False "[]"]
  obtain k1 where "write_message (pipe_kernel 9) False raw_codec (replicate (2 ^ 24) 1) (example_socket, []) =
       Some (Inr (), (example_socket, k1))"
    "\<forall>k' rest. id [] @ id k' = id k1 @ rest \<longrightarrow> (\<exists>k2. read_message (pipe_kernel 7) False raw_codec
      (example_socket, k') = Some (Inl ''Read invalid message content size (%u). Expected it to be in [0,%u]'',
      (example_socket, k2)) \<and> id k2 = serialize raw_codec (replicate (2 ^ 24) 1) @ rest)" by auto
  from this(2) [rule_format, of k1 "[]"] this(1) show ?thesis by auto
qed

end
