(* ===== verification/Client_Connection.thy ===== *)
theory Client_Connection
  imports Message Protocol
begin

text \<open>
  The client's connection to the server (\<^verbatim>\<open>src/librsg/connection.cpp\<close>): where it finds the
  server, its actor and its thinking time (environment variables), how it connects, sends a
  decision and disconnects. The environment, the clock, \<^verbatim>\<open>strtod\<close> and the system are
  parameters.
\<close>

section \<open>Integers as text\<close>

definition is_digit :: "char \<Rightarrow> bool" where
  "is_digit c \<longleftrightarrow> 48 \<le> (of_char c :: nat) \<and> (of_char c :: nat) \<le> 57"

definition is_space :: "char \<Rightarrow> bool" where
  "is_space c \<longleftrightarrow> (of_char c :: nat) \<in> {9, 10, 11, 12, 13, 32}"

definition digits_value :: "string \<Rightarrow> nat" where
  "digits_value ds = foldl (\<lambda>n c. 10 * n + ((of_char c :: nat) - 48)) 0 ds"

text \<open>
  \<^verbatim>\<open>std::stoi\<close>: leading white space, a sign, digits, the rest is ignored; None when it throws
  (a \<^verbatim>\<open>std::logic_error\<close>): no digit, or a value that does not fit.
\<close>

definition fits_int :: "int \<Rightarrow> int option" where
  "fits_int i = (if - (2 ^ 31) \<le> i \<and> i < 2 ^ 31 then Some i else None)"

definition stoi_digits :: "bool \<Rightarrow> string \<Rightarrow> int option" where
  "stoi_digits negative s =
     (let ds = takeWhile is_digit s in
      if ds = [] then None
      else fits_int (if negative then - int (digits_value ds) else int (digits_value ds)))"

definition stoi :: "string \<Rightarrow> int option" where
  "stoi s = (case dropWhile is_space s of
      [] \<Rightarrow> None
    | c # cs \<Rightarrow> if c = CHR ''-'' then stoi_digits True cs
                else if c = CHR ''+'' then stoi_digits False cs
                else stoi_digits False (c # cs))"

text \<open>\<^verbatim>\<open>%d\<close>\<close>

fun decimal_nat :: "nat \<Rightarrow> string" where
  "decimal_nat n = (if n < 10 then [char_of (48 + n)] else decimal_nat (n div 10) @ [char_of (48 + n mod 10)])"

declare decimal_nat.simps [simp del]

definition decimal :: "int \<Rightarrow> string" where
  "decimal i = (if i < 0 then CHR ''-'' # decimal_nat (nat (- i)) else decimal_nat (nat i))"

lemma digit_char:
  assumes "n < 10"
  shows "is_digit (char_of (48 + n))" "(of_char (char_of (48 + n) :: char) :: nat) = 48 + n"
proof -
  show v: "(of_char (char_of (48 + n) :: char) :: nat) = 48 + n"
    using assms by (simp add: of_char_of take_bit_eq_mod)
  show "is_digit (char_of (48 + n))" using assms by (simp add: is_digit_def v)
qed

lemma decimal_nat_digits:
  "(\<forall>c \<in> set (decimal_nat n). is_digit c) \<and> decimal_nat n \<noteq> [] \<and> digits_value (decimal_nat n) = n"
proof (induction n rule: decimal_nat.induct)
  case (1 n)
  show ?case
  proof (cases "n < 10")
    case True
    then show ?thesis
      by (subst (1 2 3) decimal_nat.simps) (simp add: digit_char digits_value_def)
  next
    case False
    then have IH: "\<forall>c \<in> set (decimal_nat (n div 10)). is_digit c" "decimal_nat (n div 10) \<noteq> []"
      "digits_value (decimal_nat (n div 10)) = n div 10" using 1 by simp_all
    have eq: "decimal_nat n = decimal_nat (n div 10) @ [char_of (48 + n mod 10)]"
      using False by (subst decimal_nat.simps) simp
    have "digits_value (decimal_nat n) = 10 * (n div 10) + n mod 10"
      unfolding eq using IH(3) by (simp add: digits_value_def digit_char)
    then show ?thesis unfolding eq using IH(1,2) by (simp add: digit_char)
  qed
qed

lemma stoi_decimal:
  assumes "- (2 ^ 31) \<le> i" "i < 2 ^ 31"
  shows "stoi (decimal i) = Some i"
proof -
  note d = decimal_nat_digits [THEN conjunct1] decimal_nat_digits [THEN conjunct2, THEN conjunct1]
    decimal_nat_digits [THEN conjunct2, THEN conjunct2]
  have run: "stoi_digits b (decimal_nat n) = fits_int (if b then - int n else int n)" for b n
  proof -
    have "takeWhile is_digit (decimal_nat n) = decimal_nat n" using d(1) by (simp add: takeWhile_eq_all_conv)
    then show ?thesis using d(2,3) unfolding stoi_digits_def Let_def by presburger
  qed
  show ?thesis
  proof (cases "i < 0")
    case True
    have "\<not> is_space CHR ''-''" by (simp add: is_space_def)
    with True assms show ?thesis by (simp add: decimal_def stoi_def run fits_int_def)
  next
    case False
    obtain c cs where c: "decimal_nat (nat i) = c # cs" using d(2) by (cases "decimal_nat (nat i)") auto
    have "is_digit c" using d(1) [of "nat i"] c by simp
    then have "\<not> is_space c" "c \<noteq> CHR ''-''" "c \<noteq> CHR ''+''"
      by (auto simp: is_space_def is_digit_def)
    then have "stoi (decimal i) = stoi_digits False (decimal_nat (nat i))"
      using False c by (simp add: decimal_def stoi_def)
    with False assms show ?thesis by (simp add: run fits_int_def)
  qed
qed

section \<open>The environment\<close>

type_synonym environment = "string \<Rightarrow> string option"

text \<open>An error's text: formatted, cut at 1023 characters.\<close>

definition error_text :: "string \<Rightarrow> rsg_error" where
  "error_text s = take 1023 (c_str s)"

definition quoted :: "string \<Rightarrow> string" where
  "quoted s = [CHR 0x27] @ s @ [CHR 0x27]"

definition retrieve_initial_actor_id_from_env :: "environment \<Rightarrow> rsg_error + int" where
  "retrieve_initial_actor_id_from_env getenv = (case getenv ''RSG_INITIAL_ACTOR_ID'' of
      None \<Rightarrow> Inl (error_text ''Invalid RSG connection initialization: RSG_INITIAL_ACTOR_ID is not set.'')
    | Some v \<Rightarrow> (case stoi v of
        None \<Rightarrow> Inl (error_text (''Invalid RSG connection initialization: RSG_INITIAL_ACTOR_ID ('' @
          quoted v @ '') is not a valid actor id''))
      | Some i \<Rightarrow> Inr i))"

text \<open>The host name and port found so far, which the caller keeps on an error, and the actor.\<close>

definition retrieve_rsg_connection_params_from_env ::
    "environment \<Rightarrow> (string \<times> u16) \<times> (rsg_error + int)" where
  "retrieve_rsg_connection_params_from_env getenv = (case getenv ''RSG_SERVER_HOSTNAME'' of
      None \<Rightarrow> (('''', 0),
        Inl (error_text ''Invalid RSG connection initialization: RSG_SERVER_HOSTNAME is not set.''))
    | Some server_hostname \<Rightarrow> (case getenv ''RSG_SERVER_PORT'' of
        None \<Rightarrow> ((server_hostname, 0),
          Inl (error_text ''Invalid RSG connection initialization: RSG_SERVER_PORT is not set.''))
      | Some v \<Rightarrow> (case stoi v of
          None \<Rightarrow> ((server_hostname, 0),
            Inl (error_text (''Invalid RSG connection initialization: RSG_SERVER_PORT ('' @
              quoted v @ '') is not a valid port'')))
        | Some p \<Rightarrow> ((server_hostname, word_of_int p), retrieve_initial_actor_id_from_env getenv))))"

text \<open>\<^verbatim>\<open>strtod\<close>: the value, the number of characters used, whether it is out of range.\<close>

type_synonym strtod = "string \<Rightarrow> double \<times> nat \<times> bool"

definition valid_think_time :: "strtod \<Rightarrow> string \<Rightarrow> bool" where
  "valid_think_time strtod s = (case strtod s of (d, used, erange) \<Rightarrow>
     0 < used \<and> used = length s \<and> \<not> erange)"

definition retrieve_rsg_think_time_from_env :: "strtod \<Rightarrow> environment \<Rightarrow> rsg_error + bool \<times> double" where
  "retrieve_rsg_think_time_from_env strtod getenv = (case getenv ''RSG_THINK_TIME'' of
      None \<Rightarrow> Inr (False, Finite 0)
    | Some s \<Rightarrow>
        if s = ''AS_MEASURED_BY_CLIENT'' then Inr (True, Finite 0)
        else if \<not> valid_think_time strtod s
        then Inl (error_text (''RSG_THINK_TIME ('' @ quoted s @ '') is not a valid double''))
        else if \<not> double_ge0 (fst (strtod s))
        then Inl ''RSG_THINK_TIME (%g) should not be negative''
        else Inr (False, fst (strtod s)))"

section \<open>Connecting\<close>

text \<open>
  \<^verbatim>\<open>rsg::connect\<close> up to the construction of the connection. When the actor identifier is
  missing or invalid, \<^verbatim>\<open>rsg kill\<close> is run: the effect is the command line, at most 127
  characters, or a null pointer given to \<^verbatim>\<open>%s\<close>, which C leaves undefined; \<^verbatim>\<open>sys\<close> is
  what \<^verbatim>\<open>system\<close> returns.
\<close>

datatype connect_effect = System string | Null_formatted

definition kill_command :: "string \<Rightarrow> string \<Rightarrow> u16 \<Rightarrow> string" where
  "kill_command actor_id server_hostname port =
     take 127 (''rsg kill --reason='' @ [CHR 0x22] @ ''could not connect: invalid actor_id '' @ quoted actor_id @
       [CHR 0x22] @ '' -h '' @ server_hostname @ '' -p '' @ decimal (uint port))"

fun contains_text :: "string \<Rightarrow> string \<Rightarrow> bool" where
  "contains_text s [] \<longleftrightarrow> s = []"
| "contains_text s (c # cs) \<longleftrightarrow> take (length s) (c # cs) = s \<or> contains_text s cs"

definition rsg_connect :: "environment \<Rightarrow> int \<Rightarrow> bool \<Rightarrow> int \<Rightarrow>
    connect_effect list \<times> (rsg_error + string \<times> u16 \<times> int)" where
  "rsg_connect getenv sys has_connection actor_id =
     (if has_connection then ([], Inl ''Invalid rsg::connect() call: Already connected!'')
      else case retrieve_rsg_connection_params_from_env getenv of
          ((server_hostname, port), Inl e) \<Rightarrow>
            if contains_text ''RSG_INITIAL_ACTOR_ID'' e
            then ([case getenv ''RSG_INITIAL_ACTOR_ID'' of
                     None \<Rightarrow> Null_formatted
                   | Some v \<Rightarrow> System (kill_command v server_hostname port)],
                  if sys = -1 then Inl ''Could not kill server: Could not execute a `rsg` process.''
                  else if sys \<noteq> 0 \<and> sys \<noteq> 1 then Inl ''Could not kill server: `rsg kill` returned %d''
                  else Inl e)
            else ([], Inl e)
        | ((server_hostname, port), Inr env_actor_id) \<Rightarrow>
            ([], Inr (server_hostname, port, if actor_id = -1 then env_actor_id else actor_id)))"

section \<open>The connection\<close>

text \<open>Everything the connection uses that is not code of the repository.\<close>

record 'k platform =
  os :: "'k kernel"
  little_endian :: bool
  command_codec :: "command codec"
  command_ack_codec :: "command_ack codec"
  decision_codec :: "decision codec"
  decision_ack_codec :: "decision_ack codec"
  steady_clock :: "'k \<Rightarrow> int \<times> 'k"          \<comment> \<open>nanoseconds\<close>
  join_thread :: "nat \<Rightarrow> 'k \<Rightarrow> 'k option"     \<comment> \<open>None: the thread never ends\<close>

record connection =
  conn_actor_id :: int
  measure_think_time :: bool
  decision_think_time :: double
  tp_think_time_begin :: int
  child_threads :: "nat list"

type_synonym 'k conn_state = "connection \<times> tcp_socket \<times> 'k"

definition on_socket :: "('k socket_state, 'a) io \<Rightarrow> ('k conn_state, 'a) io" where
  "on_socket m st = (case st of (con, s, k) \<Rightarrow> (case m (s, k) of
      None \<Rightarrow> None
    | Some (res, (s', k')) \<Rightarrow> Some (res, (con, s', k'))))"

definition read_clock :: "'k platform \<Rightarrow> ('k conn_state, int) io" where
  "read_clock P st = (case st of (con, s, k) \<Rightarrow> (case steady_clock P k of (t, k') \<Rightarrow>
     return_io t (con, s, k')))"

text \<open>
  The connecting constructor: the socket, the command, its acknowledgment. A refusal is only
  printed. The constructor that reuses a descriptor leaves the thinking time at its defaults.
\<close>

definition new_client_connection :: "int \<Rightarrow> connection" where
  "new_client_connection i = \<lparr>conn_actor_id = i, measure_think_time = False, decision_think_time = Finite 0,
     tp_think_time_begin = 0, child_threads = []\<rparr>"

definition set_think_time_mode :: "'k platform \<Rightarrow> bool \<times> double \<Rightarrow> ('k conn_state, unit) io" where
  "set_think_time_mode P mode st = (case st of (con, s, k) \<Rightarrow>
     (let con' = con\<lparr>measure_think_time := fst mode, decision_think_time := snd mode\<rparr> in
      if fst mode
      then (case steady_clock P k of (t, k') \<Rightarrow> return_io () (con'\<lparr>tp_think_time_begin := t\<rparr>, s, k'))
      else return_io () (con', s, k)))"

definition connection_init :: "'k platform \<Rightarrow> strtod \<Rightarrow> environment \<Rightarrow> string \<Rightarrow> u16 \<Rightarrow> int \<Rightarrow>
    ('k conn_state, unit) io" where
  "connection_init P strtod getenv server_hostname port actor_id =
     bind_io (on_socket (tcp_connect (os P) server_hostname port)) (\<lambda>_.
     bind_io (on_socket (disable_nagle_algorithm (os P))) (\<lambda>_.
     bind_io (on_socket (write_message (os P) (little_endian P) (command_codec P) (KConnect actor_id))) (\<lambda>_.
     bind_io (on_socket (read_message (os P) (little_endian P) (command_ack_codec P))) (\<lambda>command_ack.
     case retrieve_rsg_think_time_from_env strtod getenv of
       Inl e \<Rightarrow> raise_io e
     | Inr mode \<Rightarrow> set_think_time_mode P mode))))"

definition client_connect :: "'k platform \<Rightarrow> strtod \<Rightarrow> environment \<Rightarrow> string \<Rightarrow> u16 \<Rightarrow> int \<Rightarrow> 'k \<Rightarrow>
    ((rsg_error + 'k conn_state) \<times> 'k) option" where
  "client_connect P strtod getenv server_hostname port actor_id k =
     (case tcp_socket_create (os P) k of
        (Inl e, k') \<Rightarrow> Some (Inl e, k')
      | (Inr s, k') \<Rightarrow>
          (case connection_init P strtod getenv server_hostname port actor_id
                  (new_client_connection actor_id, s, k') of
             None \<Rightarrow> None
           | Some (Inl e, (con, s', k'')) \<Rightarrow> Some (Inl e, k'')
           | Some (Inr _, (con, s', k'')) \<Rightarrow> Some (Inr (con, s', k''), k'')))"

definition connection_of_fd :: "int \<Rightarrow> int \<Rightarrow> connection \<times> tcp_socket" where
  "connection_of_fd fd actor_id = (new_client_connection actor_id, tcp_socket_of_fd fd)"

definition reuse_connected_socket :: "environment \<Rightarrow> bool \<Rightarrow> int \<Rightarrow> rsg_error + connection \<times> tcp_socket" where
  "reuse_connected_socket getenv has_connection fd =
     (if has_connection then Inl ''Invalid rsg::reuse_connected_socket() call: Already connected!''
      else case retrieve_initial_actor_id_from_env getenv of
          Inl e \<Rightarrow> Inl e | Inr i \<Rightarrow> Inr (connection_of_fd fd i))"

text \<open>
  \<^verbatim>\<open>send_decision\<close>: the thinking time is added to the decision, measured (nanoseconds,
  divided by 1e9; rounding is not modelled) or constant.
\<close>

definition thinking :: "connection \<Rightarrow> int \<Rightarrow> double" where
  "thinking con now = (if measure_think_time con
     then Finite (of_int (now - tp_think_time_begin con) / 10 ^ 9) else decision_think_time con)"

definition add_think_time :: "'k platform \<Rightarrow> decision \<Rightarrow> ('k conn_state, decision) io" where
  "add_think_time P d st = (case st of (con, s, k) \<Rightarrow>
     if measure_think_time con
     then bind_io (read_clock P) (\<lambda>now. return_io (d\<lparr>think_time := thinking con now\<rparr>)) st
     else return_io (d\<lparr>think_time := decision_think_time con\<rparr>) st)"

definition restart_think_time :: "'k platform \<Rightarrow> ('k conn_state, unit) io" where
  "restart_think_time P st = (case st of (con, s, k) \<Rightarrow>
     if measure_think_time con
     then (case steady_clock P k of (t, k') \<Rightarrow> return_io () (con\<lparr>tp_think_time_begin := t\<rparr>, s, k'))
     else return_io () st)"

definition send_decision :: "'k platform \<Rightarrow> decision \<Rightarrow> ('k conn_state, decision_ack) io" where
  "send_decision P d =
     bind_io (add_think_time P d) (\<lambda>d'.
     bind_io (on_socket (write_message (os P) (little_endian P) (decision_codec P) d')) (\<lambda>_.
     bind_io (on_socket (read_message (os P) (little_endian P) (decision_ack_codec P))) (\<lambda>ack.
     bind_io (restart_think_time P) (\<lambda>_. return_io ack))))"

text \<open>Every method goes through the thread's connection, and fails without one.\<close>

definition client_send :: "'k platform \<Rightarrow> decision_type \<Rightarrow> 'k conn_state option \<Rightarrow>
    ((rsg_error + decision_ack) \<times> 'k conn_state option) option" where
  "client_send P d st = (case st of
      None \<Rightarrow> Some (Inl ''Invalid librsg call: No connection to rsg server'', None)
    | Some con \<Rightarrow> (case send_decision P \<lparr>think_time = Finite 0, type_case = d\<rparr> con of
        None \<Rightarrow> None | Some (res, con') \<Rightarrow> Some (res, Some con')))"

text \<open>
  The destructor tells the server, if it can, closes the socket and waits for the threads that this
  one has created, in order; an error of the write is printed and ignored, one of the close ends the
  program.
\<close>

primrec join_all :: "'k platform \<Rightarrow> nat list \<Rightarrow> 'k \<Rightarrow> 'k option" where
  "join_all P [] k = Some k"
| "join_all P (t # ts) k = (case join_thread P t k of None \<Rightarrow> None | Some k' \<Rightarrow> join_all P ts k')"

definition disconnect :: "'k platform \<Rightarrow> ('k conn_state, unit) io" where
  "disconnect P st = (case on_socket (write_message (os P) (little_endian P) (decision_codec P)
        \<lparr>think_time = Finite 0, type_case = KQuit True\<rparr>) st of
      None \<Rightarrow> None
    | Some (res, st') \<Rightarrow>
        bind_io (on_socket (tcp_close (os P))) (\<lambda>_ (con, s, k).
          case join_all P (child_threads con) k of
            None \<Rightarrow> None
          | Some k' \<Rightarrow> return_io () (con, s, k')) st')"

section \<open>Finding the server\<close>

lemma contains_text_append: "contains_text s (p @ s @ q)"
proof (induction p)
  case Nil
  show ?case by (cases "s @ q") (auto, metis append_eq_conv_conj)
next
  case (Cons c p)
  then show ?case by simp
qed

lemma error_text_contains:
  assumes "length p + length s \<le> 1023" "CHR 0x00 \<notin> set p" "CHR 0x00 \<notin> set s"
  shows "contains_text s (error_text (p @ s @ q))"
proof -
  have "error_text (p @ s @ q) = p @ s @ take (1023 - length p - length s) (c_str q)"
    using assms by (simp add: error_text_def c_str_def takeWhile_append)
  then show ?thesis by (simp add: contains_text_append)
qed

lemma actor_id_error_is_recognised:
  assumes "retrieve_initial_actor_id_from_env getenv = Inl e"
  shows "contains_text ''RSG_INITIAL_ACTOR_ID'' e"
proof -
  have *: "contains_text ''RSG_INITIAL_ACTOR_ID''
      (error_text (''Invalid RSG connection initialization: '' @ ''RSG_INITIAL_ACTOR_ID'' @ q))" for q
    by (rule error_text_contains) simp_all
  obtain q where "e = error_text (''Invalid RSG connection initialization: '' @ ''RSG_INITIAL_ACTOR_ID'' @ q)"
    using assms by (auto simp: retrieve_initial_actor_id_from_env_def split: option.splits)
  with * show ?thesis by simp
qed

lemma kill_errors_are_others:
  "\<not> contains_text ''RSG_INITIAL_ACTOR_ID'' ''Could not kill server: Could not execute a `rsg` process.''"
  "\<not> contains_text ''RSG_INITIAL_ACTOR_ID'' ''Could not kill server: `rsg kill` returned %d''"
  by code_simp+



section \<open>Decisions and acknowledgments\<close>

text \<open>The clock does not touch the connection.\<close>

definition clock_apart :: "'k platform \<Rightarrow> ('k \<Rightarrow> bytes) \<Rightarrow> ('k \<Rightarrow> nat) \<Rightarrow> bool" where
  "clock_apart P written taken \<longleftrightarrow> (\<forall>k. written (snd (steady_clock P k)) = written k \<and>
     taken (snd (steady_clock P k)) = taken k)"

lemma add_think_time_io:
  assumes "clock_apart P written taken"
  shows "\<exists>k'. add_think_time P d (con, s, k) =
      Some (Inr (d\<lparr>think_time := thinking con (fst (steady_clock P k))\<rparr>), (con, s, k')) \<and>
    written k' = written k \<and> taken k' = taken k"
  using assms by (cases "steady_clock P k")
    (auto simp: add_think_time_def read_clock_def io_defs thinking_def clock_apart_def dest: spec [of _ k])

lemma restart_think_time_io:
  assumes "clock_apart P written taken"
  shows "\<exists>con' k'. restart_think_time P (con, s, k) = Some (Inr (), (con', s, k')) \<and>
    conn_actor_id con' = conn_actor_id con \<and> measure_think_time con' = measure_think_time con \<and>
    decision_think_time con' = decision_think_time con \<and>
    (measure_think_time con \<longrightarrow> tp_think_time_begin con' = fst (steady_clock P k)) \<and>
    written k' = written k \<and> taken k' = taken k"
  using assms by (cases "steady_clock P k")
    (auto simp: restart_think_time_def io_defs clock_apart_def dest: spec [of _ k])

text \<open>C39: sending a decision writes exactly one frame, that of the decision with the thinking time
  (measured since the last acknowledgment, or the constant one), and returns the acknowledgment that
  the server answers to it, leaving what follows on the stream; measuring restarts at its reception.\<close>

theorem send_decision_exchange:
  assumes "peer (os P) (sock_fd s) written taken answers" "open_socket s" "clock_apart P written taken"
    and "decodes (decision_ack_codec P) (serialize (decision_ack_codec P) ack) ack"
      "length (serialize (decision_ack_codec P) ack) < max_content_size"
    and "request = serialize (decision_codec P) (d\<lparr>think_time := thinking con (fst (steady_clock P k))\<rparr>)"
      "length request < max_content_size"
    and "drop (taken k) (answers (written k @ frame (little_endian P) request)) =
      frame (little_endian P) (serialize (decision_ack_codec P) ack) @ rest"
  shows "\<exists>con' k0 k'. send_decision P d (con, s, k) = Some (Inr ack, (con', s, k')) \<and>
    written k' = written k @ frame (little_endian P) request \<and>
    drop (taken k') (answers (written k')) = rest \<and>
    conn_actor_id con' = conn_actor_id con \<and> measure_think_time con' = measure_think_time con \<and>
    decision_think_time con' = decision_think_time con \<and>
    (measure_think_time con \<longrightarrow> tp_think_time_begin con' = fst (steady_clock P k0))"
proof -
  let ?d = "d\<lparr>think_time := thinking con (fst (steady_clock P k))\<rparr>"
  obtain k1 where k1: "add_think_time P d (con, s, k) = Some (Inr ?d, (con, s, k1))"
    "written k1 = written k" "taken k1 = taken k"
    using add_think_time_io [OF assms(3)] by blast
  obtain k2 k3 where k23:
    "write_message (os P) (little_endian P) (decision_codec P) ?d (s, k1) = Some (Inr (), (s, k2))"
    "read_message (os P) (little_endian P) (decision_ack_codec P) (s, k2) = Some (Inr ack, (s, k3))"
    "written k3 = written k1 @ frame (little_endian P) request"
    "drop (taken k3) (answers (written k3)) = rest"
    using exchange [OF assms(1,2,4) _ assms(5), of "decision_codec P" ?d k1 "little_endian P" rest]
      assms(6-8) k1 by auto
  obtain con' k4 where k4: "restart_think_time P (con, s, k3) = Some (Inr (), (con', s, k4))"
    "conn_actor_id con' = conn_actor_id con" "measure_think_time con' = measure_think_time con"
    "decision_think_time con' = decision_think_time con"
    "measure_think_time con \<longrightarrow> tp_think_time_begin con' = fst (steady_clock P k3)"
    "written k4 = written k3" "taken k4 = taken k3"
    using restart_think_time_io [OF assms(3)] by blast
  have "send_decision P d (con, s, k) = Some (Inr ack, (con', s, k4))"
    using k1(1) k23(1,2) k4(1) by (simp add: send_decision_def bind_io_def on_socket_def return_io_def)
  with k1 k23 k4 show ?thesis by (intro exI [of _ con'] exI [of _ k3] exI [of _ k4]) simp
qed

text \<open>
  An example of a server: it answers \<open>reply\<close> to anything of at least \<open>size_of_request\<close> bytes. The
  state is what has been written and how many bytes of the answer have been read.
\<close>

definition answering_kernel :: "(bytes \<Rightarrow> bytes) \<Rightarrow> (bytes \<times> nat) kernel" where
  "answering_kernel answers = \<lparr>k_socket = (\<lambda>k. (3, k)),
     k_recv = (\<lambda>fd n (w, t). let unread = drop t (answers w) in
        if unread = [] then (Recv_blocks, (w, t)) else (Received (take n unread), (w, t + min n (length unread)))),
     k_send = (\<lambda>fd buf (w, t). (Sent (length buf), (w @ buf, t))),
     k_close = (\<lambda>fd k. (True, k)), k_shutdown = (\<lambda>fd r s k. (True, k)), k_inet_pton = (\<lambda>a k. (1, k)),
     k_connect = (\<lambda>fd a p k. (True, k)), k_setsockopt = (\<lambda>fd opt k. (True, k)),
     k_bind = (\<lambda>fd p k. (True, k)), k_listen = (\<lambda>fd n k. (True, k)), k_accept = (\<lambda>fd k. (4, k))\<rparr>"

lemma answering_kernel_peer: "peer (answering_kernel answers) fd fst snd answers"
proof -
  have "\<exists>bs k'. k_recv (answering_kernel answers) fd n (w, t) = (Received bs, k') \<and> bs \<noteq> [] \<and> length bs \<le> n \<and>
      drop t (answers w) = bs @ drop (snd k') (answers (fst k'))"
    if "0 < n" "drop t (answers w) \<noteq> []" for n w t
  proof -
    have "drop (t + min n (length (drop t (answers w)))) (answers w) =
        drop (min n (length (drop t (answers w)))) (drop t (answers w))" by (simp add: add.commute)
    also have "\<dots> = drop n (drop t (answers w))" by (cases "n \<le> length (drop t (answers w))") auto
    finally have "drop t (answers w) = take n (drop t (answers w)) @
        drop (t + min n (length (drop t (answers w)))) (answers w)" by (metis append_take_drop_id)
    with that show ?thesis by (simp add: answering_kernel_def Let_def)
  qed
  then show ?thesis
    by (auto simp: peer_def readable_stream_def writable_stream_def answering_kernel_def Let_def
        split: if_splits prod.splits)
qed

definition constant_codec :: "'m \<Rightarrow> 'm codec" where
  "constant_codec m = \<lparr>serialize = (\<lambda>_. [1]), parse = (\<lambda>_. Some m), default_message = m\<rparr>"

definition answers_once :: "bytes \<Rightarrow> bytes \<Rightarrow> bytes" where
  "answers_once reply w = (if 5 \<le> length w then reply else [])"

definition example_platform :: "command_ack \<Rightarrow> decision_ack \<Rightarrow> (bytes \<times> nat) platform" where
  "example_platform ca da = \<lparr>os = answering_kernel (answers_once (frame True [1])), little_endian = True,
     command_codec = constant_codec (KStart True), command_ack_codec = constant_codec ca,
     decision_codec = constant_codec \<lparr>think_time = Finite 0, type_case = KQuit True\<rparr>,
     decision_ack_codec = constant_codec da, steady_clock = (\<lambda>k. (int (length (fst k)), k)),
     join_thread = (\<lambda>t. Some)\<rparr>"

theorem send_decision_exchange_witness:
  "\<exists>con' k'. send_decision (example_platform command_ack0 decision_ack0)
     \<lparr>think_time = Finite 0, type_case = KThisActorYield True\<rparr>
     (new_client_connection 1, example_socket, ([], 0)) = Some (Inr decision_ack0, (con', example_socket, k'))"
proof -
  let ?P = "example_platform command_ack0 decision_ack0"
  let ?d = "\<lparr>think_time = Finite 0, type_case = KThisActorYield True\<rparr>"
  have "peer (os ?P) (sock_fd example_socket) fst snd (answers_once (frame True [1]))"
    by (simp add: example_platform_def answering_kernel_peer)
  from send_decision_exchange [where d = ?d and con = "new_client_connection 1" and k = "([], 0)"
      and ack = decision_ack0 and rest = "[]", OF this example_socket_open _ _ _ refl]
  show ?thesis by (auto simp: example_platform_def clock_apart_def decodes_def constant_codec_def
      max_content_size_def answers_once_def)
qed

section \<open>The handshake\<close>

text \<open>A system whose address conversion, connection and options succeed, and leave the streams alone.\<close>

definition same_streams :: "('k \<Rightarrow> bytes) \<Rightarrow> ('k \<Rightarrow> nat) \<Rightarrow> 'k \<Rightarrow> 'k \<Rightarrow> bool" where
  "same_streams written taken k k' \<longleftrightarrow> written k' = written k \<and> taken k' = taken k"

definition connects :: "'k kernel \<Rightarrow> string \<Rightarrow> u16 \<Rightarrow> int \<Rightarrow> ('k \<Rightarrow> bytes) \<Rightarrow> ('k \<Rightarrow> nat) \<Rightarrow> bool" where
  "connects K address port fd written taken \<longleftrightarrow> (\<forall>k.
     (\<exists>k'. k_inet_pton K (c_str address) k = (1, k') \<and> same_streams written taken k k') \<and>
     (\<exists>k'. k_connect K fd (c_str address) port k = (True, k') \<and> same_streams written taken k k') \<and>
     (\<exists>k'. k_setsockopt K fd ''TCP_NODELAY'' k = (True, k') \<and> same_streams written taken k k'))"

lemma tcp_connect_ok:
  assumes "connects K address port (sock_fd s) written taken" "sock_fd s \<noteq> -1" "\<not> sock_connected s"
  shows "\<exists>k'. tcp_connect K address port (s, k) = Some (Inr (), (s\<lparr>sock_connected := True\<rparr>, k')) \<and>
    same_streams written taken k k'"
proof -
  obtain k1 k2 where "k_inet_pton K (c_str address) k = (1, k1)" "same_streams written taken k k1"
    "k_connect K (sock_fd s) (c_str address) port k1 = (True, k2)" "same_streams written taken k1 k2"
    using assms(1) unfolding connects_def by blast
  with assms(2,3) show ?thesis
    by (auto simp: tcp_connect_def io_defs check_socket_def sys_call_def same_streams_def)
qed

lemma disable_nagle_ok:
  assumes "connects K address port (sock_fd s) written taken" "sock_fd s \<noteq> -1"
  shows "\<exists>k'. disable_nagle_algorithm K (s, k) = Some (Inr (), (s, k')) \<and> same_streams written taken k k'"
proof -
  obtain k1 where "k_setsockopt K (sock_fd s) ''TCP_NODELAY'' k = (True, k1)" "same_streams written taken k k1"
    using assms(1) unfolding connects_def by blast
  with assms(2) show ?thesis
    by (auto simp: disable_nagle_algorithm_def io_defs check_socket_def sys_call_def)
qed

lemma set_think_time_mode_io:
  assumes "clock_apart P written taken"
  shows "\<exists>con' k'. set_think_time_mode P mode (con, s, k) = Some (Inr (), (con', s, k')) \<and>
    conn_actor_id con' = conn_actor_id con \<and> measure_think_time con' = fst mode \<and>
    decision_think_time con' = snd mode \<and> same_streams written taken k k'"
  using assms by (cases "steady_clock P k")
    (auto simp: set_think_time_mode_def io_defs clock_apart_def same_streams_def Let_def dest: spec [of _ k])

text \<open>Connecting sends the CONNECT command of the actor and nothing else, and waits for its
  acknowledgment; whether the server accepted does not matter: a refused client has a connection like
  an accepted one, and fails later. An invalid RSG_THINK_TIME is noticed after the server has
  connected the actor.\<close>

theorem connection_handshake:
  assumes "peer (os P) (sock_fd s) written taken answers" "clock_apart P written taken"
    and "connects (os P) server_hostname port (sock_fd s) written taken" "sock_fd s \<noteq> -1" "\<not> sock_connected s"
    and "decodes (command_ack_codec P) (serialize (command_ack_codec P) ack) ack"
      "length (serialize (command_ack_codec P) ack) < max_content_size"
    and "request = serialize (command_codec P) (KConnect actor_id)" "length request < max_content_size"
    and "drop (taken k) (answers (written k @ frame (little_endian P) request)) =
      frame (little_endian P) (serialize (command_ack_codec P) ack) @ rest"
  shows "\<exists>res con k'. connection_init P strtod getenv server_hostname port actor_id
      (new_client_connection actor_id, s, k) = Some (res, (con, s\<lparr>sock_connected := True\<rparr>, k')) \<and>
    written k' = written k @ frame (little_endian P) request \<and>
    taken k' = taken k + length (frame (little_endian P) (serialize (command_ack_codec P) ack)) \<and>
    drop (taken k') (answers (written k')) = rest \<and>
    (case retrieve_rsg_think_time_from_env strtod getenv of
       Inl e \<Rightarrow> res = Inl e
     | Inr mode \<Rightarrow> res = Inr () \<and> conn_actor_id con = actor_id \<and> measure_think_time con = fst mode \<and>
         decision_think_time con = snd mode)"
proof -
  let ?s = "s\<lparr>sock_connected := True\<rparr>" and ?c = "new_client_connection actor_id"
  let ?send = "write_message (os P) (little_endian P) (command_codec P) (KConnect actor_id)"
  let ?recv = "read_message (os P) (little_endian P) (command_ack_codec P)"
  obtain k1 where k1: "tcp_connect (os P) server_hostname port (s, k) = Some (Inr (), (?s, k1))"
    "same_streams written taken k k1"
    using tcp_connect_ok [OF assms(3-5)] by blast
  obtain k2 where k2: "disable_nagle_algorithm (os P) (?s, k1) = Some (Inr (), (?s, k2))"
    "same_streams written taken k1 k2"
    using disable_nagle_ok [of "os P" server_hostname port ?s written taken k1] assms(3,4) by auto
  have s: "peer (os P) (sock_fd ?s) written taken answers" "open_socket ?s"
    using assms(1,4) by (simp_all add: open_socket_def)
  obtain k3 k4 where k34: "?send (?s, k2) = Some (Inr (), (?s, k3))" "?recv (?s, k3) = Some (Inr ack, (?s, k4))"
    "written k4 = written k @ frame (little_endian P) request" "drop (taken k4) (answers (written k4)) = rest"
    "taken k4 = taken k + length (frame (little_endian P) (serialize (command_ack_codec P) ack))"
    using exchange [OF s assms(6) _ assms(7), of "command_codec P" "KConnect actor_id" k2 "little_endian P" rest]
      assms(8-10) k1(2) k2(2) by (auto simp: same_streams_def)
  have run: "connection_init P strtod getenv server_hostname port actor_id (?c, s, k) =
     (case retrieve_rsg_think_time_from_env strtod getenv of
       Inl e \<Rightarrow> raise_io e (?c, ?s, k4) | Inr mode \<Rightarrow> set_think_time_mode P mode (?c, ?s, k4))"
    using k1(1) k2(1) k34(1,2) by (simp add: connection_init_def bind_io_def on_socket_def split: sum.split)
  show ?thesis
  proof (cases "retrieve_rsg_think_time_from_env strtod getenv")
    case (Inl e)
    with run k34 show ?thesis by (simp add: raise_io_def)
  next
    case (Inr mode)
    with run k34 set_think_time_mode_io [OF assms(2), of mode ?c ?s k4] show ?thesis
      by (auto simp: same_streams_def new_client_connection_def)
  qed
qed

theorem connection_handshake_witness:
  "\<exists>con k'. connection_init (example_platform command_ack0 decision_ack0) (\<lambda>_. (Finite 0, 0, False))
     [''RSG_THINK_TIME'' \<mapsto> ''AS_MEASURED_BY_CLIENT''] ''127.0.0.1'' 35000 7
     (new_client_connection 7, new_socket\<lparr>sock_fd := 3\<rparr>, ([], 0)) =
     Some (Inr (), (con, example_socket, k')) \<and> measure_think_time con \<and> \<not> ack_success command_ack0"
proof -
  let ?P = "example_platform command_ack0 decision_ack0" and ?s = "new_socket\<lparr>sock_fd := 3\<rparr>"
  have s: "?s\<lparr>sock_connected := True\<rparr> = example_socket"
    by (simp add: example_socket_def tcp_socket_of_fd_def)
  have "peer (os ?P) (sock_fd ?s) fst snd (answers_once (frame True [1]))"
    by (simp add: example_platform_def answering_kernel_peer)
  from connection_handshake [where k = "([], 0)" and ack = command_ack0 and rest = "[]" and actor_id = 7
      and server_hostname = "''127.0.0.1''" and port = 35000 and strtod = "\<lambda>_. (Finite 0, 0, False)"
      and getenv = "[''RSG_THINK_TIME'' \<mapsto> ''AS_MEASURED_BY_CLIENT'']", OF this _ _ _ _ _ _ refl]
  show ?thesis unfolding s by (auto simp: example_platform_def clock_apart_def decodes_def constant_codec_def
      max_content_size_def answers_once_def connects_def same_streams_def answering_kernel_def
      new_socket_def retrieve_rsg_think_time_from_env_def command_ack0_def)
qed

text \<open>C40: whatever RSG_THINK_TIME holds and whatever \<^verbatim>\<open>strtod\<close> makes of it (NaN included), the
  thinking time of every decision is one that the server accepts: not negative and not NaN, as long as
  the clock does not go back.\<close>

theorem think_time_is_accepted:
  assumes "retrieve_rsg_think_time_from_env strtod getenv = Inr mode"
    and "measure_think_time con = fst mode" "decision_think_time con = snd mode"
    and "tp_think_time_begin con \<le> now"
  shows "double_ge0 (thinking con now)"
proof (cases "measure_think_time con")
  case True
  then show ?thesis using assms(4) by (simp add: thinking_def)
next
  case False
  with assms(1-3) show ?thesis
    by (auto simp: thinking_def retrieve_rsg_think_time_from_env_def split: option.splits if_splits)
qed

theorem think_time_is_accepted_witness:
  "double_ge0 (thinking \<lparr>conn_actor_id = 1, measure_think_time = False, decision_think_time = Finite (1 / 2),
     tp_think_time_begin = 0, child_threads = []\<rparr> 5)"
proof -
  have "retrieve_rsg_think_time_from_env (\<lambda>s. (Finite (1 / 2), 3, False)) [''RSG_THINK_TIME'' \<mapsto> ''0.5''] =
      Inr (False, Finite (1 / 2))"
    by (simp add: retrieve_rsg_think_time_from_env_def valid_think_time_def)
  from think_time_is_accepted [OF this] show ?thesis by simp
qed

end
