(* ===== verification/Simple_Commands.thy ===== *)
theory Simple_Commands
  imports Client_Connection
begin

text \<open>
  The commands of the command line (\<^verbatim>\<open>src/rsg/simple_commands.cpp\<close>): \<^verbatim>\<open>add_actor\<close>,
  \<^verbatim>\<open>kill\<close>, \<^verbatim>\<open>start\<close> and \<^verbatim>\<open>status\<close>. Each sends one command on a connection of
  its own and ends with an exit code; \<^verbatim>\<open>add_actor\<close> then becomes the client's program. What
  the system does for the process (\<^verbatim>\<open>fork\<close>, \<^verbatim>\<open>setenv\<close>, \<^verbatim>\<open>execvp\<close>, sleeping) is
  a parameter.
\<close>

section \<open>One command on one connection\<close>

text \<open>
  How a process ends: with an exit code and what it printed last, aborted by a destructor that
  throws, or replaced by another program with its arguments and its environment.
\<close>

datatype process_end =
    Exits int string
  | Aborts
  | Executes string "string list" environment

definition send_command :: "'k platform \<Rightarrow> command \<Rightarrow> ('k socket_state, command_ack) io" where
  "send_command P c =
     bind_io (write_message (os P) (little_endian P) (command_codec P) c) (\<lambda>_.
     read_message (os P) (little_endian P) (command_ack_codec P))"

text \<open>The \<^verbatim>\<open>try\<close> block: the socket is created first and destroyed last.\<close>

definition with_socket :: "'k platform \<Rightarrow> ('k socket_state, process_end) io \<Rightarrow> 'k \<Rightarrow> (process_end \<times> 'k) option" where
  "with_socket P body k = (case tcp_socket_create (os P) k of
      (Inl e, k') \<Rightarrow> Some (Exits 1 e, k')
    | (Inr s, k') \<Rightarrow> (case body (s, k') of
        None \<Rightarrow> None
      | Some (res, sk) \<Rightarrow> (case tcp_close (os P) sk of
          None \<Rightarrow> None
        | Some (Inl _, (s', k'')) \<Rightarrow> Some (Aborts, k'')
        | Some (Inr _, (s', k'')) \<Rightarrow> Some (case res of Inl e \<Rightarrow> Exits 1 e | Inr x \<Rightarrow> x, k''))))"

definition simple_end :: "string \<Rightarrow> command_ack \<Rightarrow> process_end" where
  "simple_end refused ack = (if ack_success ack then Exits 0 [] else Exits 1 refused)"

definition kill :: "'k platform \<Rightarrow> string \<Rightarrow> int \<Rightarrow> string \<Rightarrow> 'k \<Rightarrow> (process_end \<times> 'k) option" where
  "kill P server_hostname server_port reason = with_socket P
     (bind_io (tcp_connect (os P) server_hostname (word_of_int server_port)) (\<lambda>_.
      bind_io (send_command P (KKill reason)) (\<lambda>ack.
      return_io (simple_end ''kill refused from server'' ack))))"

definition start :: "'k platform \<Rightarrow> string \<Rightarrow> int \<Rightarrow> 'k \<Rightarrow> (process_end \<times> 'k) option" where
  "start P server_hostname server_port = with_socket P
     (bind_io (tcp_connect (os P) server_hostname (word_of_int server_port)) (\<lambda>_.
      bind_io (send_command P (KStart True)) (\<lambda>ack.
      return_io (simple_end ''start refused from server'' ack))))"

text \<open>
  \<^verbatim>\<open>status\<close> tries to connect until the timeout, in milliseconds, on one socket; the clock
  counts nanoseconds. \<^verbatim>\<open>sleep\<close> is \<^verbatim>\<open>sleep_for(1 ms)\<close>.
\<close>

partial_function (option) connect_retry ::
    "'k platform \<Rightarrow> ('k \<Rightarrow> 'k) \<Rightarrow> int \<Rightarrow> int \<Rightarrow> string \<Rightarrow> u16 \<Rightarrow> ('k socket_state, unit) io" where
  "connect_retry P sleep t0 timeout server_hostname port sk =
     (case tcp_connect (os P) server_hostname port sk of
        None \<Rightarrow> None
      | Some (Inr _, sk') \<Rightarrow> Some (Inr (), sk')
      | Some (Inl e, (s, k)) \<Rightarrow> (case steady_clock P k of (t, k') \<Rightarrow>
          if t - t0 < timeout * 10 ^ 6
          then connect_retry P sleep t0 timeout server_hostname port (s, sleep k')
          else Some (Inl e, (s, k'))))"

definition status_text :: "u32 \<Rightarrow> string" where
  "status_text n = ''{'' @ [CHR 0x22] @ ''nb_connected_actors'' @ [CHR 0x22] @ '':'' @ decimal (uint n) @ ''}''"

definition status_end :: "command_ack \<Rightarrow> process_end" where
  "status_end ack = (if \<not> ack_success ack then Exits 1 ''status refused from server''
     else Exits 0 (status_text (case ack_status ack of None \<Rightarrow> 0 | Some n \<Rightarrow> n)))"

definition status :: "'k platform \<Rightarrow> ('k \<Rightarrow> 'k) \<Rightarrow> string \<Rightarrow> int \<Rightarrow> int \<Rightarrow> 'k \<Rightarrow> (process_end \<times> 'k) option" where
  "status P sleep server_hostname server_port retry_timeout_ms k =
     (case steady_clock P k of (t0, k') \<Rightarrow> with_socket P
       (bind_io (connect_retry P sleep t0 retry_timeout_ms server_hostname (word_of_int server_port)) (\<lambda>_.
        bind_io (send_command P (KStatus True)) (\<lambda>ack.
        return_io (status_end ack)))) k')"

section \<open>add-actor\<close>

text \<open>
  What the process asks of its system: whether setting a variable works, whether \<^verbatim>\<open>execvp\<close>
  replaces the process, what \<^verbatim>\<open>fork\<close> returned (the model follows the process that sees this
  value), and the text of an error (its format filled in).
\<close>

record process_world =
  to_double :: strtod
  setenv_works :: "string \<Rightarrow> bool"
  execvp_works :: bool
  fork_returned :: int
  what :: "rsg_error \<Rightarrow> string"

definition and_then :: "'e + 'a \<Rightarrow> ('a \<Rightarrow> 'e + 'b) \<Rightarrow> 'e + 'b" where
  "and_then x f = (case x of Inl e \<Rightarrow> Inl e | Inr y \<Rightarrow> f y)"

definition enforce :: "bool \<Rightarrow> rsg_error \<Rightarrow> 'a \<Rightarrow> rsg_error + 'a" where
  "enforce b e x = (if b then Inr x else Inl e)"

definition set_env :: "process_world \<Rightarrow> string \<Rightarrow> string \<Rightarrow> environment \<Rightarrow> rsg_error + environment" where
  "set_env W x v env = enforce (setenv_works W x)
     (''Cannot setenv '' @ x @ '' to '' @ quoted (if x = ''RSG_AUTOCONNECT'' then ''1'' else ''%s'') @ '': %s'')
     (env(x \<mapsto> c_str v))"

definition unset_env :: "process_world \<Rightarrow> string \<Rightarrow> environment \<Rightarrow> rsg_error + environment" where
  "unset_env W x env = enforce (setenv_works W x) (''Cannot unsetenv '' @ x @ '': %s'') (env(x := None))"

text \<open>Where the server is: an error here is not one of the inner \<^verbatim>\<open>try\<close> block.\<close>

definition server_variables :: "process_world \<Rightarrow> string \<Rightarrow> int \<Rightarrow> environment \<Rightarrow> rsg_error + environment" where
  "server_variables W server_hostname server_port env =
     and_then (set_env W ''RSG_SERVER_HOSTNAME'' server_hostname env) (\<lambda>env.
     and_then (enforce (length (decimal server_port) < 16) ''Cannot convert port=%d to a 16-length string'' ()) (\<lambda>_.
     set_env W ''RSG_SERVER_PORT'' (decimal server_port) env))"

definition check_think_time :: "strtod \<Rightarrow> string \<Rightarrow> rsg_error + unit" where
  "check_think_time strtod think =
     (if think = ''AS_MEASURED_BY_CLIENT'' then Inr ()
      else and_then (enforce (valid_think_time strtod (c_str think)) (''think-time ('' @ quoted ''%s'' @ '') is not a valid double'') ())
        (\<lambda>_. enforce (double_ge0 (fst (strtod (c_str think)))) ''think-time (%g) should not be negative'' ()))"

definition actor_variables :: "process_world \<Rightarrow> string \<Rightarrow> bool \<Rightarrow> int \<Rightarrow> environment \<Rightarrow> rsg_error + environment" where
  "actor_variables W think autoconnect actor_id env =
     and_then (check_think_time (to_double W) think) (\<lambda>_.
     and_then (set_env W ''RSG_THINK_TIME'' think env) (\<lambda>env.
     and_then (if autoconnect then set_env W ''RSG_AUTOCONNECT'' ''1'' env
               else unset_env W ''RSG_AUTOCONNECT'' env) (\<lambda>env.
     and_then (enforce (length (decimal actor_id) < 16) ''Cannot convert actor_id=%d to a 16-length string'' ()) (\<lambda>_.
     set_env W ''RSG_INITIAL_ACTOR_ID'' (decimal actor_id) env))))"

text \<open>The inner \<^verbatim>\<open>try\<close> block: the program, or the error that makes the server be killed.\<close>

definition become_client :: "process_world \<Rightarrow> string \<Rightarrow> bool \<Rightarrow> int \<Rightarrow> string \<Rightarrow> string list \<Rightarrow> environment \<Rightarrow>
    rsg_error + process_end" where
  "become_client W think autoconnect actor_id command_to_run command_args env =
     and_then (actor_variables W think autoconnect actor_id env) (\<lambda>env.
     enforce (execvp_works W) (''Could not execvp into '' @ quoted ''%s'')
       (Executes (c_str command_to_run) (map c_str (command_to_run # command_args)) env))"

definition kill_reason :: "process_world \<Rightarrow> int \<Rightarrow> rsg_error \<Rightarrow> string" where
  "kill_reason W actor_id e =
     take 127 (c_str (''add-actor (actor_id='' @ decimal actor_id @ '') failed: '' @ take 1023 (c_str (what W e))))"

text \<open>
  The part of the child (or of the parent without \<^verbatim>\<open>fork\<close>): the exit code does not depend
  on whether killing the server worked.
\<close>

definition run_client :: "'k platform \<Rightarrow> process_world \<Rightarrow> string \<Rightarrow> int \<Rightarrow> string \<Rightarrow> bool \<Rightarrow> string \<Rightarrow> string list \<Rightarrow>
    environment \<Rightarrow> int \<Rightarrow> ('k socket_state, process_end) io" where
  "run_client P W server_hostname server_port think autoconnect command_to_run command_args env actor_id sk =
     (case server_variables W server_hostname server_port env of
        Inl e \<Rightarrow> raise_io e sk
      | Inr env' \<Rightarrow> (case become_client W think autoconnect actor_id command_to_run command_args env' of
          Inr x \<Rightarrow> return_io x sk
        | Inl e \<Rightarrow> (case kill P server_hostname server_port (kill_reason W actor_id e) (snd sk) of
            None \<Rightarrow> None
          | Some (Aborts, k') \<Rightarrow> return_io Aborts (fst sk, k')
          | Some (_, k') \<Rightarrow> return_io (Exits 1 ''Killing the server, as executing the process failed.'') (fst sk, k'))))"

definition acknowledged_actor :: "command_ack \<Rightarrow> int" where
  "acknowledged_actor ack = (case ack_actor ack of None \<Rightarrow> 0 | Some i \<Rightarrow> i)"

definition add_actor :: "'k platform \<Rightarrow> process_world \<Rightarrow> string \<Rightarrow> int \<Rightarrow> string \<Rightarrow> string \<Rightarrow> string \<Rightarrow> bool \<Rightarrow> bool \<Rightarrow>
    string \<Rightarrow> string list \<Rightarrow> environment \<Rightarrow> 'k \<Rightarrow> (process_end \<times> 'k) option" where
  "add_actor P W server_hostname server_port actor_name vhost_name think autoconnect forks command_to_run command_args env =
     with_socket P
       (bind_io (tcp_connect (os P) server_hostname (word_of_int server_port)) (\<lambda>_.
        bind_io (send_command P (KAddActor actor_name vhost_name)) (\<lambda>ack.
        bind_io (tcp_close (os P)) (\<lambda>_.
        if \<not> ack_success ack then return_io (Exits 1 ''add-actor refused from server'')
        else bind_io (enforce_io (\<not> forks \<or> fork_returned W \<noteq> -1) ''Cannot create a new process: %s'') (\<lambda>_.
          if \<not> forks \<or> fork_returned W = 0
          then run_client P W server_hostname server_port think autoconnect command_to_run command_args env
                 (acknowledged_actor ack)
          else return_io (Exits 0 []))))))"

section \<open>What the client finds\<close>

lemma length_decimal_nat: "n < 10 ^ Suc d \<Longrightarrow> length (decimal_nat n) \<le> Suc d"
proof (induction d arbitrary: n)
  case 0
  then show ?case by (subst decimal_nat.simps) simp
next
  case (Suc d)
  show ?case
  proof (cases "n < 10")
    case True
    then show ?thesis by (subst decimal_nat.simps) simp
  next
    case False
    have "n div 10 < 10 ^ Suc d" using Suc.prems by simp
    from Suc.IH [OF this] False show ?thesis by (subst decimal_nat.simps) simp
  qed
qed

lemma length_decimal:
  assumes "- (2 ^ 31) \<le> i" "i < 2 ^ 31"
  shows "length (decimal i) < 16"
proof -
  have "length (decimal_nat n) \<le> 10" if "n < 10 ^ 10" for n
    using length_decimal_nat [of n 9] that by simp
  moreover have "nat i < 10 ^ 10" "nat (- i) < 10 ^ 10" using assms by simp_all
  ultimately have "length (decimal_nat (nat i)) \<le> 10" "length (decimal_nat (nat (- i))) \<le> 10" by blast+
  then show ?thesis by (simp add: decimal_def)
qed

lemma c_str_decimal [simp]: "c_str (decimal i) = decimal i"
proof -
  have d: "c \<noteq> CHR 0x00" if "is_digit c" for c
    using that by (auto simp: is_digit_def)
  have "c_str (decimal_nat n) = decimal_nat n" for n
    using decimal_nat_digits [of n] d by (auto simp: c_str_def takeWhile_eq_all_conv)
  then show ?thesis by (simp add: decimal_def c_str_def)
qed


definition example_world :: process_world where
  "example_world = \<lparr>to_double = (\<lambda>s. (Finite 0, length s, False)), setenv_works = (\<lambda>_. True),
     execvp_works = True, fork_returned = 0, what = id\<rparr>"


section \<open>The exit code\<close>

text \<open>A server that accepts connections and answers, on a system that does what it is asked.\<close>

definition serving :: "'k platform \<Rightarrow> string \<Rightarrow> u16 \<Rightarrow> int \<Rightarrow> ('k \<Rightarrow> bytes) \<Rightarrow> ('k \<Rightarrow> nat) \<Rightarrow> (bytes \<Rightarrow> bytes) \<Rightarrow> bool" where
  "serving P address port fd written taken answers \<longleftrightarrow>
     peer (os P) fd written taken answers \<and> connects (os P) address port fd written taken \<and> fd \<noteq> -1 \<and>
     (\<forall>k. (\<exists>k'. k_socket (os P) k = (fd, k') \<and> same_streams written taken k k') \<and>
       (\<exists>k'. k_close (os P) fd k = (True, k') \<and> same_streams written taken k k'))"

text \<open>The acknowledgment \<open>ack\<close> answers the command \<open>c\<close> sent in state \<open>k\<close>.\<close>

definition answered :: "'k platform \<Rightarrow> ('k \<Rightarrow> bytes) \<Rightarrow> ('k \<Rightarrow> nat) \<Rightarrow> (bytes \<Rightarrow> bytes) \<Rightarrow> command \<Rightarrow> command_ack \<Rightarrow>
    'k \<Rightarrow> bytes \<Rightarrow> bool" where
  "answered P written taken answers c ack k rest \<longleftrightarrow>
     (let request = serialize (command_codec P) c; reply = serialize (command_ack_codec P) ack in
      decodes (command_ack_codec P) reply ack \<and> length reply < max_content_size \<and>
      length request < max_content_size \<and>
      drop (taken k) (answers (written k @ frame (little_endian P) request)) = frame (little_endian P) reply @ rest)"

lemma send_command_answered:
  assumes "peer (os P) (sock_fd s) written taken answers" "open_socket s"
    "answered P written taken answers c ack k rest"
  shows "\<exists>k'. send_command P c (s, k) = Some (Inr ack, (s, k')) \<and>
    written k' = written k @ frame (little_endian P) (serialize (command_codec P) c) \<and>
    drop (taken k') (answers (written k')) = rest"
proof -
  obtain k1 k2 where
    "write_message (os P) (little_endian P) (command_codec P) c (s, k) = Some (Inr (), (s, k1))"
    "read_message (os P) (little_endian P) (command_ack_codec P) (s, k1) = Some (Inr ack, (s, k2))"
    "written k2 = written k @ frame (little_endian P) (serialize (command_codec P) c)"
    "drop (taken k2) (answers (written k2)) = rest"
    using exchange [OF assms(1,2), of "command_ack_codec P" ack "command_codec P" c k "little_endian P" rest]
      assms(3) by (auto simp: answered_def Let_def)
  then show ?thesis by (auto simp: send_command_def bind_io_def)
qed

lemma command_served:
  assumes "serving P address port fd written taken answers" "answered P written taken answers c ack k rest"
  shows "\<exists>k'. with_socket P (bind_io (tcp_connect (os P) address port) (\<lambda>_.
      bind_io (send_command P c) (\<lambda>ack. return_io (f ack)))) k = Some (f ack, k') \<and>
    written k' = written k @ frame (little_endian P) (serialize (command_codec P) c) \<and>
    drop (taken k') (answers (written k')) = rest"
proof -
  have peer: "peer (os P) fd written taken answers" and fd: "fd \<noteq> -1"
    and connects: "connects (os P) address port fd written taken"
    using assms(1) by (simp_all add: serving_def)
  let ?s = "new_socket\<lparr>sock_fd := fd\<rparr>" and ?o = "new_socket\<lparr>sock_fd := fd, sock_connected := True\<rparr>"
  obtain k1 where k1: "k_socket (os P) k = (fd, k1)" "same_streams written taken k k1"
    using assms(1) by (auto simp: serving_def)
  obtain k2 where k2: "tcp_connect (os P) address port (?s, k1) = Some (Inr (), (?o, k2))"
    "same_streams written taken k1 k2"
    using tcp_connect_ok [of "os P" address port ?s written taken k1] connects fd by (auto simp: new_socket_def)
  have "answered P written taken answers c ack k2 rest"
    using assms(2) k1(2) k2(2) by (simp add: answered_def same_streams_def)
  then obtain k3 where k3: "send_command P c (?o, k2) = Some (Inr ack, (?o, k3))"
    "written k3 = written k2 @ frame (little_endian P) (serialize (command_codec P) c)"
    "drop (taken k3) (answers (written k3)) = rest"
    using send_command_answered [of P ?o written taken answers c ack k2 rest] peer fd by (auto simp: open_socket_def)
  obtain k4 where k4: "k_close (os P) fd k3 = (True, k4)" "same_streams written taken k3 k4"
    using assms(1) by (auto simp: serving_def)
  have "tcp_socket_create (os P) k = (Inr ?s, k1)" using k1 fd by (simp add: tcp_socket_create_def)
  moreover have "tcp_close (os P) (?o, k3) = Some (Inr (), (?o\<lparr>sock_connected := False, sock_fd_before_close := fd, sock_fd := -1\<rparr>, k4))"
    using k4 fd by (simp add: tcp_close_def return_io_def)
  ultimately have "with_socket P (bind_io (tcp_connect (os P) address port) (\<lambda>_.
      bind_io (send_command P c) (\<lambda>ack. return_io (f ack)))) k = Some (f ack, k4)"
    using k2(1) k3(1) by (simp add: with_socket_def bind_io_def return_io_def)
  with k1(2) k2(2) k3(2,3) k4(2) show ?thesis by (auto simp: same_streams_def)
qed

text \<open>C31: \<^verbatim>\<open>kill\<close> and \<^verbatim>\<open>start\<close> send their command, once, and nothing else, and exit with 0
  exactly when the server's acknowledgment is a success.\<close>

theorem commands_report_the_answer:
  assumes "serving P server_hostname (word_of_int server_port) fd written taken answers"
    and "answered P written taken answers c ack k rest"
    and "(c, run, refused) \<in>
      {(KKill reason, kill P server_hostname server_port reason, ''kill refused from server''),
       (KStart True, start P server_hostname server_port, ''start refused from server'')}"
  shows "\<exists>k'. run k = Some (if ack_success ack then Exits 0 [] else Exits 1 refused, k') \<and>
    written k' = written k @ frame (little_endian P) (serialize (command_codec P) c) \<and>
    drop (taken k') (answers (written k')) = rest"
  using assms(3) command_served [OF assms(1,2), of "simple_end refused"]
  by (auto simp: kill_def start_def simple_end_def [abs_def])

theorem commands_report_the_answer_witness:
  "\<exists>k'. kill (example_platform \<lparr>ack_success = True, ack_actor = None, ack_status = None\<rparr> decision_ack0)
      ''127.0.0.1'' 35000 ''enough'' ([], 0) = Some (Exits 0 [], k')"
proof -
  let ?ack = "\<lparr>ack_success = True, ack_actor = None, ack_status = None\<rparr>"
  let ?P = "example_platform ?ack decision_ack0"
  have s: "serving ?P ''127.0.0.1'' (word_of_int 35000) 3 fst snd (answers_once (frame True [1]))"
    unfolding serving_def using answering_kernel_peer [of "answers_once (frame True [1])" 3]
    by (simp add: example_platform_def connects_def same_streams_def answering_kernel_def)
  have "answered ?P fst snd (answers_once (frame True [1])) (KKill ''enough'') ?ack ([], 0) []"
    by (simp add: answered_def example_platform_def constant_codec_def decodes_def max_content_size_def answers_once_def)
  from commands_report_the_answer [OF s this, of _ _ "''enough''"] show ?thesis by auto
qed

section \<open>Waiting for the server\<close>

definition clock_now :: "'k platform \<Rightarrow> 'k \<Rightarrow> int" where
  "clock_now P k = fst (steady_clock P k)"

lemma tcp_connect_total:
  assumes "\<forall>a k. now k \<le> (now (snd (k_inet_pton (os P) a k)) :: int)"
    "\<forall>fd a p k. now k \<le> now (snd (k_connect (os P) fd a p k))"
  shows "\<exists>res s' k'. tcp_connect (os P) address port (s, k) = Some (res, (s', k')) \<and> now k \<le> now k' \<and>
    (case res of Inr _ \<Rightarrow> sock_connected s' | Inl e \<Rightarrow> True)"
proof -
  obtain r k1 where r: "k_inet_pton (os P) (c_str address) k = (r, k1)" by (cases "k_inet_pton (os P) (c_str address) k")
  obtain ok k2 where ok: "k_connect (os P) (sock_fd s) (c_str address) port k1 = (ok, k2)"
    by (cases "k_connect (os P) (sock_fd s) (c_str address) port k1")
  have "now k \<le> now k1" "now k1 \<le> now k2" using assms r ok by (metis snd_conv)+
  with r ok show ?thesis by (simp add: tcp_connect_def io_defs check_socket_def sys_call_def)
qed

text \<open>C32: \<^verbatim>\<open>status\<close> does not wait for ever for a server that is not there: when time does not go
  back and a sleep of a millisecond takes at least that, the loop ends, connected, or, when the
  timeout has passed, with the last error.\<close>

theorem status_retry_ends:
  assumes clock: "\<forall>k. clock_now P k \<le> clock_now P (snd (steady_clock P k))"
      "\<forall>k. clock_now P k + 10 ^ 6 \<le> clock_now P (sleep k)"
    and calls: "\<forall>a k. clock_now P k \<le> clock_now P (snd (k_inet_pton (os P) a k))"
      "\<forall>fd a p k. clock_now P k \<le> clock_now P (snd (k_connect (os P) fd a p k))"
  shows "\<exists>res s' k'. connect_retry P sleep t0 timeout server_hostname port (s, k) = Some (res, (s', k')) \<and>
    (case res of Inr _ \<Rightarrow> sock_connected s' | Inl e \<Rightarrow> t0 + timeout * 10 ^ 6 \<le> clock_now P k')"
proof (induction "nat (t0 + timeout * 10 ^ 6 - clock_now P k)" arbitrary: s k rule: less_induct)
  case less
  obtain res s1 k1 where c: "tcp_connect (os P) server_hostname port (s, k) = Some (res, (s1, k1))"
    "clock_now P k \<le> clock_now P k1" "case res of Inr _ \<Rightarrow> sock_connected s1 | Inl e \<Rightarrow> True"
    using tcp_connect_total [of "clock_now P" P, OF calls] by blast
  show ?case
  proof (cases res)
    case (Inr u)
    then show ?thesis using c by (subst connect_retry.simps) auto
  next
    case (Inl e)
    obtain t k2 where t: "steady_clock P k1 = (t, k2)" by (cases "steady_clock P k1")
    then have now: "t = clock_now P k1" "t \<le> clock_now P k2" using clock(1) by (auto simp: clock_now_def dest: spec [of _ k1])
    show ?thesis
    proof (cases "t - t0 < timeout * 10 ^ 6")
      case True
      have "clock_now P k + 10 ^ 6 \<le> clock_now P (sleep k2)" using clock(2) now c(2) by (metis add_le_cancel_right order_trans)
      with True now c(2) have "nat (t0 + timeout * 10 ^ 6 - clock_now P (sleep k2)) < nat (t0 + timeout * 10 ^ 6 - clock_now P k)"
        by simp
      from less.hyps [OF this, of s1] True Inl c(1) t show ?thesis
        by (subst connect_retry.simps) simp
    next
      case False
      then show ?thesis using Inl c(1) t now by (subst connect_retry.simps) auto
    qed
  qed
qed

text \<open>The clock is the state; the server accepts after five milliseconds.\<close>

definition slow_server :: "int platform" where
  "slow_server = \<lparr>os = \<lparr>k_socket = (\<lambda>k. (3, k)), k_recv = (\<lambda>fd n k. (Recv_blocks, k)),
       k_send = (\<lambda>fd buf k. (Sent (length buf), k)), k_close = (\<lambda>fd k. (True, k)),
       k_shutdown = (\<lambda>fd r s k. (True, k)), k_inet_pton = (\<lambda>a k. (1, k)),
       k_connect = (\<lambda>fd a p k. (5 * 10 ^ 6 \<le> k, k + 1)), k_setsockopt = (\<lambda>fd opt k. (True, k)),
       k_bind = (\<lambda>fd p k. (True, k)), k_listen = (\<lambda>fd n k. (True, k)), k_accept = (\<lambda>fd k. (4, k))\<rparr>,
     little_endian = True, command_codec = constant_codec (KStart True),
     command_ack_codec = constant_codec command_ack0,
     decision_codec = constant_codec \<lparr>think_time = Finite 0, type_case = KQuit True\<rparr>,
     decision_ack_codec = constant_codec decision_ack0, steady_clock = (\<lambda>k. (k, k + 1)), join_thread = (\<lambda>t. Some)\<rparr>"

theorem status_retry_ends_witness:
  "\<exists>res s' k'. connect_retry slow_server (\<lambda>k. k + 10 ^ 6) 0 10 ''127.0.0.1'' 35000 (new_socket\<lparr>sock_fd := 3\<rparr>, 0) =
    Some (res, (s', k'))"
proof -
  have "\<forall>k. clock_now slow_server k \<le> clock_now slow_server (snd (steady_clock slow_server k))"
    "\<forall>k. clock_now slow_server k + 10 ^ 6 \<le> clock_now slow_server (k + 10 ^ 6)"
    "\<forall>a k. clock_now slow_server k \<le> clock_now slow_server (snd (k_inet_pton (os slow_server) a k))"
    "\<forall>fd a p k. clock_now slow_server k \<le> clock_now slow_server (snd (k_connect (os slow_server) fd a p k))"
    by (simp_all add: slow_server_def clock_now_def)
  from status_retry_ends [OF this] show ?thesis by blast
qed

end
