(* ===== verification/Remote_Session.thy ===== *)
theory Remote_Session
  imports Simple_Commands
begin

text \<open>
  Many exchanges on one connection. A server is a state machine on requests; the locale is the
  contract of a way to talk to it (one request, its reply, and the two sides are in step again), and
  its client lemma that a list of requests gets the replies that the machine would give locally. The
  decisions of the client library and the commands of the command line satisfy the contract.
\<close>

section \<open>The contract\<close>

primrec session :: "('q \<Rightarrow> ('s, 'r) io) \<Rightarrow> 'q list \<Rightarrow> ('s, 'r list) io" where
  "session exch [] = return_io []"
| "session exch (q # qs) = bind_io (exch q) (\<lambda>r. bind_io (session exch qs) (\<lambda>rs. return_io (r # rs)))"

primrec replies :: "('v \<Rightarrow> 'q \<Rightarrow> 'r \<times> 'v) \<Rightarrow> 'q list \<Rightarrow> 'v \<Rightarrow> 'r list \<times> 'v" where
  "replies srv [] v = ([], v)"
| "replies srv (q # qs) v = (case srv v q of (r, v') \<Rightarrow> (case replies srv qs v' of (rs, v'') \<Rightarrow> (r # rs, v'')))"

text \<open>Every request and its reply satisfy \<open>ok\<close>.\<close>

primrec all_ok :: "('q \<Rightarrow> 'r \<Rightarrow> bool) \<Rightarrow> ('v \<Rightarrow> 'q \<Rightarrow> 'r \<times> 'v) \<Rightarrow> 'q list \<Rightarrow> 'v \<Rightarrow> bool" where
  "all_ok ok srv [] v \<longleftrightarrow> True"
| "all_ok ok srv (q # qs) v \<longleftrightarrow> ok q (fst (srv v q)) \<and> all_ok ok srv qs (snd (srv v q))"

lemma all_ok_append:
  "all_ok ok srv (qs @ qs') v \<longleftrightarrow> all_ok ok srv qs v \<and> all_ok ok srv qs' (snd (replies srv qs v))"
  by (induction qs arbitrary: v) (auto split: prod.splits)

locale remote_object =
  fixes exch :: "'q \<Rightarrow> ('s, 'r) io"
    and srv :: "'v \<Rightarrow> 'q \<Rightarrow> 'r \<times> 'v"
    and ok :: "'q \<Rightarrow> 'r \<Rightarrow> bool"
    and in_step :: "'s \<Rightarrow> 'v \<Rightarrow> bool"
  assumes exchange_law: "in_step s v \<Longrightarrow> srv v q = (r, v') \<Longrightarrow> ok q r \<Longrightarrow>
    \<exists>s'. exch q s = Some (Inr r, s') \<and> in_step s' v'"
begin

lemma session_replies:
  "in_step s v \<Longrightarrow> all_ok ok srv qs v \<Longrightarrow>
     \<exists>s'. session exch qs s = Some (Inr (fst (replies srv qs v)), s') \<and> in_step s' (snd (replies srv qs v))"
proof (induction qs arbitrary: s v)
  case Nil
  then show ?case by (simp add: return_io_def)
next
  case (Cons q qs)
  obtain r v' where r: "srv v q = (r, v')" by (cases "srv v q")
  obtain s1 where s1: "exch q s = Some (Inr r, s1)" "in_step s1 v'"
    using exchange_law [OF Cons.prems(1) r] Cons.prems(2) r by auto
  obtain rs v'' where rs: "replies srv qs v' = (rs, v'')" by (cases "replies srv qs v'")
  obtain s2 where "session exch qs s1 = Some (Inr rs, s2)" "in_step s2 v''"
    using Cons.IH [OF s1(2)] Cons.prems(2) r rs by auto
  with r s1 rs show ?case by (simp add: bind_io_def return_io_def)
qed

text \<open>Sessions compose.\<close>

lemma session_append:
  assumes "in_step s v" "all_ok ok srv (qs @ qs') v"
  shows "\<exists>s1 s2. session exch qs s = Some (Inr (fst (replies srv qs v)), s1) \<and>
    session exch qs' s1 = Some (Inr (fst (replies srv qs' (snd (replies srv qs v)))), s2) \<and>
    in_step s2 (snd (replies srv qs' (snd (replies srv qs v))))"
proof -
  have split: "all_ok ok srv qs v \<and> all_ok ok srv qs' (snd (replies srv qs v))"
    using assms(2) by (simp add: all_ok_append)
  then obtain s1 where s1: "session exch qs s = Some (Inr (fst (replies srv qs v)), s1)"
    "in_step s1 (snd (replies srv qs v))" using session_replies [OF assms(1)] by blast
  with session_replies [OF s1(2)] split show ?thesis by blast
qed

end

section \<open>A server on a stream\<close>

text \<open>
  The bytes that the server sends from now on (\<open>w\<close> has been written to it, \<open>t\<close> bytes of it have been
  read) are the replies of the machine in state \<open>v\<close>, whatever requests follow.
\<close>

definition plays :: "('q \<Rightarrow> bytes) \<Rightarrow> ('r \<Rightarrow> bytes) \<Rightarrow> ('v \<Rightarrow> 'q \<Rightarrow> 'r \<times> 'v) \<Rightarrow> (bytes \<Rightarrow> bytes) \<Rightarrow> bytes \<Rightarrow> nat \<Rightarrow> 'v \<Rightarrow> bool" where
  "plays req rep srv answers w t v \<longleftrightarrow>
     (\<forall>qs. drop t (answers (w @ concat (map req qs))) = concat (map rep (fst (replies srv qs v))))"

lemma plays_reply:
  assumes "plays req rep srv answers w t v" "srv v q = (r, v')"
  shows "drop t (answers (w @ req q)) = rep r @ []"
  using assms(1) [unfolded plays_def, THEN spec, of "[q]"] assms(2) by simp

lemma plays_next:
  assumes "plays req rep srv answers w t v" "srv v q = (r, v')"
  shows "plays req rep srv answers (w @ req q) (t + length (rep r)) v'"
  unfolding plays_def
proof
  fix qs
  have "drop t (answers (w @ concat (map req (q # qs)))) = concat (map rep (fst (replies srv (q # qs) v)))"
    using assms(1) unfolding plays_def by blast
  then have "drop t (answers ((w @ req q) @ concat (map req qs))) = rep r @ concat (map rep (fst (replies srv qs v')))"
    using assms(2) by (simp split: prod.split)
  then have "drop (length (rep r)) (drop t (answers ((w @ req q) @ concat (map req qs)))) =
      concat (map rep (fst (replies srv qs v')))" by simp
  then show "drop (t + length (rep r)) (answers ((w @ req q) @ concat (map req qs))) =
      concat (map rep (fst (replies srv qs v')))" by (simp add: add.commute)
qed

text \<open>Both messages are below the limit, and the reply can be decoded.\<close>

definition transferable :: "'q codec \<Rightarrow> 'r codec \<Rightarrow> 'q \<Rightarrow> 'r \<Rightarrow> bool" where
  "transferable C C' q r \<longleftrightarrow> length (serialize C q) < max_content_size \<and>
     length (serialize C' r) < max_content_size \<and> decodes C' (serialize C' r) r"

section \<open>Decisions\<close>

text \<open>
  A connection whose thinking time is the constant \<open>c\<close>: the server's machine gets every decision with
  that thinking time.
\<close>

definition with_think_time :: "double \<Rightarrow> decision \<Rightarrow> decision" where
  "with_think_time c d = d\<lparr>think_time := c\<rparr>"

definition decision_server :: "double \<Rightarrow> ('v \<Rightarrow> decision \<Rightarrow> decision_ack \<times> 'v) \<Rightarrow> 'v \<Rightarrow> decision \<Rightarrow> decision_ack \<times> 'v" where
  "decision_server c srv v d = srv v (with_think_time c d)"

definition decision_frame :: "'k platform \<Rightarrow> double \<Rightarrow> decision \<Rightarrow> bytes" where
  "decision_frame P c d = frame (little_endian P) (serialize (decision_codec P) (with_think_time c d))"

definition ack_frame :: "'k platform \<Rightarrow> decision_ack \<Rightarrow> bytes" where
  "ack_frame P a = frame (little_endian P) (serialize (decision_ack_codec P) a)"

definition client_in_step :: "'k platform \<Rightarrow> double \<Rightarrow> ('v \<Rightarrow> decision \<Rightarrow> decision_ack \<times> 'v) \<Rightarrow>
    ('k \<Rightarrow> bytes) \<Rightarrow> ('k \<Rightarrow> nat) \<Rightarrow> (bytes \<Rightarrow> bytes) \<Rightarrow> 'k conn_state \<Rightarrow> 'v \<Rightarrow> bool" where
  "client_in_step P c srv written taken answers st v \<longleftrightarrow> (case st of (con, s, k) \<Rightarrow>
     peer (os P) (sock_fd s) written taken answers \<and> open_socket s \<and>
     \<not> measure_think_time con \<and> decision_think_time con = c \<and>
     plays (decision_frame P c) (ack_frame P) (decision_server c srv) answers (written k) (taken k) v)"

definition decision_ok :: "'k platform \<Rightarrow> double \<Rightarrow> decision \<Rightarrow> decision_ack \<Rightarrow> bool" where
  "decision_ok P c d a \<longleftrightarrow> transferable (decision_codec P) (decision_ack_codec P) (with_think_time c d) a"

lemma decision_exchange:
  assumes step: "client_in_step P c srv written taken answers (con, s, k) v"
    and srv: "decision_server c srv v d = (a, v')" and ok: "decision_ok P c d a"
  shows "\<exists>k'. send_decision P d (con, s, k) = Some (Inr a, (con, s, k')) \<and>
    client_in_step P c srv written taken answers (con, s, k') v' \<and>
    written k' = written k @ decision_frame P c d"
proof -
  from step have con: "peer (os P) (sock_fd s) written taken answers" "open_socket s" "\<not> measure_think_time con"
    "decision_think_time con = c"
    "plays (decision_frame P c) (ack_frame P) (decision_server c srv) answers (written k) (taken k) v"
    by (simp_all add: client_in_step_def)
  obtain k1 k2 where x:
    "write_message (os P) (little_endian P) (decision_codec P) (with_think_time c d) (s, k) = Some (Inr (), (s, k1))"
    "read_message (os P) (little_endian P) (decision_ack_codec P) (s, k1) = Some (Inr a, (s, k2))"
    "written k2 = written k @ decision_frame P c d" "taken k2 = taken k + length (ack_frame P a)"
    using exchange [OF con(1,2), of "decision_ack_codec P" a "decision_codec P" "with_think_time c d" k "little_endian P" "[]"]
      ok plays_reply [OF con(5) srv]
    unfolding decision_ok_def transferable_def decision_frame_def ack_frame_def by blast
  have "send_decision P d (con, s, k) = Some (Inr a, (con, s, k2))"
    using con(3,4) x(1,2) by (simp add: send_decision_def add_think_time_def restart_think_time_def on_socket_def
        bind_io_def return_io_def with_think_time_def)
  moreover have "client_in_step P c srv written taken answers (con, s, k2) v'"
    using con x(3,4) plays_next [OF con(5) srv] by (simp add: client_in_step_def)
  ultimately show ?thesis using x(3) by blast
qed

interpretation decisions: remote_object "send_decision P" "decision_server c srv" "decision_ok P c"
    "client_in_step P c srv written taken answers"
  for P :: "'k platform" and c :: double and srv :: "'v \<Rightarrow> decision \<Rightarrow> decision_ack \<times> 'v"
    and written taken answers
proof
  fix st :: "'k conn_state" and v v' :: 'v and d a
  assume "client_in_step P c srv written taken answers st v" "decision_server c srv v d = (a, v')" "decision_ok P c d a"
  moreover obtain con s k where "st = (con, s, k)" by (cases st)
  ultimately show "\<exists>s'. send_decision P d st = Some (Inr a, s') \<and> client_in_step P c srv written taken answers s' v'"
    using decision_exchange [of P c srv written taken answers con s k v d a v'] by auto
qed

text \<open>The connection is transparent: however the bytes are cut on the way, a client that sends any
  list of decisions gets exactly the acknowledgments that the server's actor, taken as a state machine,
  gives to these decisions (with the client's constant thinking time), in order, and both sides
  are in step again for the next ones.\<close>

theorem session_is_transparent:
  assumes "client_in_step P c srv written taken answers st v"
    and "all_ok (decision_ok P c) (decision_server c srv) ds v"
  shows "\<exists>st'. session (send_decision P) ds st = Some (Inr (fst (replies (decision_server c srv) ds v)), st') \<and>
    client_in_step P c srv written taken answers st' (snd (replies (decision_server c srv) ds v))"
  using assms by (rule decisions.session_replies)

text \<open>A server that acknowledges every five bytes and counts the decisions.\<close>

definition echoes :: "bytes \<Rightarrow> bytes" where
  "echoes w = concat (replicate (length w div 5) (frame True [1]))"

definition echo_platform :: "(bytes \<times> nat) platform" where
  "echo_platform = (example_platform command_ack0 decision_ack0)\<lparr>os := answering_kernel echoes\<rparr>"

definition counting :: "nat \<Rightarrow> decision \<Rightarrow> decision_ack \<times> nat" where
  "counting n d = (decision_ack0, Suc n)"

lemma echo_plays:
  "plays (decision_frame echo_platform c) (ack_frame echo_platform) (decision_server c counting) echoes [] 0 n"
proof -
  have frames: "decision_frame echo_platform c d = frame True [1]" "ack_frame echo_platform a = frame True [1]" for d a
    by (simp_all add: decision_frame_def ack_frame_def echo_platform_def example_platform_def constant_codec_def)
  have "fst (replies (decision_server c counting) qs n) = replicate (length qs) decision_ack0" for qs n
    by (induction qs arbitrary: n) (auto simp: decision_server_def counting_def split: prod.splits dest: arg_cong [of _ _ fst])
  then show ?thesis
    by (simp add: plays_def echoes_def frames length_concat comp_def map_replicate_const sum_list_replicate)
qed

theorem session_is_transparent_witness:
  "\<forall>d1 d2 d3. \<exists>st'. session (send_decision echo_platform) [d1, d2, d3] (new_client_connection 1, example_socket, ([], 0)) =
     Some (Inr [decision_ack0, decision_ack0, decision_ack0], st')"
proof (intro allI)
  fix d1 d2 d3
  let ?st = "(new_client_connection 1, example_socket, ([], 0)) :: (bytes \<times> nat) conn_state"
  have "peer (os echo_platform) (sock_fd example_socket) fst snd echoes"
    by (simp add: echo_platform_def answering_kernel_peer)
  then have step: "client_in_step echo_platform (Finite 0) counting fst snd echoes ?st 0"
    using echo_plays by (simp add: client_in_step_def example_socket_open new_client_connection_def)
  have ok: "all_ok (decision_ok echo_platform (Finite 0)) (decision_server (Finite 0) counting) [d1, d2, d3] 0"
    by (simp add: decision_ok_def transferable_def decision_server_def counting_def echo_platform_def example_platform_def
        constant_codec_def decodes_def max_content_size_def)
  from session_is_transparent [OF step ok]
  show "\<exists>st'. session (send_decision echo_platform) [d1, d2, d3] ?st =
     Some (Inr [decision_ack0, decision_ack0, decision_ack0], st')" by (auto simp: decision_server_def counting_def)
qed

section \<open>Commands\<close>

definition commands_in_step :: "'k platform \<Rightarrow> ('v \<Rightarrow> command \<Rightarrow> command_ack \<times> 'v) \<Rightarrow>
    ('k \<Rightarrow> bytes) \<Rightarrow> ('k \<Rightarrow> nat) \<Rightarrow> (bytes \<Rightarrow> bytes) \<Rightarrow> 'k socket_state \<Rightarrow> 'v \<Rightarrow> bool" where
  "commands_in_step P srv written taken answers st v \<longleftrightarrow> (case st of (s, k) \<Rightarrow>
     peer (os P) (sock_fd s) written taken answers \<and> open_socket s \<and>
     plays (\<lambda>c. frame (little_endian P) (serialize (command_codec P) c))
       (\<lambda>a. frame (little_endian P) (serialize (command_ack_codec P) a)) srv answers (written k) (taken k) v)"

interpretation command_session: remote_object "send_command P" srv "transferable (command_codec P) (command_ack_codec P)"
    "commands_in_step P srv written taken answers"
  for P :: "'k platform" and srv :: "'v \<Rightarrow> command \<Rightarrow> command_ack \<times> 'v" and written taken answers
proof
  fix st :: "'k socket_state" and v v' :: 'v and c a
  assume step: "commands_in_step P srv written taken answers st v" and srv: "srv v c = (a, v')"
    and ok: "transferable (command_codec P) (command_ack_codec P) c a"
  obtain s k where st: "st = (s, k)" by (cases st)
  from step st have con: "peer (os P) (sock_fd s) written taken answers" "open_socket s"
    "plays (\<lambda>c. frame (little_endian P) (serialize (command_codec P) c))
       (\<lambda>a. frame (little_endian P) (serialize (command_ack_codec P) a)) srv answers (written k) (taken k) v"
    by (simp_all add: commands_in_step_def)
  obtain k1 k2 where x:
    "write_message (os P) (little_endian P) (command_codec P) c (s, k) = Some (Inr (), (s, k1))"
    "read_message (os P) (little_endian P) (command_ack_codec P) (s, k1) = Some (Inr a, (s, k2))"
    "written k2 = written k @ frame (little_endian P) (serialize (command_codec P) c)"
    "taken k2 = taken k + length (frame (little_endian P) (serialize (command_ack_codec P) a))"
    using exchange [OF con(1,2), of "command_ack_codec P" a "command_codec P" c k "little_endian P" "[]"]
      ok plays_reply [OF con(3) srv] unfolding transferable_def by blast
  have "send_command P c st = Some (Inr a, (s, k2))"
    using x(1,2) by (simp add: st send_command_def bind_io_def)
  moreover have "commands_in_step P srv written taken answers (s, k2) v'"
    using con x(3,4) plays_next [OF con(3) srv] by (simp only: commands_in_step_def prod.case)
  ultimately show "\<exists>s'. send_command P c st = Some (Inr a, s') \<and> commands_in_step P srv written taken answers s' v'"
    by blast
qed

end
