(* ===== verification/Client_Lifecycle.thy ===== *)
theory Client_Lifecycle
  imports Remote_Session Client_Api
begin

text \<open>
  The life of a client process (the end of \<^verbatim>\<open>src/librsg/connection.cpp\<close>): the thread's connection, which
  \<^verbatim>\<open>rsg::connect\<close> makes and \<^verbatim>\<open>rsg::disconnect\<close> deletes, the constructor and destructor functions of
  the shared object, and between them a user's program, whose next call may depend on what the
  calls before it have returned. The theory shows what such a process sends over its whole life, and that
  its program cannot tell the remote server from a local one.
\<close>

section \<open>The connection of the thread\<close>

text \<open>
  \<open>slot\<close>: the thread's connection, a null pointer at first. \<open>ran\<close>: the command lines that have been
  run to kill the server.
\<close>

record 'k library =
  slot :: "(connection \<times> tcp_socket) option"
  ran :: "connect_effect list"
  world :: 'k

definition library_loaded :: "'k \<Rightarrow> 'k library" where
  "library_loaded k = \<lparr>slot = None, ran = [], world = k\<rparr>"

definition with_connection :: "('k conn_state, 'a) io \<Rightarrow> ('k library, 'a) io" where
  "with_connection m L = (case slot L of
      None \<Rightarrow> raise_io ''Invalid librsg call: No connection to rsg server'' L
    | Some (con, s) \<Rightarrow> (case m (con, s, world L) of
        None \<Rightarrow> None
      | Some (res, (con', s', k')) \<Rightarrow> Some (res, L\<lparr>slot := Some (con', s'), world := k'\<rparr>)))"

definition rsg_send_decision :: "'k platform \<Rightarrow> decision_type \<Rightarrow> ('k library, decision_ack) io" where
  "rsg_send_decision P d = with_connection (send_decision P \<lparr>think_time = Finite 0, type_case = d\<rparr>)"

definition add_child_thread :: "nat \<Rightarrow> ('k library, unit) io" where
  "add_child_thread child = with_connection (\<lambda>(con, s, k).
     return_io () (con\<lparr>child_threads := child_threads con @ [child]\<rparr>, s, k))"

definition connection_actor_id :: "('k library, int) io" where
  "connection_actor_id = with_connection (\<lambda>(con, s, k). return_io (conn_actor_id con) (con, s, k))"

definition connection_socket_fd :: "('k library, int) io" where
  "connection_socket_fd = with_connection (\<lambda>(con, s, k). return_io (sock_fd s) (con, s, k))"

definition this_actor_get_pid :: "('k library, int) io" where
  "this_actor_get_pid = connection_actor_id"

definition rsg_reuse_connected_socket :: "environment \<Rightarrow> int \<Rightarrow> ('k library, unit) io" where
  "rsg_reuse_connected_socket getenv fd L = (case reuse_connected_socket getenv (slot L \<noteq> None) fd of
      Inl e \<Rightarrow> raise_io e L
    | Inr c \<Rightarrow> return_io () (L\<lparr>slot := Some c\<rparr>))"

text \<open>\<open>system\<close> is what \<^verbatim>\<open>system\<close> returns. A constructor that throws leaves the pointer null.\<close>

definition connect_to_server :: "'k platform \<Rightarrow> strtod \<Rightarrow> environment \<Rightarrow> int \<Rightarrow> int \<Rightarrow> ('k library, unit) io" where
  "connect_to_server P strtod getenv system actor_id L =
     (case rsg_connect getenv system (slot L \<noteq> None) actor_id of
        (effects, Inl e) \<Rightarrow> raise_io e (L\<lparr>ran := ran L @ effects\<rparr>)
      | (effects, Inr (server_hostname, port, i)) \<Rightarrow>
          (case client_connect P strtod getenv server_hostname port i (world L) of
             None \<Rightarrow> None
           | Some (Inl e, k) \<Rightarrow> raise_io e (L\<lparr>ran := ran L @ effects, world := k\<rparr>)
           | Some (Inr (con, s, _), k) \<Rightarrow>
               return_io () (L\<lparr>slot := Some (con, s), ran := ran L @ effects, world := k\<rparr>)))"

definition connect_by_environment :: "'k platform \<Rightarrow> strtod \<Rightarrow> environment \<Rightarrow> int \<Rightarrow> ('k library, unit) io" where
  "connect_by_environment P strtod getenv system = connect_to_server P strtod getenv system (-1)"

definition autoconnect :: "'k platform \<Rightarrow> strtod \<Rightarrow> environment \<Rightarrow> int \<Rightarrow> ('k library, unit) io" where
  "autoconnect P strtod getenv system =
     (if getenv ''RSG_AUTOCONNECT'' \<noteq> None then connect_by_environment P strtod getenv system else return_io ())"

text \<open>Deleting a null pointer does nothing; an error of the destructor ends the program.\<close>

definition rsg_disconnect :: "'k platform \<Rightarrow> ('k library, unit) io" where
  "rsg_disconnect P L = (case slot L of
      None \<Rightarrow> return_io () L
    | Some (con, s) \<Rightarrow> (case disconnect P (con, s, world L) of
        None \<Rightarrow> None
      | Some (Inl e, (con', s', k)) \<Rightarrow> raise_io e (L\<lparr>slot := Some (con', s'), world := k\<rparr>)
      | Some (Inr _, (con', s', k)) \<Rightarrow> return_io () (L\<lparr>slot := None, world := k\<rparr>)))"

definition autodisconnect :: "'k platform \<Rightarrow> ('k library, unit) io" where
  "autodisconnect P = rsg_disconnect P"

section \<open>The user's program\<close>

text \<open>
  A program that calls the library: the next call may depend on the acknowledgments before it, and a
  method that throws ends the program (an uncaught exception) unless the program goes on by
  itself.
\<close>

datatype 'a user =
    Finished 'a
  | Throws rsg_error
  | Decides decision_type "decision_ack \<Rightarrow> 'a user"

definition user_method :: "'b client_call \<Rightarrow> (rsg_error + 'b \<Rightarrow> 'a user) \<Rightarrow> 'a user" where
  "user_method m k = Decides (fst m) (\<lambda>ack. k (snd m ack))"

primrec run_user :: "'k platform \<Rightarrow> 'a user \<Rightarrow> ('k library, 'a) io" where
  "run_user P (Finished x) = return_io x"
| "run_user P (Throws e) = raise_io e"
| "run_user P (Decides d k) = bind_io (rsg_send_decision P d) (\<lambda>ack. run_user P (k ack))"

text \<open>
  A process: the library is loaded, \<^verbatim>\<open>main\<close> runs, and the destructor function disconnects. An
  exception that nobody catches ends the process on the spot.
\<close>

definition process_life :: "'k platform \<Rightarrow> strtod \<Rightarrow> environment \<Rightarrow> int \<Rightarrow> 'a user \<Rightarrow> ('k library, 'a) io" where
  "process_life P strtod getenv system p =
     bind_io (autoconnect P strtod getenv system) (\<lambda>_.
     bind_io (run_user P p) (\<lambda>x.
     bind_io (autodisconnect P) (\<lambda>_. return_io x)))"

text \<open>The same program next to the server: its decisions, its result and the server's state.\<close>

primrec run_next_to :: "double \<Rightarrow> ('v \<Rightarrow> decision \<Rightarrow> decision_ack \<times> 'v) \<Rightarrow> 'a user \<Rightarrow> 'v \<Rightarrow>
    decision list \<times> (rsg_error + 'a) \<times> 'v" where
  "run_next_to c srv (Finished x) v = ([], Inr x, v)"
| "run_next_to c srv (Throws e) v = ([], Inl e, v)"
| "run_next_to c srv (Decides d k) v =
     (case srv v \<lparr>think_time = c, type_case = d\<rparr> of (ack, v') \<Rightarrow>
        (case run_next_to c srv (k ack) v' of (ds, r, v'') \<Rightarrow> (\<lparr>think_time = c, type_case = d\<rparr> # ds, r, v'')))"

primrec user_ok :: "'k platform \<Rightarrow> double \<Rightarrow> ('v \<Rightarrow> decision \<Rightarrow> decision_ack \<times> 'v) \<Rightarrow> 'a user \<Rightarrow> 'v \<Rightarrow> bool" where
  "user_ok P c srv (Finished x) v \<longleftrightarrow> True"
| "user_ok P c srv (Throws e) v \<longleftrightarrow> True"
| "user_ok P c srv (Decides d k) v \<longleftrightarrow>
     (case srv v \<lparr>think_time = c, type_case = d\<rparr> of (ack, v') \<Rightarrow>
        transferable (decision_codec P) (decision_ack_codec P) \<lparr>think_time = c, type_case = d\<rparr> ack \<and>
        user_ok P c srv (k ack) v')"

section \<open>The program does not see the connection\<close>

lemma rsg_send_decision_ok:
  assumes "slot L = Some (con, s)" "client_in_step P c srv written taken answers (con, s, world L) v"
    and "srv v \<lparr>think_time = c, type_case = d\<rparr> = (ack, v')"
    and "transferable (decision_codec P) (decision_ack_codec P) \<lparr>think_time = c, type_case = d\<rparr> ack"
  shows "\<exists>k'. rsg_send_decision P d L = Some (Inr ack, L\<lparr>world := k'\<rparr>) \<and>
    client_in_step P c srv written taken answers (con, s, k') v' \<and>
    written k' = written (world L) @ decision_frame P c \<lparr>think_time = c, type_case = d\<rparr>"
proof -
  let ?d = "\<lparr>think_time = Finite 0, type_case = d\<rparr>"
  have d: "with_think_time c ?d = \<lparr>think_time = c, type_case = d\<rparr>" by (simp add: with_think_time_def)
  have "decision_server c srv v ?d = (ack, v')" "decision_ok P c ?d ack"
    using assms(3,4) d by (simp_all add: decision_server_def decision_ok_def)
  from decision_exchange [OF assms(2) this] obtain k' where k': "send_decision P ?d (con, s, world L) = Some (Inr ack, (con, s, k'))"
    "client_in_step P c srv written taken answers (con, s, k') v'"
    "written k' = written (world L) @ decision_frame P c \<lparr>think_time = c, type_case = d\<rparr>"
    by (auto simp: decision_frame_def with_think_time_def)
  have "rsg_send_decision P d L = Some (Inr ack, L\<lparr>slot := Some (con, s), world := k'\<rparr>)"
    using k'(1) assms(1) by (simp add: rsg_send_decision_def with_connection_def)
  also have "L\<lparr>slot := Some (con, s), world := k'\<rparr> = L\<lparr>world := k'\<rparr>" using assms(1) by (cases L) simp
  finally show ?thesis using k' by blast
qed

lemma run_user_ok:
  assumes "slot L = Some (con, s)" "client_in_step P c srv written taken answers (con, s, world L) v"
    and "user_ok P c srv p v" "run_next_to c srv p v = (ds, r, v')"
  shows "\<exists>k'. run_user P p L = Some (r, L\<lparr>world := k'\<rparr>) \<and>
    client_in_step P c srv written taken answers (con, s, k') v' \<and>
    written k' = written (world L) @ concat (map (decision_frame P c) ds)"
  using assms
proof (induction p arbitrary: L v ds)
  case (Finished x)
  then show ?case by (intro exI [of _ "world L"]) (simp add: return_io_def)
next
  case (Throws e)
  then show ?case by (intro exI [of _ "world L"]) (simp add: raise_io_def)
next
  case (Decides d k)
  let ?d = "\<lparr>think_time = c, type_case = d\<rparr>"
  obtain ack v1 where ack: "srv v ?d = (ack, v1)" by (cases "srv v ?d")
  obtain ds' where ds': "run_next_to c srv (k ack) v1 = (ds', r, v')" "ds = ?d # ds'"
    using Decides.prems(4) ack by (auto split: prod.splits)
  have ok: "transferable (decision_codec P) (decision_ack_codec P) ?d ack" "user_ok P c srv (k ack) v1"
    using Decides.prems(3) ack by simp_all
  obtain k1 where k1: "rsg_send_decision P d L = Some (Inr ack, L\<lparr>world := k1\<rparr>)"
    "client_in_step P c srv written taken answers (con, s, k1) v1"
    "written k1 = written (world L) @ decision_frame P c ?d"
    using rsg_send_decision_ok [OF Decides.prems(1,2) ack ok(1)] by blast
  have "slot (L\<lparr>world := k1\<rparr>) = Some (con, s)"
    "client_in_step P c srv written taken answers (con, s, world (L\<lparr>world := k1\<rparr>)) v1"
    using Decides.prems(1) k1(2) by simp_all
  from Decides.IH [OF rangeI this ok(2) ds'(1)] k1 ds'(2) show ?case
    by (auto simp: bind_io_def)
qed

section \<open>From the connection to the disconnection\<close>

text \<open>The environment of a client that is to connect by itself.\<close>

definition client_environment :: "strtod \<Rightarrow> environment \<Rightarrow> string \<Rightarrow> u16 \<Rightarrow> int \<Rightarrow> double \<Rightarrow> bool" where
  "client_environment strtod getenv address port i c \<longleftrightarrow> getenv ''RSG_AUTOCONNECT'' \<noteq> None \<and>
     retrieve_rsg_connection_params_from_env getenv = ((address, port), Inr i) \<and>
     retrieve_rsg_think_time_from_env strtod getenv = Inr (False, c)"

text \<open>A system that connects to the server and loses nothing, and whose threads end.\<close>

definition client_system :: "'k platform \<Rightarrow> string \<Rightarrow> u16 \<Rightarrow> int \<Rightarrow> ('k \<Rightarrow> bytes) \<Rightarrow> ('k \<Rightarrow> nat) \<Rightarrow> (bytes \<Rightarrow> bytes) \<Rightarrow> bool" where
  "client_system P address port fd written taken answers \<longleftrightarrow> fd \<noteq> -1 \<and>
     (\<forall>k. \<exists>k'. k_socket (os P) k = (fd, k') \<and> same_streams written taken k k') \<and>
     connects (os P) address port fd written taken \<and> peer (os P) fd written taken answers \<and> clock_apart P written taken \<and>
     (\<forall>k. \<exists>k'. k_close (os P) fd k = (True, k') \<and> same_streams written taken k k') \<and>
     (\<forall>t k. \<exists>k'. join_thread P t k = Some k' \<and> same_streams written taken k k')"

definition connect_frame :: "'k platform \<Rightarrow> int \<Rightarrow> bytes" where
  "connect_frame P i = frame (little_endian P) (serialize (command_codec P) (KConnect i))"

definition connect_ack_frame :: "'k platform \<Rightarrow> command_ack \<Rightarrow> bytes" where
  "connect_ack_frame P a = frame (little_endian P) (serialize (command_ack_codec P) a)"

definition quit_message :: decision where
  "quit_message = \<lparr>think_time = Finite 0, type_case = KQuit True\<rparr>"

definition quit_frame :: "'k platform \<Rightarrow> bytes" where
  "quit_frame P = frame (little_endian P) (serialize (decision_codec P) quit_message)"

definition client_socket :: "int \<Rightarrow> tcp_socket" where
  "client_socket fd = new_socket\<lparr>sock_fd := fd, sock_connected := True\<rparr>"

lemma autoconnect_ok:
  assumes env: "client_environment strtod getenv address port i c"
    and sys: "client_system P address port fd written taken answers"
    and ok: "transferable (command_codec P) (command_ack_codec P) (KConnect i) ca"
    and ack: "drop (taken k) (answers (written k @ connect_frame P i)) = connect_ack_frame P ca"
    and srv: "plays (decision_frame P c) (ack_frame P) (decision_server c srv) answers
      (written k @ connect_frame P i) (taken k + length (connect_ack_frame P ca)) v"
  shows "\<exists>con k'. autoconnect P strtod getenv system (library_loaded k) =
      Some (Inr (), \<lparr>slot = Some (con, client_socket fd), ran = [], world = k'\<rparr>) \<and>
    client_in_step P c srv written taken answers (con, client_socket fd, k') v \<and>
    written k' = written k @ connect_frame P i"
proof -
  let ?s = "new_socket\<lparr>sock_fd := fd\<rparr>"
  obtain k0 where k0: "k_socket (os P) k = (fd, k0)" "same_streams written taken k k0"
    using sys unfolding client_system_def by blast
  have fd: "fd \<noteq> -1" using sys by (simp add: client_system_def)
  have hyps: "peer (os P) (sock_fd ?s) written taken answers" "clock_apart P written taken"
    "connects (os P) address port (sock_fd ?s) written taken" "sock_fd ?s \<noteq> -1" "\<not> sock_connected ?s"
    "decodes (command_ack_codec P) (serialize (command_ack_codec P) ca) ca"
    "length (serialize (command_ack_codec P) ca) < max_content_size"
    "length (serialize (command_codec P) (KConnect i)) < max_content_size"
    using sys ok by (simp_all add: client_system_def transferable_def new_socket_def)
  have "drop (taken k0) (answers (written k0 @ frame (little_endian P) (serialize (command_codec P) (KConnect i)))) =
      frame (little_endian P) (serialize (command_ack_codec P) ca) @ []"
    using ack k0(2) by (simp add: connect_frame_def connect_ack_frame_def same_streams_def)
  from connection_handshake [where strtod = strtod and getenv = getenv, OF hyps(1-7) refl hyps(8) this]
  obtain con k' where init: "connection_init P strtod getenv address port i (new_client_connection i, ?s, k0) =
      Some (Inr (), (con, client_socket fd, k'))"
    "written k' = written k @ connect_frame P i" "taken k' = taken k + length (connect_ack_frame P ca)"
    "\<not> measure_think_time con" "decision_think_time con = c"
    using env k0(2) by (auto simp: client_environment_def client_socket_def connect_frame_def connect_ack_frame_def same_streams_def)
  have params: "retrieve_rsg_connection_params_from_env getenv = ((address, port), Inr i)"
    "getenv ''RSG_AUTOCONNECT'' \<noteq> None" using env by (simp_all add: client_environment_def)
  have "autoconnect P strtod getenv system (library_loaded k) =
      Some (Inr (), \<lparr>slot = Some (con, client_socket fd), ran = [], world = k'\<rparr>)"
    using params k0(1) fd init(1) by (simp add: autoconnect_def connect_by_environment_def connect_to_server_def rsg_connect_def
        library_loaded_def client_connect_def tcp_socket_create_def return_io_def)
  moreover have "client_in_step P c srv written taken answers (con, client_socket fd, k') v"
    using init srv hyps(1) fd by (simp add: client_in_step_def open_socket_def client_socket_def)
  ultimately show ?thesis using init(2) by blast
qed

lemma join_all_ok:
  assumes "\<And>t k. \<exists>k'. join_thread P t k = Some k' \<and> same_streams written taken k k'"
  shows "\<exists>k'. join_all P ts k = Some k' \<and> same_streams written taken k k'"
proof (induction ts arbitrary: k)
  case Nil
  show ?case by (simp add: same_streams_def)
next
  case (Cons t ts)
  obtain k1 where k1: "join_thread P t k = Some k1" "same_streams written taken k k1" using assms by blast
  with Cons.IH [of k1] show ?case by (auto simp: same_streams_def)
qed

lemma autodisconnect_ok:
  assumes sys: "client_system P address port fd written taken answers"
    and L: "slot L = Some (con, client_socket fd)" and len: "length (serialize (decision_codec P) quit_message) < max_content_size"
  shows "\<exists>k'. autodisconnect P L = Some (Inr (), L\<lparr>slot := None, world := k'\<rparr>) \<and>
    written k' = written (world L) @ quit_frame P"
proof -
  let ?s = "client_socket fd"
  have s: "peer (os P) (sock_fd ?s) written taken answers" "open_socket ?s" "sock_fd ?s = fd" "fd \<noteq> -1"
    using sys by (simp_all add: client_system_def client_socket_def open_socket_def)
  obtain k1 where k1: "write_message (os P) (little_endian P) (decision_codec P) quit_message (?s, world L) = Some (Inr (), (?s, k1))"
    "written k1 = written (world L) @ quit_frame P"
    using write_message_peer [where k = "world L" and little = "little_endian P", OF s(1,2) len] by (auto simp: quit_frame_def)
  obtain k2 where k2: "k_close (os P) fd k1 = (True, k2)" "same_streams written taken k1 k2"
    using sys unfolding client_system_def by blast
  obtain k3 where k3: "join_all P (child_threads con) k2 = Some k3" "same_streams written taken k2 k3"
    using join_all_ok [of P written taken "child_threads con" k2] sys unfolding client_system_def by blast
  have "autodisconnect P L = Some (Inr (), L\<lparr>slot := None, world := k3\<rparr>)"
    using L k1(1) k2(1) k3(1) s(3,4) by (simp add: autodisconnect_def rsg_disconnect_def disconnect_def on_socket_def
        tcp_close_def bind_io_def return_io_def quit_message_def)
  with k1(2) k2(2) k3(2) show ?thesis by (auto simp: same_streams_def)
qed

text \<open>C12: from its start to its end a client process sends the CONNECT command of its actor, the decisions that
  its program takes and, when the program has finished, QUIT, and nothing else; and the
  program gets what it would get next to the server, although each of its decisions may depend on the answers
  to the ones before and the system cuts the streams as it likes. A program that ends with an
  exception sends the same without QUIT and leaves its connection open, so the server waits for it until the
  system closes the socket.
\<close>

theorem process_is_transparent:
  assumes "client_environment strtod getenv address port i c"
    and "client_system P address port fd written taken answers"
    and "transferable (command_codec P) (command_ack_codec P) (KConnect i) ca"
    and "drop (taken k) (answers (written k @ connect_frame P i)) = connect_ack_frame P ca"
    and "plays (decision_frame P c) (ack_frame P) (decision_server c srv) answers
      (written k @ connect_frame P i) (taken k + length (connect_ack_frame P ca)) v"
    and "user_ok P c srv p v" "length (serialize (decision_codec P) quit_message) < max_content_size"
    and "run_next_to c srv p v = (ds, r, v')"
  shows "\<exists>L. process_life P strtod getenv system p (library_loaded k) = Some (r, L) \<and> ran L = [] \<and>
    (case r of
       Inr x \<Rightarrow> slot L = None \<and>
         written (world L) = written k @ connect_frame P i @ concat (map (decision_frame P c) ds) @ quit_frame P
     | Inl e \<Rightarrow> (\<exists>con s. slot L = Some (con, s) \<and> sock_connected s) \<and>
         written (world L) = written k @ connect_frame P i @ concat (map (decision_frame P c) ds))"
proof -
  obtain con k1 where k1: "autoconnect P strtod getenv system (library_loaded k) =
      Some (Inr (), \<lparr>slot = Some (con, client_socket fd), ran = [], world = k1\<rparr>)"
    "client_in_step P c srv written taken answers (con, client_socket fd, k1) v"
    "written k1 = written k @ connect_frame P i"
    using autoconnect_ok [OF assms(1-5)] by blast
  let ?L = "\<lparr>slot = Some (con, client_socket fd), ran = [], world = k1\<rparr>"
  have L: "slot ?L = Some (con, client_socket fd)"
    "client_in_step P c srv written taken answers (con, client_socket fd, world ?L) v" using k1(2) by simp_all
  obtain k2 where k2: "run_user P p ?L = Some (r, ?L\<lparr>world := k2\<rparr>)"
    "written k2 = written k1 @ concat (map (decision_frame P c) ds)"
    using run_user_ok [OF L assms(6,8)] by auto
  show ?thesis
  proof (cases r)
    case (Inl e)
    then have "process_life P strtod getenv system p (library_loaded k) = Some (r, ?L\<lparr>world := k2\<rparr>)"
      using k1(1) k2(1) by (simp add: process_life_def bind_io_def)
    with Inl k1(3) k2(2) show ?thesis by (simp add: client_socket_def)
  next
    case (Inr x)
    have "slot (?L\<lparr>world := k2\<rparr>) = Some (con, client_socket fd)" by simp
    from autodisconnect_ok [OF assms(2) this assms(7)] obtain k3 where
      k3: "autodisconnect P (?L\<lparr>world := k2\<rparr>) = Some (Inr (), ?L\<lparr>slot := None, world := k3\<rparr>)"
      "written k3 = written k2 @ quit_frame P" by auto
    then have "process_life P strtod getenv system p (library_loaded k) = Some (r, ?L\<lparr>slot := None, world := k3\<rparr>)"
      using Inr k1(1) k2(1) by (simp add: process_life_def bind_io_def return_io_def)
    with Inr k1(3) k2(2) k3(2) show ?thesis by simp
  qed
qed

text \<open>A client that asks for the time and yields, on a server that answers every five bytes.\<close>

definition clock_ack :: decision_ack where
  "clock_ack = ack_ok\<lparr>ack_data := A_engineGetClock (Finite 3)\<rparr>"

definition clock_platform :: "(bytes \<times> nat) platform" where
  "clock_platform = (example_platform command_ack0 clock_ack)\<lparr>os := answering_kernel echoes\<rparr>"

definition clock_server :: "unit \<Rightarrow> decision \<Rightarrow> decision_ack \<times> unit" where
  "clock_server v d = (clock_ack, v)"

definition clock_client :: "double user" where
  "clock_client = user_method engine_get_clock (\<lambda>t. case t of
      Inl e \<Rightarrow> Throws e
    | Inr t \<Rightarrow> user_method this_actor_yield (\<lambda>_. Finished t))"

definition clock_environment :: environment where
  "clock_environment = [''RSG_AUTOCONNECT'' \<mapsto> ''1'', ''RSG_SERVER_HOSTNAME'' \<mapsto> ''127.0.0.1'',
     ''RSG_SERVER_PORT'' \<mapsto> decimal 35000, ''RSG_INITIAL_ACTOR_ID'' \<mapsto> decimal 2]"

lemma clock_frames:
  "decision_frame clock_platform c d = frame True [1]" "ack_frame clock_platform a = frame True [1]"
  "connect_frame clock_platform i = frame True [1]" "connect_ack_frame clock_platform ca = frame True [1]"
  "quit_frame clock_platform = frame True [1]"
  by (simp_all add: decision_frame_def ack_frame_def connect_frame_def connect_ack_frame_def quit_frame_def
      clock_platform_def example_platform_def constant_codec_def)

lemma clock_plays:
  "plays (decision_frame clock_platform c) (ack_frame clock_platform) (decision_server c clock_server) echoes
     (frame True [1]) 5 v"
proof -
  have "fst (Remote_Session.replies (decision_server c clock_server) qs v) = replicate (length qs) clock_ack" for qs
    by (induction qs) (auto simp: decision_server_def clock_server_def split: prod.splits dest: arg_cong [of _ _ fst])
  then show ?thesis
    by (simp add: plays_def echoes_def clock_frames length_concat comp_def map_replicate_const sum_list_replicate)
qed

theorem process_is_transparent_witness:
  "\<exists>L. process_life clock_platform (\<lambda>_. (Finite 0, 0, False)) clock_environment 0 clock_client (library_loaded ([], 0)) =
     Some (Inr (Finite 3), L) \<and> slot L = None \<and> length (fst (world L)) = 20"
proof -
  have env: "client_environment (\<lambda>_. (Finite 0, 0, False)) clock_environment ''127.0.0.1'' 35000 2 (Finite 0)"
    by (simp add: client_environment_def clock_environment_def retrieve_rsg_connection_params_from_env_def
        retrieve_initial_actor_id_from_env_def retrieve_rsg_think_time_from_env_def stoi_decimal)
  have "peer (os clock_platform) 3 fst snd echoes" by (simp add: clock_platform_def answering_kernel_peer)
  then have sys: "client_system clock_platform ''127.0.0.1'' 35000 3 fst snd echoes"
    by (simp add: client_system_def connects_def same_streams_def clock_platform_def example_platform_def
        answering_kernel_def clock_apart_def)
  have ok: "transferable (command_codec clock_platform) (command_ack_codec clock_platform) (KConnect 2) command_ack0"
    "user_ok clock_platform (Finite 0) clock_server clock_client ()"
    "length (serialize (decision_codec clock_platform) quit_message) < max_content_size"
    "run_next_to (Finite 0) clock_server clock_client () =
      ([\<lparr>think_time = Finite 0, type_case = fst engine_get_clock\<rparr>, \<lparr>think_time = Finite 0, type_case = fst this_actor_yield\<rparr>],
       Inr (Finite 3), ())"
    by (simp_all add: transferable_def clock_platform_def example_platform_def constant_codec_def decodes_def max_content_size_def
        clock_client_def user_method_def clock_server_def engine_get_clock_def enforce_success_def clock_ack_def ack_ok_def
        get_engineGetClock_def)
  have plays: "drop (snd ([], 0::nat)) (echoes (fst ([], 0::nat) @ connect_frame clock_platform 2)) = connect_ack_frame clock_platform command_ack0"
    "plays (decision_frame clock_platform (Finite 0)) (ack_frame clock_platform) (decision_server (Finite 0) clock_server) echoes
      (fst ([], 0::nat) @ connect_frame clock_platform 2) (snd ([], 0::nat) + length (connect_ack_frame clock_platform command_ack0)) ()"
    using clock_plays by (simp_all add: clock_frames echoes_def)
  from process_is_transparent [OF env sys ok(1) plays ok(2-4), of 0] show ?thesis
    by (auto simp: clock_frames)
qed

end
