(* ===== verification/Barely_Connected.thy ===== *)
theory Barely_Connected
  imports Message "HOL-Library.Sublist"
begin

text \<open>
  The sockets that just connected: \<^verbatim>\<open>BarelyConnectedSocketInformation\<close> and
  \<^verbatim>\<open>handle_barely_connected_socket_read\<close> of \<^verbatim>\<open>src/rsg/serve.cpp\<close>, which reads a
  client's command in as many pieces as the socket delivers. The theory shows that these pieces
  add up to \<open>read_message\<close>, and that an incomplete command blocks its reader.
\<close>

section \<open>The reader\<close>

text \<open>
  The four bytes of \<^verbatim>\<open>content_size\<close> are written in place as they arrive; the content buffer
  is allocated, zeroed, when the header is complete and the content is not empty.
\<close>

record barely_connected =
  bytes_read :: nat
  size_bytes :: bytes
  content_buffer :: "bytes option"

definition new_barely_connected :: barely_connected where
  "new_barely_connected = \<lparr>bytes_read = 0, size_bytes = [0, 0, 0, 0], content_buffer = None\<rparr>"

definition content_size :: "bool \<Rightarrow> barely_connected \<Rightarrow> nat" where
  "content_size little info = unat (header_value little (size_bytes info))"

text \<open>\<^verbatim>\<open>recv\<close> into a buffer at an offset.\<close>

definition overwrite :: "nat \<Rightarrow> bytes \<Rightarrow> bytes \<Rightarrow> bytes" where
  "overwrite off bs buf = take off buf @ bs @ drop (off + length bs) buf"

text \<open>The second part: some of the content; the message when it is complete.\<close>

definition read_content :: "'k kernel \<Rightarrow> bool \<Rightarrow> 'm codec \<Rightarrow> bool \<Rightarrow> barely_connected \<Rightarrow>
    ('k socket_state, 'm option \<times> barely_connected) io" where
  "read_content K little C header_newly_read info =
     (if content_size little info = 0 then return_io (Some (default_message C), info)
      else
        let remaining = content_size little info + 4 - bytes_read info in
        bind_io (tcp_recv K remaining) (\<lambda>bs.
          let info' = info\<lparr>bytes_read := bytes_read info + length bs,
                content_buffer := map_option (overwrite (bytes_read info - 4) bs) (content_buffer info)\<rparr> in
          bind_io (enforce_io (0 < length bs \<or> header_newly_read)
             ''Did not read anything from socket (while reading content). Close socket?'') (\<lambda>_.
          if length bs = remaining
          then (case parse C (the (content_buffer info')) of
                  None \<Rightarrow> raise_io ''Could not deserialize Protobuf Command message''
                | Some command \<Rightarrow> return_io (Some command, info'))
          else return_io (None, info'))))"

definition handle_barely_connected_socket_read :: "'k kernel \<Rightarrow> bool \<Rightarrow> 'm codec \<Rightarrow> barely_connected \<Rightarrow>
    ('k socket_state, 'm option \<times> barely_connected) io" where
  "handle_barely_connected_socket_read K little C info =
     (if 4 \<le> bytes_read info then read_content K little C False info
      else
        bind_io (tcp_recv K (4 - bytes_read info)) (\<lambda>bs.
          let info' = info\<lparr>bytes_read := bytes_read info + length bs,
                size_bytes := overwrite (bytes_read info) bs (size_bytes info)\<rparr> in
          bind_io (enforce_io (0 < length bs)
             ''Did not read anything from socket (while reading header). Close socket?'') (\<lambda>_.
          if bytes_read info' < 4 then return_io (None, info')
          else
            bind_io (enforce_io (content_size little info' < max_content_size)
               ''Read invalid message content size (%u). Expected it to be in [0,%u]'') (\<lambda>_.
            read_content K little C True
              (if 0 < content_size little info'
               then info'\<lparr>content_buffer := Some (replicate (content_size little info') 0)\<rparr>
               else info')))))"

text \<open>
  The server calls it again on the same socket until it has the whole command: after an
  incomplete read its loop over the barely connected sockets does not advance.
\<close>

partial_function (option) read_command :: "'k kernel \<Rightarrow> bool \<Rightarrow> 'm codec \<Rightarrow> barely_connected \<Rightarrow>
    ('k socket_state, 'm \<times> barely_connected) io" where
  "read_command K little C info sk =
     (case handle_barely_connected_socket_read K little C info sk of
        None \<Rightarrow> None
      | Some (Inl e, sk') \<Rightarrow> Some (Inl e, sk')
      | Some (Inr (Some command, info'), sk') \<Rightarrow> Some (Inr (command, info'), sk')
      | Some (Inr (None, info'), sk') \<Rightarrow> read_command K little C info' sk')"

section \<open>The state of an incomplete command\<close>

text \<open>\<open>info\<close> holds the first bytes of the frame of the content \<open>c\<close>.\<close>

definition partly_read :: "bool \<Rightarrow> bytes \<Rightarrow> barely_connected \<Rightarrow> bool" where
  "partly_read little c info \<longleftrightarrow> bytes_read info \<le> length c + 4 \<and>
     size_bytes info = take (bytes_read info) (header_bytes little (of_nat (length c))) @
       replicate (4 - bytes_read info) 0 \<and>
     (4 \<le> bytes_read info \<longrightarrow> c \<noteq> [] \<and> bytes_read info < length c + 4 \<and>
        content_buffer info = Some (take (bytes_read info - 4) c @ replicate (length c + 4 - bytes_read info) 0))"

lemma partly_read_new: "partly_read little c new_barely_connected"
  by (simp add: partly_read_def new_barely_connected_def numeral_eq_Suc)

lemma overwrite_next:
  assumes "length bs \<le> n"
  shows "overwrite (length xs) bs (xs @ replicate n z) = (xs @ bs) @ replicate (n - length bs) z"
  using assms by (simp add: overwrite_def)

lemma tcp_recv_open:
  assumes "readable_stream K (sock_fd s) unread" "open_socket s" "0 < n" "unread k \<noteq> []"
  shows "\<exists>bs k'. tcp_recv K n (s, k) = Some (Inr bs, (s, k')) \<and> bs \<noteq> [] \<and> length bs \<le> n \<and>
    unread k = bs @ unread k'"
proof -
  obtain bs k' where "k_recv K (sock_fd s) n k = (Received bs, k')" "bs \<noteq> []" "length bs \<le> n"
    "unread k = bs @ unread k'"
    using assms(1,3,4) unfolding readable_stream_def by blast
  with assms(2) show ?thesis
    by (auto simp: tcp_recv_def io_defs check_socket_def open_socket_def)
qed

text \<open>One read of the content.\<close>

lemma content_read:
  assumes "partly_read little c info" "4 \<le> bytes_read info" "length c < 2 ^ 32"
    and "drop (bytes_read info - 4) c @ after = bs @ left" "bs \<noteq> []"
      "length bs \<le> length c + 4 - bytes_read info"
    and "tcp_recv K (length c + 4 - bytes_read info) sk = Some (Inr bs, sk')"
  shows "read_content K little C new info sk =
     (if length bs = length c + 4 - bytes_read info
      then (case parse C c of
          None \<Rightarrow> raise_io ''Could not deserialize Protobuf Command message'' sk'
        | Some m \<Rightarrow> return_io (Some m, info\<lparr>bytes_read := length c + 4, content_buffer := Some c\<rparr>) sk')
      else return_io (None, info\<lparr>bytes_read := bytes_read info + length bs,
          content_buffer := Some (take (bytes_read info - 4 + length bs) c @
             replicate (length c + 4 - (bytes_read info + length bs)) 0)\<rparr>) sk')"
proof -
  let ?n = "bytes_read info - 4"
  have n: "?n < length c" "c \<noteq> []" using assms(1,2) by (auto simp: partly_read_def)
  have size: "content_size little info = length c"
    using assms(1-3) by (simp add: partly_read_def content_size_def unat_of_length)
  have bs: "bs = take (length bs) (drop ?n c)"
  proof -
    have "take (length bs) (drop ?n c @ after) = bs" using assms(4) by simp
    then show ?thesis using assms(2,6) by simp
  qed
  have buf: "content_buffer info = Some (take ?n c @ replicate (length c - ?n) 0)"
    using assms(1,2) n by (auto simp: partly_read_def)
  have "map_option (overwrite ?n bs) (content_buffer info) =
      Some ((take ?n c @ bs) @ replicate (length c - ?n - length bs) 0)"
    using overwrite_next [of bs "length c - ?n" "take ?n c" 0] n assms(2,6) buf by (simp add: min_def)
  also have "take ?n c @ bs = take (?n + length bs) c"
    using bs by (metis take_add)
  finally have new: "map_option (overwrite ?n bs) (content_buffer info) =
      Some (take (?n + length bs) c @ replicate (length c - ?n - length bs) 0)" .
  show ?thesis
    using assms(2,5,6,7) n new
    by (auto simp: read_content_def size io_defs Let_def split: option.splits)
qed

text \<open>
  What one call does on a stream that starts with the rest of the frame: the message and the
  stream after it, or progress.
\<close>

definition missing :: "bytes \<Rightarrow> barely_connected \<Rightarrow> nat" where
  "missing c info = length c + 4 - bytes_read info"

definition one_read :: "bool \<Rightarrow> bytes \<Rightarrow> 'm \<Rightarrow> tcp_socket \<Rightarrow> ('k \<Rightarrow> bytes) \<Rightarrow> 'k \<Rightarrow> barely_connected \<Rightarrow>
    ((rsg_error + 'm option \<times> barely_connected) \<times> 'k socket_state) option \<Rightarrow> bool" where
  "one_read little c m s unread k info res \<longleftrightarrow> (\<exists>info' k'.
     (res = Some (Inr (Some m, info'), (s, k')) \<and> missing c info \<le> length (unread k) \<and>
        unread k' = drop (missing c info) (unread k)) \<or>
     (res = Some (Inr (None, info'), (s, k')) \<and> partly_read little c info' \<and>
        bytes_read info < bytes_read info' \<and>
        bytes_read info' - bytes_read info \<le> length (unread k) \<and>
        unread k' = drop (bytes_read info' - bytes_read info) (unread k)))"

lemma prefix_take: "prefix (bs @ xs) ys \<Longrightarrow> bs = take (length bs) ys"
  by (auto simp: prefix_def)

lemma content_step:
  assumes str: "readable_stream K (sock_fd s) unread" "open_socket s"
    and pr: "partly_read little c info" "4 \<le> bytes_read info" "length c < 2 ^ 32" "decodes C c m"
    and u: "unread k \<noteq> []" "prefix (unread k) (drop (bytes_read info - 4) c @ rest)"
  shows "one_read little c m s unread k info (read_content K little C new info (s, k))"
proof -
  have c: "c \<noteq> []" "bytes_read info < length c + 4" using pr(1,2) by (auto simp: partly_read_def)
  let ?r = "length c + 4 - bytes_read info"
  have "0 < ?r" using c(2) by simp
  from tcp_recv_open [OF str this u(1)] obtain bs k' where
    bs: "tcp_recv K ?r (s, k) = Some (Inr bs, (s, k'))" "bs \<noteq> []" "length bs \<le> ?r" "unread k = bs @ unread k'"
    by blast
  obtain left where left: "drop (bytes_read info - 4) c @ rest = bs @ left"
    using u(2) bs(4) by (auto simp: prefix_def)
  note read = content_read [OF pr(1-3) left bs(2,3,1), of C new]
  show ?thesis
  proof (cases "length bs = ?r")
    case True
    with pr(4) c(1) have res: "read_content K little C new info (s, k) = Some (Inr (Some m,
        info\<lparr>bytes_read := length c + 4, content_buffer := Some c\<rparr>), (s, k'))"
      unfolding read by (simp add: decodes_def return_io_def)
    have "missing c info \<le> length (unread k)" "unread k' = drop (missing c info) (unread k)"
      using True bs(4) by (simp_all add: missing_def)
    with res show ?thesis unfolding one_read_def by blast
  next
    case False
    let ?info = "info\<lparr>bytes_read := bytes_read info + length bs,
          content_buffer := Some (take (bytes_read info - 4 + length bs) c @
             replicate (length c + 4 - (bytes_read info + length bs)) 0)\<rparr>"
    have res: "read_content K little C new info (s, k) = Some (Inr (None, ?info), (s, k'))"
      unfolding read using False by (simp add: return_io_def)
    have "partly_read little c ?info"
      using pr(1,2) c bs(3) False by (auto simp: partly_read_def)
    moreover have "bytes_read info < bytes_read ?info" using bs(2) by simp
    moreover have "bytes_read ?info - bytes_read info \<le> length (unread k)"
      "unread k' = drop (bytes_read ?info - bytes_read info) (unread k)" using bs(4) by simp_all
    ultimately show ?thesis using res unfolding one_read_def by blast
  qed
qed

lemma one_read_shift:
  assumes "one_read little c m s unread k' info' res" "bytes_read info \<le> bytes_read info'"
    "bytes_read info' \<le> length c + 4" "bytes_read info' - bytes_read info \<le> length (unread k)"
    "unread k' = drop (bytes_read info' - bytes_read info) (unread k)"
  shows "one_read little c m s unread k info res"
proof -
  let ?d = "bytes_read info' - bytes_read info"
  from assms(1) consider
      (full) info1 k1 where "res = Some (Inr (Some m, info1), (s, k1))" "missing c info' \<le> length (unread k')"
        "unread k1 = drop (missing c info') (unread k')"
    | (part) info1 k1 where "res = Some (Inr (None, info1), (s, k1))" "partly_read little c info1"
        "bytes_read info' < bytes_read info1" "bytes_read info1 - bytes_read info' \<le> length (unread k')"
        "unread k1 = drop (bytes_read info1 - bytes_read info') (unread k')"
    unfolding one_read_def by blast
  then show ?thesis
  proof cases
    case full
    have "missing c info = missing c info' + ?d" using assms(2,3) by (simp add: missing_def)
    with full assms(4,5) have "missing c info \<le> length (unread k)"
      "unread k1 = drop (missing c info) (unread k)" by (simp_all add: add.commute)
    with full(1) show ?thesis unfolding one_read_def by blast
  next
    case part
    have d: "bytes_read info1 - bytes_read info = ?d + (bytes_read info1 - bytes_read info')"
      using assms(2) part(3) by linarith
    have "bytes_read info < bytes_read info1" using assms(2) part(3) by linarith
    moreover have "bytes_read info1 - bytes_read info \<le> length (unread k)"
      using part(4) assms(4) unfolding d assms(5) length_drop by linarith
    moreover have "unread k1 = drop (bytes_read info1 - bytes_read info) (unread k)"
      unfolding d part(5) assms(5) by (simp add: add.commute)
    ultimately show ?thesis using part(1,2) unfolding one_read_def by blast
  qed
qed

text \<open>A connection whose other end is open but silent.\<close>

definition waits :: "'k kernel \<Rightarrow> int \<Rightarrow> ('k \<Rightarrow> bytes) \<Rightarrow> bool" where
  "waits K fd unread \<longleftrightarrow> (\<forall>n k. 0 < n \<and> unread k = [] \<longrightarrow> fst (k_recv K fd n k) = Recv_blocks)"

lemma tcp_recv_waits:
  assumes "waits K (sock_fd s) unread" "open_socket s" "0 < n" "unread k = []"
  shows "tcp_recv K n (s, k) = None"
proof -
  have "fst (k_recv K (sock_fd s) n k) = Recv_blocks" using assms(1,3,4) by (simp add: waits_def)
  then obtain k' where "k_recv K (sock_fd s) n k = (Recv_blocks, k')" by (metis prod.collapse)
  with assms(2) show ?thesis
    by (simp add: tcp_recv_def io_defs check_socket_def open_socket_def)
qed

lemma header_received:
  assumes "partly_read little c info" "bytes_read info < 4" "length bs \<le> 4 - bytes_read info"
    "prefix bs (drop (bytes_read info) (frame little c) @ rest)"
  shows "overwrite (bytes_read info) bs (size_bytes info) =
     take (bytes_read info + length bs) (header_bytes little (of_nat (length c))) @
       replicate (4 - (bytes_read info + length bs)) 0"
proof -
  let ?h = "header_bytes little (of_nat (length c))" and ?n = "bytes_read info"
  have "drop ?n (frame little c) @ rest = drop ?n ?h @ c @ rest"
    using assms(2) by (simp add: frame_def)
  with assms(4) have "prefix (bs @ []) (drop ?n ?h @ c @ rest)" by simp
  from prefix_take [OF this] have "bs = take (length bs) (drop ?n ?h @ c @ rest)" .
  then have bs: "bs = take (length bs) (drop ?n ?h)" using assms(2,3) by simp
  have "size_bytes info = take ?n ?h @ replicate (4 - ?n) 0" using assms(1) by (simp add: partly_read_def)
  then have "overwrite ?n bs (size_bytes info) = (take ?n ?h @ bs) @ replicate (4 - ?n - length bs) 0"
    using overwrite_next [of bs "4 - ?n" "take ?n ?h" 0] assms(2,3) by (simp add: min_def)
  also have "take ?n ?h @ bs = take (?n + length bs) ?h" using bs by (metis take_add)
  finally show ?thesis by simp
qed

text \<open>One call of the reader.\<close>

lemma call_step:
  assumes str: "readable_stream K (sock_fd s) unread" "open_socket s"
    and pr: "partly_read little c info" "length c < max_content_size" "decodes C c m"
    and u: "prefix (unread k) (drop (bytes_read info) (frame little c) @ rest)"
    and w: "missing c info \<le> length (unread k) \<or> waits K (sock_fd s) unread"
  shows "one_read little c m s unread k info (handle_barely_connected_socket_read K little C info (s, k)) \<or>
    (handle_barely_connected_socket_read K little C info (s, k) = None \<and> length (unread k) < missing c info)"
proof (cases "4 \<le> bytes_read info")
  case True
  have c: "bytes_read info < length c + 4" "c \<noteq> []" using pr(1) True by (auto simp: partly_read_def)
  have len: "length c < 2 ^ 32" using pr(2) by (simp add: max_content_size_def)
  have call: "handle_barely_connected_socket_read K little C info (s, k) = read_content K little C False info (s, k)"
    using True by (simp add: handle_barely_connected_socket_read_def)
  show ?thesis
  proof (cases "unread k = []")
    case False
    have "prefix (unread k) (drop (bytes_read info - 4) c @ rest)"
      using u True by (simp add: frame_def)
    from content_step [OF str pr(1) True len pr(3) False this] show ?thesis by (simp add: call)
  next
    case empty: True
    have missing: "0 < missing c info" using c by (simp add: missing_def)
    with w empty have "waits K (sock_fd s) unread" by auto
    from tcp_recv_waits [OF this str(2) missing empty]
    have "read_content K little C False info (s, k) = None"
      using pr(1) True c len by (simp add: read_content_def content_size_def partly_read_def unat_of_length
          missing_def io_defs Let_def)
    with empty missing show ?thesis by (simp add: call)
  qed
next
  case False
  let ?r = "4 - bytes_read info"
  have r: "0 < ?r" using False by simp
  have missing: "?r \<le> missing c info" using False by (simp add: missing_def)
  have len: "length c < 2 ^ 32" using pr(2) by (simp add: max_content_size_def)
  show ?thesis
  proof (cases "unread k = []")
    case True
    with w missing r have "waits K (sock_fd s) unread" by auto
    from tcp_recv_waits [OF this str(2) r True] have none: "tcp_recv K ?r (s, k) = None" .
    have "0 < missing c info" using missing r by linarith
    with none show ?thesis using True False
      by (simp add: handle_barely_connected_socket_read_def io_defs)
  next
    case ne: False
    obtain bs k' where bs: "tcp_recv K ?r (s, k) = Some (Inr bs, (s, k'))" "bs \<noteq> []" "length bs \<le> ?r"
      "unread k = bs @ unread k'" using tcp_recv_open [OF str r ne] by blast
    let ?info = "info\<lparr>bytes_read := bytes_read info + length bs,
        size_bytes := overwrite (bytes_read info) bs (size_bytes info)\<rparr>"
    have "prefix bs (drop (bytes_read info) (frame little c) @ rest)"
      using u bs(4) by (metis append_prefixD)
    note hdr = header_received [OF pr(1) _ bs(3) this]
    have k': "bytes_read ?info - bytes_read info \<le> length (unread k)"
      "unread k' = drop (bytes_read ?info - bytes_read info) (unread k)" using bs(4) by simp_all
    show ?thesis
    proof (cases "bytes_read ?info < 4")
      case True
      then have "handle_barely_connected_socket_read K little C info (s, k) = Some (Inr (None, ?info), (s, k'))"
        using False bs(1,2) by (simp add: handle_barely_connected_socket_read_def io_defs Let_def)
      moreover have "partly_read little c ?info"
        using hdr True False by (simp add: partly_read_def)
      moreover have "bytes_read info < bytes_read ?info" using bs(2) by simp
      ultimately show ?thesis using k' unfolding one_read_def by blast
    next
      case full: False
      then have br: "bytes_read ?info = 4" using bs(3) False by simp
      then have "size_bytes ?info = header_bytes little (of_nat (length c))" using hdr False by simp
      then have size: "content_size little ?info = length c"
        using len by (simp add: content_size_def unat_of_length)
      let ?info' = "if 0 < length c then ?info\<lparr>content_buffer := Some (replicate (length c) 0)\<rparr> else ?info"
      have call: "handle_barely_connected_socket_read K little C info (s, k) =
          read_content K little C True ?info' (s, k')"
        using False bs(1,2) br size pr(2)
        by (simp add: handle_barely_connected_socket_read_def io_defs Let_def)
      have u': "prefix (unread k') (drop 4 (frame little c) @ rest)"
      proof -
        obtain left where left: "drop (bytes_read info) (frame little c) @ rest = bs @ unread k' @ left"
          using u bs(4) by (auto simp: prefix_def)
        have "length bs = ?r" using br False by simp
        with left have "drop ?r (drop (bytes_read info) (frame little c) @ rest) = unread k' @ left" by simp
        moreover have "drop ?r (drop (bytes_read info) (frame little c) @ rest) = drop 4 (frame little c) @ rest"
          using False by simp
        ultimately have "drop 4 (frame little c) @ rest = unread k' @ left" by simp
        then show ?thesis by (rule prefixI)
      qed
      show ?thesis
      proof (cases "c = []")
        case True
        then have "handle_barely_connected_socket_read K little C info (s, k) =
            Some (Inr (Some m, ?info), (s, k'))"
          using call size pr(3) by (simp add: read_content_def decodes_def return_io_def)
        moreover have "missing c info = length bs" using True br False by (simp add: missing_def)
        moreover have "missing c info \<le> length (unread k)" using bs(4) calculation(2) by simp
        moreover have "unread k' = drop (missing c info) (unread k)" using bs(4) calculation(2) by simp
        ultimately show ?thesis unfolding one_read_def by blast
      next
        case c: False
        have "content_size little ?info' = length c" using size c by (simp add: content_size_def)
        have pr': "partly_read little c ?info'"
          using c br hdr False by (simp add: partly_read_def content_size_def)
        have br': "bytes_read ?info' = 4" using br by simp
        have shift: "bytes_read info \<le> bytes_read ?info'" "bytes_read ?info' \<le> length c + 4"
          "bytes_read ?info' - bytes_read info \<le> length (unread k)"
          "unread k' = drop (bytes_read ?info' - bytes_read info) (unread k)"
          using br k' False by simp_all
        show ?thesis
        proof (cases "unread k' = []")
          case False
          have "one_read little c m s unread k' ?info' (read_content K little C True ?info' (s, k'))"
            using u' br' by (intro content_step [OF str pr' _ len pr(3) False, of rest]) (simp_all add: frame_def)
          from one_read_shift [OF this shift] show ?thesis by (simp add: call)
        next
          case True
          then have "length (unread k) = length bs" "bytes_read info + length bs = 4"
            using bs(4) br by simp_all
          moreover have "0 < length c" using c by simp
          ultimately have short: "length (unread k) < missing c info"
            unfolding missing_def by linarith
          with w have "waits K (sock_fd s) unread" by simp
          from tcp_recv_waits [OF this str(2) _ True, of "length c"]
          have "read_content K little C True ?info' (s, k') = None"
            using c br size by (simp add: read_content_def content_size_def io_defs Let_def)
          with short show ?thesis by (simp add: call)
        qed
      qed
    qed
  qed
qed

section \<open>The whole command\<close>

lemma read_command_step:
  "read_command K little C info sk =
     (case handle_barely_connected_socket_read K little C info sk of
        None \<Rightarrow> None
      | Some (Inl e, sk') \<Rightarrow> Some (Inl e, sk')
      | Some (Inr (Some command, info'), sk') \<Rightarrow> Some (Inr (command, info'), sk')
      | Some (Inr (None, info'), sk') \<Rightarrow> read_command K little C info' sk')"
  by (subst read_command.simps) (rule refl)

lemma read_command_stream:
  assumes str: "readable_stream K (sock_fd s) unread" "open_socket s"
    and len: "length c < max_content_size" "decodes C c m"
  shows "partly_read little c info \<Longrightarrow> prefix (unread k) (drop (bytes_read info) (frame little c) @ rest) \<Longrightarrow>
    missing c info \<le> length (unread k) \<or> waits K (sock_fd s) unread \<Longrightarrow>
    (if missing c info \<le> length (unread k)
     then \<exists>info' k'. read_command K little C info (s, k) = Some (Inr (m, info'), (s, k')) \<and>
       unread k' = drop (missing c info) (unread k)
     else read_command K little C info (s, k) = None)"
proof (induction "missing c info" arbitrary: info k rule: less_induct)
  case less
  from call_step [OF str less.prems(1) len less.prems(2,3)] show ?case
  proof
    assume "handle_barely_connected_socket_read K little C info (s, k) = None \<and>
        length (unread k) < missing c info"
    then show ?thesis by (subst read_command_step) simp
  next
    assume "one_read little c m s unread k info (handle_barely_connected_socket_read K little C info (s, k))"
    then consider
        (full) info1 k1 where "handle_barely_connected_socket_read K little C info (s, k) =
            Some (Inr (Some m, info1), (s, k1))" "missing c info \<le> length (unread k)"
          "unread k1 = drop (missing c info) (unread k)"
      | (part) info1 k1 where "handle_barely_connected_socket_read K little C info (s, k) =
            Some (Inr (None, info1), (s, k1))" "partly_read little c info1"
          "bytes_read info < bytes_read info1" "bytes_read info1 - bytes_read info \<le> length (unread k)"
          "unread k1 = drop (bytes_read info1 - bytes_read info) (unread k)"
      unfolding one_read_def by blast
    then show ?thesis
    proof cases
      case full
      then have "read_command K little C info (s, k) = Some (Inr (m, info1), (s, k1))"
        by (subst read_command_step) simp
      with full(2,3) show ?thesis by simp
    next
      case part
      let ?d = "bytes_read info1 - bytes_read info"
      have step: "read_command K little C info (s, k) = read_command K little C info1 (s, k1)"
        using part(1) by (subst read_command_step) simp
      have "bytes_read info1 \<le> length c + 4" using part(2) by (simp add: partly_read_def)
      with part(3) have less: "missing c info1 < missing c info" and eq: "missing c info = missing c info1 + ?d"
        by (simp_all add: missing_def)
      have pre: "prefix (unread k1) (drop (bytes_read info1) (frame little c) @ rest)"
      proof -
        obtain left where left: "drop (bytes_read info) (frame little c) @ rest = unread k @ left"
          using less.prems(2) by (auto simp: prefix_def)
        have "drop ?d (drop (bytes_read info) (frame little c) @ rest) =
            drop (bytes_read info1) (frame little c) @ rest"
          using part(3) \<open>bytes_read info1 \<le> length c + 4\<close> by simp
        with left part(4,5) have "drop (bytes_read info1) (frame little c) @ rest = unread k1 @ left"
          by simp
        then show ?thesis by (rule prefixI)
      qed
      have w: "missing c info1 \<le> length (unread k1) \<or> waits K (sock_fd s) unread"
        using less.prems(3) part(5) eq by auto
      have sum: "missing c info \<le> length (unread k) \<longleftrightarrow> missing c info1 \<le> length (unread k1)"
        using part(4,5) eq by auto
      have rest: "drop (missing c info1) (unread k1) = drop (missing c info) (unread k)"
        using part(5) eq by simp
      show ?thesis
        using less.hyps [OF less part(2) pre w] unfolding step sum rest .
    qed
  qed
qed

text \<open>C8: the server reads a client's command to its end, however the stream is cut: reading what is
  there and keeping the rest yields the command and leaves the stream as \<^verbatim>\<open>read_message\<close>
  does.\<close>

theorem command_read_in_pieces:
  assumes "readable_stream K (sock_fd s) unread" "open_socket s" "codec_ok C"
    and "length (serialize C m) < max_content_size"
    and "unread k = frame little (serialize C m) @ rest"
  shows "\<exists>info k1 k2. read_command K little C new_barely_connected (s, k) = Some (Inr (m, info), (s, k1)) \<and>
    read_message K little C (s, k) = Some (Inr m, (s, k2)) \<and> unread k1 = rest \<and> unread k2 = rest"
proof -
  let ?c = "serialize C m"
  have dec: "decodes C ?c m" using assms(3) by (auto simp: decodes_def codec_ok_def)
  have all: "missing ?c new_barely_connected \<le> length (unread k)" "missing ?c new_barely_connected = length ?c + 4"
    using assms(5) by (simp_all add: missing_def new_barely_connected_def)
  have "prefix (unread k) (drop (bytes_read new_barely_connected) (frame little ?c) @ rest)"
    using assms(5) by (simp add: new_barely_connected_def)
  from read_command_stream [OF assms(1,2,4) dec partly_read_new this] all
  obtain info k1 where k1: "read_command K little C new_barely_connected (s, k) = Some (Inr (m, info), (s, k1))"
    "unread k1 = drop (length ?c + 4) (unread k)" by auto
  obtain k2 where "read_message K little C (s, k) = Some (Inr m, (s, k2))" "unread k2 = rest"
    using read_message_ok [OF assms(1,2) dec assms(4,5)] by blast
  with k1 assms(5) show ?thesis by auto
qed

text \<open>C28: a client that sends a part of its command and stays silent blocks the command thread: the
  loop over the barely connected sockets reads the same socket again instead of going on, and
  the read never returns. No other client is served and no message of the simulation handled
  meanwhile.\<close>

theorem incomplete_command_blocks_the_server:
  assumes "readable_stream K (sock_fd s) unread" "open_socket s" "waits K (sock_fd s) unread"
    and "codec_ok C" "length (serialize C m) < max_content_size"
    and "strict_prefix (unread k) (frame little (serialize C m))"
  shows "read_command K little C new_barely_connected (s, k) = None"
proof -
  let ?c = "serialize C m"
  have dec: "decodes C ?c m" using assms(4) by (auto simp: decodes_def codec_ok_def)
  have "length (unread k) < length (frame little ?c)" using assms(6) by (rule prefix_length_less)
  then have short: "\<not> missing ?c new_barely_connected \<le> length (unread k)"
    by (simp add: missing_def new_barely_connected_def)
  have "prefix (unread k) (drop (bytes_read new_barely_connected) (frame little ?c) @ [])"
    using assms(6) by (simp add: new_barely_connected_def strict_prefix_def)
  from read_command_stream [OF assms(1,2,5) dec partly_read_new this] assms(3) short
  show ?thesis by simp
qed

theorem command_read_in_pieces_witness:
  "\<exists>info k1 k2. read_command (pipe_kernel 3) True raw_codec new_barely_connected
      (example_socket, frame True [7, 8, 9, 10] @ [1]) = Some (Inr ([7, 8, 9, 10], info), (example_socket, k1)) \<and>
    read_message (pipe_kernel 3) True raw_codec (example_socket, frame True [7, 8, 9, 10] @ [1]) =
      Some (Inr [7, 8, 9, 10], (example_socket, k2)) \<and> id k1 = [1] \<and> id k2 = [1]"
  by (rule command_read_in_pieces [OF pipe_streams(1) example_socket_open raw_codec_ok])
    (simp_all add: raw_codec_def max_content_size_def)

theorem incomplete_command_blocks_the_server_witness:
  "read_command (pipe_kernel 3) False raw_codec new_barely_connected (example_socket, [0, 0, 0, 2, 7]) = None"
proof (rule incomplete_command_blocks_the_server [where m = "[7, 8]"])
  show "readable_stream (pipe_kernel 3) (sock_fd example_socket) id" by (rule pipe_streams) simp
  show "waits (pipe_kernel 3) (sock_fd example_socket) id"
    by (simp add: waits_def pipe_kernel_def)
  show "strict_prefix (id [0, 0, 0, 2, 7]) (frame False (serialize raw_codec [7, 8]))"
    by (simp add: frame_def raw_codec_def header_bytes_def)
  show "open_socket example_socket" by (rule example_socket_open)
  show "codec_ok raw_codec" by (rule raw_codec_ok)
qed (simp add: raw_codec_def max_content_size_def)

end
