(* ===== verification/Serve_Loop.thy ===== *)
theory Serve_Loop
  imports Barely_Connected Command_Server Client_Connection
begin

text \<open>
  The main loop of the command thread: \<^verbatim>\<open>serve\<close> and \<^verbatim>\<open>close_open_sockets\<close> of
  \<^verbatim>\<open>src/rsg/serve.cpp\<close>. It waits for signals, new clients, commands of the clients that just
  connected, the end of the clients it has dropped, and the messages of the simulation. The
  signals, \<^verbatim>\<open>select\<close> and the queue are parameters.

  An error leaves \<^verbatim>\<open>serve\<close>, which \<^verbatim>\<open>main\<close> does not catch: it ends the server, as one that
  is thrown by a destructor does.
\<close>

section \<open>State\<close>

record 'k serve_platform = "'k platform" +
  select_call :: "int set \<Rightarrow> 'k \<Rightarrow> int set option \<times> 'k"     \<comment> \<open>at most 200 ms; None on failure\<close>
  block_signals :: "'k \<Rightarrow> bool \<times> 'k"
  signalfd_call :: "'k \<Rightarrow> int \<times> 'k"
  read_signal :: "'k \<Rightarrow> bool \<times> 'k"                             \<comment> \<open>whether it has been read whole\<close>
  pop_message :: "'k \<Rightarrow> interthread_message option \<times> 'k"     \<comment> \<open>None when the queue is empty\<close>

text \<open>
  The objects are those of class \<^verbatim>\<open>TcpSocket\<close>, by address, None once deleted. The maps are
  lists in their order of iteration. \<open>fault\<close> tells that the program has done something undefined: a
  descriptor that a descriptor set cannot hold, or a deleted object.
\<close>

record 'k serve_state =
  commands :: command_state
  barely_connected_sockets :: "(socket, barely_connected) umap"
  dropped_sockets :: "socket list"
  objects :: "socket \<Rightarrow> tcp_socket option"
  next_object :: socket
  sel :: selector
  listener_fd :: int
  signal_fd :: int
  return_code :: int
  performed :: "effect list"
  fault :: bool
  system :: 'k

type_synonym ('k, 'a) serving_io = "('k serve_state, 'a) io"

definition fd_set_holds :: "int \<Rightarrow> bool" where
  "fd_set_holds fd \<longleftrightarrow> 0 \<le> fd \<and> fd < 1024"

definition uses_fd :: "int \<Rightarrow> 'k serve_state \<Rightarrow> 'k serve_state" where
  "uses_fd fd st = st\<lparr>fault := fault st \<or> \<not> fd_set_holds fd\<rparr>"

definition register_fd :: "int \<Rightarrow> 'k serve_state \<Rightarrow> 'k serve_state" where
  "register_fd fd st = uses_fd fd (st\<lparr>sel := selector_add fd (sel st)\<rparr>)"

definition unregister_fd :: "int \<Rightarrow> 'k serve_state \<Rightarrow> 'k serve_state" where
  "unregister_fd fd st = uses_fd fd (st\<lparr>sel := selector_remove fd (sel st)\<rparr>)"

definition with_object :: "socket \<Rightarrow> ('k socket_state, 'a) io \<Rightarrow> ('k, 'a) serving_io" where
  "with_object p m st = (case objects st p of
      None \<Rightarrow> raise_io ''deleted socket'' (st\<lparr>fault := True\<rparr>)
    | Some s \<Rightarrow> (case m (s, system st) of
        None \<Rightarrow> None
      | Some (res, (s', k)) \<Rightarrow> Some (res, st\<lparr>objects := (objects st)(p \<mapsto> s'), system := k\<rparr>)))"

definition delete_socket :: "'k kernel \<Rightarrow> socket \<Rightarrow> ('k, unit) serving_io" where
  "delete_socket K p = bind_io (with_object p (tcp_close K)) (\<lambda>_ st.
     return_io () (st\<lparr>objects := (objects st)(p := None)\<rparr>))"

definition fd_of :: "'k serve_state \<Rightarrow> socket \<Rightarrow> int" where
  "fd_of st p = (case objects st p of None \<Rightarrow> -1 | Some s \<Rightarrow> sock_fd s)"

definition fd_before_close_of :: "'k serve_state \<Rightarrow> socket \<Rightarrow> int" where
  "fd_before_close_of st p = (case objects st p of None \<Rightarrow> -1 | Some s \<Rightarrow> sock_fd_before_close s)"

section \<open>Closing\<close>

definition close_socket :: "'k kernel \<Rightarrow> bool \<Rightarrow> socket \<Rightarrow> ('k, unit) serving_io" where
  "close_socket K abortive_termination p =
     bind_io (if abortive_termination then with_object p (set_abortive_termination K) else return_io ()) (\<lambda>_.
     bind_io (with_object p (tcp_shutdown K True True)) (\<lambda>_. delete_socket K p))"

fun close_sockets :: "'k kernel \<Rightarrow> bool \<Rightarrow> socket list \<Rightarrow> ('k, unit) serving_io" where
  "close_sockets K abortive_termination [] = return_io ()"
| "close_sockets K abortive_termination (p # ps) =
     bind_io (close_socket K abortive_termination p) (\<lambda>_. close_sockets K abortive_termination ps)"

definition close_listener :: "'k kernel \<Rightarrow> ('k, unit) serving_io" where
  "close_listener K st = (case listener_close K (listener_fd st, system st) of
      None \<Rightarrow> None | Some (res, (fd, k)) \<Rightarrow> Some (res, st\<lparr>listener_fd := fd, system := k\<rparr>))"

text \<open>The third map, \<^verbatim>\<open>actor_sockets\<close>, is always empty: nothing is ever inserted into it.\<close>

definition close_open_sockets :: "'k kernel \<Rightarrow> bool \<Rightarrow> ('k, unit) serving_io" where
  "close_open_sockets K abortive_termination =
     bind_io (close_listener K) (\<lambda>_.
     bind_io (\<lambda>st. close_sockets K abortive_termination (map fst (barely_connected_sockets st)) st) (\<lambda>_.
     bind_io (\<lambda>st. return_io () (st\<lparr>barely_connected_sockets := []\<rparr>)) (\<lambda>_.
     bind_io (\<lambda>st. close_sockets K abortive_termination (dropped_sockets st) st) (\<lambda>_ st.
     return_io () (st\<lparr>dropped_sockets := []\<rparr>)))))"

section \<open>Clients\<close>

text \<open>A new client.\<close>

definition accept_client :: "'k kernel \<Rightarrow> ('k, unit) serving_io" where
  "accept_client K st = (case listener_accept K (listener_fd st, system st) of
      None \<Rightarrow> None
    | Some (Inl e, (fd, k)) \<Rightarrow> raise_io e (st\<lparr>system := k\<rparr>)
    | Some (Inr client, (fd, k)) \<Rightarrow>
        (let p = next_object st in
         bind_io (with_object p (disable_nagle_algorithm K)) (\<lambda>_ st.
           return_io () (register_fd (fd_of st p)
             (st\<lparr>barely_connected_sockets := umap_insert p new_barely_connected (barely_connected_sockets st)\<rparr>)))
           (st\<lparr>objects := (objects st)(p \<mapsto> client), next_object := Suc p, system := k\<rparr>)))"

text \<open>A command: the launch and the pushes are recorded, the acknowledgment is written.\<close>

definition perform_effect :: "('k, 'x) serve_platform_scheme \<Rightarrow> effect \<Rightarrow> ('k, unit) serving_io" where
  "perform_effect P e st = (case e of
      Write_ack p ack \<Rightarrow> with_object p (write_message (os P) (little_endian P) (command_ack_codec P) ack)
    | _ \<Rightarrow> return_io ()) (st\<lparr>performed := performed st @ [e]\<rparr>)"

fun perform :: "('k, 'x) serve_platform_scheme \<Rightarrow> effect list \<Rightarrow> ('k, unit) serving_io" where
  "perform P [] = return_io ()"
| "perform P (e # es) = bind_io (perform_effect P e) (\<lambda>_. perform P es)"

definition run_command :: "('k, 'x) serve_platform_scheme \<Rightarrow> socket \<Rightarrow> command \<Rightarrow> ('k, bool) serving_io" where
  "run_command P p cmd st = (case handle_command cmd p (commands st) of
      Inl e \<Rightarrow> raise_io e st
    | Inr (drop_client, effs, cs) \<Rightarrow>
        bind_io (perform P effs) (\<lambda>_. return_io drop_client) (st\<lparr>commands := cs\<rparr>))"

definition serve_client :: "('k, 'x) serve_platform_scheme \<Rightarrow> socket \<Rightarrow> barely_connected \<Rightarrow> ('k, bool) serving_io" where
  "serve_client P p info =
     bind_io (with_object p (read_command (os P) (little_endian P) (command_codec P) info)) (\<lambda>(cmd, info').
     bind_io (run_command P p cmd) (\<lambda>drop_client st.
     return_io drop_client
       (if drop_client then st\<lparr>dropped_sockets := dropped_sockets st @ [p]\<rparr>
        else unregister_fd (fd_of st p) st)))"

text \<open>The clients that just connected: whether one was dropped, and those that stay.\<close>

fun sweep_clients :: "('k, 'x) serve_platform_scheme \<Rightarrow> (socket, barely_connected) umap \<Rightarrow>
    ('k, bool \<times> (socket, barely_connected) umap) serving_io" where
  "sweep_clients P [] st = return_io (False, []) st"
| "sweep_clients P ((p, info) # rest) st =
     (if \<not> is_readable (sel st) (fd_of st p)
      then bind_io (sweep_clients P rest) (\<lambda>(d, kept). return_io (d, (p, info) # kept)) (uses_fd (fd_of st p) st)
      else bind_io (serve_client P p info) (\<lambda>drop_client.
           bind_io (sweep_clients P rest) (\<lambda>(d, kept). return_io (drop_client \<or> d, kept))) (uses_fd (fd_of st p) st))"

text \<open>
  The dropped clients: what they send is ignored; any error is taken for the end of the
  connection.
\<close>

definition drain :: "'k kernel \<Rightarrow> socket \<Rightarrow> ('k, bool) serving_io" where
  "drain K p st = (case with_object p (tcp_recv K 256) st of
      None \<Rightarrow> None
    | Some (Inr bs, st') \<Rightarrow> return_io True st'
    | Some (Inl e, st') \<Rightarrow> bind_io (delete_socket K p) (\<lambda>_. return_io False)
        (unregister_fd (fd_before_close_of st' p) st'))"

fun sweep_dropped :: "'k kernel \<Rightarrow> socket list \<Rightarrow> ('k, socket list) serving_io" where
  "sweep_dropped K [] st = return_io [] st"
| "sweep_dropped K (p # rest) st =
     (if \<not> is_readable (sel st) (fd_of st p)
      then bind_io (sweep_dropped K rest) (\<lambda>kept. return_io (p # kept)) (uses_fd (fd_of st p) st)
      else bind_io (drain K p) (\<lambda>stays.
           bind_io (sweep_dropped K rest) (\<lambda>kept. return_io (if stays then p # kept else kept)))
           (uses_fd (fd_of st p) st))"

definition serve_sockets :: "('k, 'x) serve_platform_scheme \<Rightarrow> ('k, unit) serving_io" where
  "serve_sockets P =
     bind_io (\<lambda>st. sweep_clients P (barely_connected_sockets st) st) (\<lambda>(client_dropped, kept).
     bind_io (\<lambda>st. return_io () (st\<lparr>barely_connected_sockets := kept\<rparr>)) (\<lambda>_.
     if client_dropped then return_io ()
     else bind_io (\<lambda>st. sweep_dropped (os P) (dropped_sockets st) st) (\<lambda>kept st.
          return_io () (st\<lparr>dropped_sockets := kept\<rparr>))))"

section \<open>One turn of the loop\<close>

text \<open>Whether a signal ended the server.\<close>

definition handle_events :: "('k, 'x) serve_platform_scheme \<Rightarrow> ('k, bool) serving_io" where
  "handle_events P st = (case wait_any_readable (select_call P) (sel st) (system st) of
      (Inl e, k) \<Rightarrow> raise_io e (st\<lparr>system := k\<rparr>)
    | (Inr (any, sel'), k) \<Rightarrow>
        (let st' = st\<lparr>sel := sel', system := k\<rparr> in
         if \<not> any then return_io False st'
         else if is_readable sel' (signal_fd st')
         then (case read_signal P k of (ok, k') \<Rightarrow>
           bind_io (enforce_io ok ''Could not read info of received signal'') (\<lambda>_.
           bind_io (close_open_sockets (os P) True) (\<lambda>_. return_io True)) (st'\<lparr>system := k'\<rparr>))
         else if is_readable sel' (listener_fd st')
         then bind_io (accept_client (os P)) (\<lambda>_. return_io False) st'
         else bind_io (serve_sockets P) (\<lambda>_. return_io False) st'))"

definition finish_simulation :: "int \<Rightarrow> 'k serve_state \<Rightarrow> 'k serve_state" where
  "finish_simulation code st =
     st\<lparr>commands := (commands st)\<lparr>server_state := SIMULATION_FINISHED\<rparr>, return_code := code\<rparr>"

definition handle_message :: "('k, 'x) serve_platform_scheme \<Rightarrow> interthread_message \<Rightarrow> ('k, unit) serving_io" where
  "handle_message P msg st = (case msg of
      Im_simulation_finished \<Rightarrow> return_io () (finish_simulation (return_code st) st)
    | Im_simulation_aborted i e \<Rightarrow> return_io () (finish_simulation 1 st)
    | Im_launch_aborted i h \<Rightarrow> return_io () (finish_simulation 1 st)
    | Im_actor_quit p \<Rightarrow>
        (case objects st p of
           None \<Rightarrow> raise_io ''deleted socket'' (st\<lparr>fault := True\<rparr>)
         | Some s \<Rightarrow> return_io ()
             (register_fd (sock_fd s) (st\<lparr>dropped_sockets := dropped_sockets st @ [p]\<rparr>)))
    | Im_actor_create i can_connect_ack connect \<Rightarrow>
        (case register_actor i can_connect_ack connect (commands st) of
           Inl e \<Rightarrow> raise_io e st
         | Inr (effs, cs) \<Rightarrow> perform P effs (st\<lparr>commands := cs\<rparr>))
    | _ \<Rightarrow> raise_io ''Unhandled interthread message type received (%d)'' st)"

definition receive_message :: "('k, 'x) serve_platform_scheme \<Rightarrow> ('k, unit) serving_io" where
  "receive_message P st = (case pop_message P (system st) of
      (None, k) \<Rightarrow> return_io () (st\<lparr>system := k\<rparr>)
    | (Some msg, k) \<Rightarrow> handle_message P msg (st\<lparr>system := k\<rparr>))"

definition ended :: "'k serve_state \<Rightarrow> bool" where
  "ended st \<longleftrightarrow> server_state (commands st) \<in> {SIMULATION_FINISHED, KILLED}"

partial_function (option) serve_loop :: "('k, 'x) serve_platform_scheme \<Rightarrow> ('k, int) serving_io" where
  "serve_loop P st =
     (if ended st
      then bind_io (close_open_sockets (os P) False) (\<lambda>_ st. return_io (return_code st) st) st
      else case handle_events P st of
          None \<Rightarrow> None
        | Some (Inl e, st') \<Rightarrow> Some (Inl e, st')
        | Some (Inr signalled, st') \<Rightarrow>
            if signalled then Some (Inr 1, st')
            else (case receive_message P st' of
                None \<Rightarrow> None
              | Some (Inl e, st'') \<Rightarrow> Some (Inl e, st'')
              | Some (Inr _, st'') \<Rightarrow> serve_loop P st''))"

section \<open>The server\<close>

definition init_serve_state :: "int \<Rightarrow> int \<Rightarrow> 'k \<Rightarrow> 'k serve_state" where
  "init_serve_state sfd lfd k = register_fd lfd (register_fd sfd
     \<lparr>commands = init_command_state, barely_connected_sockets = [], dropped_sockets = [],
      objects = (\<lambda>_. None), next_object = 0, sel = new_selector, listener_fd = lfd, signal_fd = sfd,
      return_code = 0, performed = [], fault = False, system = k\<rparr>)"

text \<open>An error or the exit code.\<close>

definition serve :: "('k, 'x) serve_platform_scheme \<Rightarrow> int \<Rightarrow> 'k \<Rightarrow> (rsg_error + int) option" where
  "serve P server_port k = (case listener_create (os P) k of
      (Inl e, k1) \<Rightarrow> Some (Inl e)
    | (Inr lfd, k1) \<Rightarrow>
        (case bind_io (allow_address_reuse (os P)) (\<lambda>_. listener_listen (os P) (word_of_int server_port)) (lfd, k1) of
           None \<Rightarrow> None
         | Some (Inl e, _) \<Rightarrow> Some (Inr 1)
         | Some (Inr _, (lfd, k2)) \<Rightarrow> (case block_signals P k2 of (ok, k3) \<Rightarrow>
             if \<not> ok then Some (Inl ''Could not block default signal handling'')
             else (case signalfd_call P k3 of (sfd, k4) \<Rightarrow>
               if sfd = -1 then Some (Inl ''Could not create a file descriptor to handle signals: %s'')
               else map_option fst (serve_loop P (init_serve_state sfd lfd k4))))))"

section \<open>What an operation on a socket changes\<close>

lemma bind_io_Inr:
  "bind_io m f st = Some (Inr y, st') \<longleftrightarrow> (\<exists>x st1. m st = Some (Inr x, st1) \<and> f x st1 = Some (Inr y, st'))"
  by (auto simp: bind_io_def split: option.splits sum.splits)

lemma return_io_Inr: "return_io x st = Some (Inr y, st') \<longleftrightarrow> x = y \<and> st = st'"
  by (auto simp: return_io_def)

lemma raise_io_Inr: "\<not> raise_io e st = Some (Inr y, st')"
  by (simp add: raise_io_def)

lemma enforce_io_Inr: "enforce_io b e st = Some (Inr y, st') \<longleftrightarrow> b \<and> st' = st"
  by (auto simp: enforce_io_def return_io_def raise_io_def)

lemmas io_Inr = bind_io_Inr return_io_Inr raise_io_Inr enforce_io_Inr

text \<open>On success most operations leave the object as it was.\<close>

definition keeps_socket :: "('k socket_state, 'a) io \<Rightarrow> bool" where
  "keeps_socket m \<longleftrightarrow> (\<forall>sk x sk'. m sk = Some (Inr x, sk') \<longrightarrow> fst sk' = fst sk)"

lemma keeps_bind: "keeps_socket m \<Longrightarrow> (\<And>x. keeps_socket (f x)) \<Longrightarrow> keeps_socket (bind_io m f)"
  unfolding keeps_socket_def bind_io_Inr by metis

lemma keeps_simple: "keeps_socket (return_io x)" "keeps_socket (raise_io e)" "keeps_socket (enforce_io b e)"
  by (auto simp: keeps_socket_def io_Inr)

lemma keeps_check: "keeps_socket (check_socket Q e)" "keeps_socket (sys_call f e)"
  by (auto simp: keeps_socket_def check_socket_def sys_call_def io_Inr split: prod.splits)

lemma keeps_recv: "keeps_socket (tcp_recv K n)"
  unfolding tcp_recv_def
proof (intro keeps_bind keeps_check)
  show "keeps_socket (\<lambda>(s, k). case k_recv K (sock_fd s) n k of
      (Received bs, k') \<Rightarrow> if bs = [] then connection_lost K (s, k') else return_io bs (s, k')
    | (Recv_error, k') \<Rightarrow> raise_io ''Could not recv: %s'' (s, k')
    | (Recv_blocks, k') \<Rightarrow> None)"
    by (auto simp: keeps_socket_def connection_lost_def io_Inr
        split: prod.splits recv_answer.splits if_splits option.splits)
qed

lemma keeps_send_loop: "send_loop K buffer sent sk = Some (Inr x, sk') \<Longrightarrow> fst sk' = fst sk"
proof -
  assume "send_loop K buffer sent sk = Some (Inr x, sk')"
  then have "case (Inr x :: rsg_error + unit, sk') of (res, sk') \<Rightarrow> (\<forall>x. res = Inr x \<longrightarrow> fst sk' = fst sk)"
  proof (rule send_loop.raw_induct [rotated])
    fix send_loop :: "'k kernel \<Rightarrow> bytes \<Rightarrow> nat \<Rightarrow> ('k socket_state, unit) io"
      and K buffer sent sk y
    assume "\<And>K buffer sent sk y. send_loop K buffer sent sk = Some y \<Longrightarrow>
        case y of (res, sk') \<Rightarrow> \<forall>x. res = Inr x \<longrightarrow> fst sk' = fst sk"
      and "(if length buffer \<le> sent then return_io () sk
        else case k_send K (sock_fd (fst sk)) (drop sent buffer) (snd sk) of
            (Sent n, k') \<Rightarrow> send_loop K buffer (sent + n) (fst sk, k')
          | (Send_error, k') \<Rightarrow> raise_io ''Could not send: %s'' (fst sk, k')
          | (Send_blocks, k') \<Rightarrow> None) = Some y"
    then show "case y of (res, sk') \<Rightarrow> \<forall>x. res = Inr x \<longrightarrow> fst sk' = fst sk"
      by (fastforce simp: return_io_def raise_io_def split: if_splits prod.splits send_answer.splits)
  qed
  then show ?thesis by simp
qed

lemma keeps_send: "keeps_socket (send_all K buffer)"
  unfolding send_all_def by (intro keeps_bind keeps_check) (auto simp: keeps_socket_def dest: keeps_send_loop)

lemma keeps_write: "keeps_socket (write_message K little C m)"
  unfolding write_message_def Let_def by (intro keeps_bind keeps_simple keeps_send)

lemma keeps_read_content: "keeps_socket (read_content K little C new info)"
  unfolding read_content_def Let_def
  by (auto intro!: keeps_bind keeps_recv keeps_simple split: option.split)

lemma keeps_read_once: "keeps_socket (handle_barely_connected_socket_read K little C info)"
  unfolding handle_barely_connected_socket_read_def Let_def
  by (auto intro!: keeps_bind keeps_recv keeps_simple keeps_read_content)

lemma keeps_read_command_result: "read_command K little C info sk = Some (Inr x, sk') \<Longrightarrow> fst sk' = fst sk"
proof -
  assume "read_command K little C info sk = Some (Inr x, sk')"
  then have "case (Inr x :: rsg_error + 'a \<times> barely_connected, sk') of (res, sk') \<Rightarrow>
      (\<forall>x. res = Inr x \<longrightarrow> fst sk' = fst sk)"
  proof (rule read_command.raw_induct [rotated])
    fix read_command :: "'k kernel \<Rightarrow> bool \<Rightarrow> 'a codec \<Rightarrow> barely_connected \<Rightarrow>
        ('k socket_state, 'a \<times> barely_connected) io" and K little C info sk y
    assume IH: "\<And>K little C info sk y. read_command K little C info sk = Some y \<Longrightarrow>
        case y of (res, sk') \<Rightarrow> \<forall>x. res = Inr x \<longrightarrow> fst sk' = fst sk"
      and eq: "(case handle_barely_connected_socket_read K little C info sk of
          None \<Rightarrow> None
        | Some (Inl e, sk') \<Rightarrow> Some (Inl e, sk')
        | Some (Inr (Some command, info'), sk') \<Rightarrow> Some (Inr (command, info'), sk')
        | Some (Inr (None, info'), sk') \<Rightarrow> read_command K little C info' sk') = Some y"
    have keep: "handle_barely_connected_socket_read K little C info sk = Some (Inr r, sk1) \<Longrightarrow> fst sk1 = fst sk" for r sk1
      using keeps_read_once [of K little C info] unfolding keeps_socket_def by blast
    show "case y of (res, sk') \<Rightarrow> \<forall>x. res = Inr x \<longrightarrow> fst sk' = fst sk"
      using eq by (auto split: option.splits sum.splits prod.splits dest!: keep IH)
  qed
  then show ?thesis by simp
qed

lemma keeps_read_command: "keeps_socket (read_command K little C info)"
  by (auto simp: keeps_socket_def dest: keeps_read_command_result)

lemma with_object_keeps:
  assumes "with_object p m st = Some (Inr x, st')" "keeps_socket m"
  shows "\<exists>k. st' = st\<lparr>system := k\<rparr>"
proof -
  obtain s where s: "objects st p = Some s" using assms(1) by (auto simp: with_object_def raise_io_def split: option.splits)
  then obtain s' k where m: "m (s, system st) = Some (Inr x, (s', k))"
    "st' = st\<lparr>objects := (objects st)(p \<mapsto> s'), system := k\<rparr>"
    using assms(1) by (auto simp: with_object_def split: option.splits)
  then have "s' = s" using assms(2) by (fastforce simp: keeps_socket_def)
  then have "(objects st)(p \<mapsto> s') = objects st" using s by auto
  with m show ?thesis by auto
qed

lemma with_object_exists: "with_object p m st = Some (Inr x, st') \<Longrightarrow> objects st p \<noteq> None"
  by (auto simp: with_object_def raise_io_def split: option.splits)

lemma perform_io:
  "perform P effs st = Some (Inr (), st') \<Longrightarrow> \<exists>k. st' = st\<lparr>performed := performed st @ effs, system := k\<rparr>"
proof (induction effs arbitrary: st)
  case Nil
  then show ?case by (auto simp: io_Inr intro!: exI [of _ "system st"])
next
  case (Cons e effs)
  then obtain st1 where st1: "perform_effect P e st = Some (Inr (), st1)" "perform P effs st1 = Some (Inr (), st')"
    by (auto simp: io_Inr)
  have "\<exists>k. st1 = st\<lparr>performed := performed st @ [e], system := k\<rparr>"
    using st1(1) by (cases e)
      (auto simp: perform_effect_def io_Inr intro!: exI [of _ "system st"] dest!: with_object_keeps [OF _ keeps_write])
  with Cons.IH [OF st1(2)] show ?case by auto
qed

lemma run_command_io:
  assumes "run_command P p cmd st = Some (Inr d, st')"
  shows "\<exists>effs cs k. handle_command cmd p (commands st) = Inr (d, effs, cs) \<and>
    st' = st\<lparr>commands := cs, performed := performed st @ effs, system := k\<rparr>"
proof -
  obtain d' effs cs where c: "handle_command cmd p (commands st) = Inr (d', effs, cs)"
    using assms by (cases "handle_command cmd p (commands st)") (auto simp: run_command_def io_Inr)
  with assms have "perform P effs (st\<lparr>commands := cs\<rparr>) = Some (Inr (), st')" "d' = d"
    by (auto simp: run_command_def io_Inr)
  with c perform_io [of P effs "st\<lparr>commands := cs\<rparr>" st'] show ?thesis by auto
qed

text \<open>A client whose command has been handled has been dropped, or has left the selector.\<close>

lemma serve_client_io:
  assumes "serve_client P p info st = Some (Inr d, st')"
  shows "\<exists>cmd effs cs k. handle_command cmd p (commands st) = Inr (d, effs, cs) \<and> objects st p \<noteq> None \<and>
    st' = (let st1 = st\<lparr>commands := cs, performed := performed st @ effs, system := k\<rparr> in
      if d then st1\<lparr>dropped_sockets := dropped_sockets st @ [p]\<rparr> else unregister_fd (fd_of st p) st1)"
proof -
  obtain cmd info' st1 st2 where
    read: "with_object p (read_command (os P) (little_endian P) (command_codec P) info) st = Some (Inr (cmd, info'), st1)"
    and run: "run_command P p cmd st1 = Some (Inr d, st2)"
    and st': "st' = (if d then st2\<lparr>dropped_sockets := dropped_sockets st2 @ [p]\<rparr> else unregister_fd (fd_of st2 p) st2)"
    using assms by (auto simp: serve_client_def io_Inr split: prod.splits)
  obtain k where k: "st1 = st\<lparr>system := k\<rparr>" using with_object_keeps [OF read keeps_read_command] by blast
  obtain effs cs k' where "handle_command cmd p (commands st) = Inr (d, effs, cs)"
    "st2 = st\<lparr>commands := cs, performed := performed st @ effs, system := k'\<rparr>"
    using run_command_io [OF run] k by auto
  with st' with_object_exists [OF read] show ?thesis
    by (intro exI [of _ cmd] exI [of _ effs] exI [of _ cs] exI [of _ k']) (auto simp: fd_of_def Let_def)
qed

section \<open>The run of the server\<close>

text \<open>
  The states at the head of the loop. Between two turns the other threads run: they work on the
  sockets of their actors, which they may close but do not delete. The system gives a new client a
  descriptor that no open socket has. The simulation sends messages once it is launched; an actor
  that quits names its own, open socket, once.
\<close>

definition managed :: "'k serve_state \<Rightarrow> socket list" where
  "managed st = map fst (barely_connected_sockets st) @ dropped_sockets st"

definition launched :: "'k serve_state \<Rightarrow> bool" where
  "launched st \<longleftrightarrow> (\<exists>m. Start_simulation m \<in> set (performed st))"

definition others_ran :: "'k serve_state \<Rightarrow> 'k serve_state \<Rightarrow> bool" where
  "others_ran st st' \<longleftrightarrow> st' = st\<lparr>objects := objects st', system := system st'\<rparr> \<and>
     (\<forall>p \<in> set (managed st). objects st' p = objects st p) \<and>
     (\<forall>p. case objects st p of None \<Rightarrow> objects st' p = None
        | Some s \<Rightarrow> (\<exists>s'. objects st' p = Some s' \<and> (sock_fd s' = sock_fd s \<or> sock_fd s' = -1)))"

definition fresh_fds :: "'k serve_state \<Rightarrow> 'k serve_state \<Rightarrow> bool" where
  "fresh_fds st st' \<longleftrightarrow> (\<forall>p s. next_object st \<le> p \<and> objects st' p = Some s \<longrightarrow>
     fd_set_holds (sock_fd s) \<and> sock_fd s \<noteq> signal_fd st \<and> sock_fd s \<noteq> listener_fd st \<and>
     (\<forall>q s'. q < next_object st \<and> objects st q = Some s' \<longrightarrow> sock_fd s' \<noteq> sock_fd s))"

definition message_ok :: "'k serve_state \<Rightarrow> interthread_message option \<Rightarrow> bool" where
  "message_ok st msg \<longleftrightarrow> (msg \<noteq> None \<longrightarrow> launched st) \<and>
     (\<forall>p. msg = Some (Im_actor_quit p) \<longrightarrow> p \<notin> set (managed st) \<and>
        (\<exists>s. objects st p = Some s \<and> open_socket s))"

inductive serves :: "('k, 'x) serve_platform_scheme \<Rightarrow> 'k serve_state \<Rightarrow> bool" for P where
  serves_init: "fd_set_holds sfd \<Longrightarrow> fd_set_holds lfd \<Longrightarrow> sfd \<noteq> lfd \<Longrightarrow> serves P (init_serve_state sfd lfd k)"
| serves_others: "serves P st \<Longrightarrow> others_ran st st' \<Longrightarrow> serves P st'"
| serves_turn: "serves P st \<Longrightarrow> \<not> ended st \<Longrightarrow> handle_events P st = Some (Inr False, st1) \<Longrightarrow> fresh_fds st st1 \<Longrightarrow>
    message_ok st1 (fst (pop_message P (system st1))) \<Longrightarrow> receive_message P st1 = Some (Inr (), st2) \<Longrightarrow>
    serves P st2"

section \<open>The loop runs the life of the server\<close>

text \<open>
  What holds of the command server's state and the effects so far. Only a command changes them during
  the handling of the sockets, so what every command keeps is kept: the locale is that contract.
\<close>

definition holds_in :: "(command_state \<Rightarrow> effect list \<Rightarrow> bool) \<Rightarrow> 'k serve_state \<Rightarrow> bool" where
  "holds_in I st \<longleftrightarrow> I (commands st) (performed st)"

lemma holds_cong [simp]:
  "holds_in I (st\<lparr>sel := x\<rparr>) = holds_in I st" "holds_in I (st\<lparr>system := k\<rparr>) = holds_in I st"
  "holds_in I (st\<lparr>objects := o'\<rparr>) = holds_in I st"
  "holds_in I (st\<lparr>next_object := n\<rparr>) = holds_in I st" "holds_in I (st\<lparr>dropped_sockets := d\<rparr>) = holds_in I st"
  "holds_in I (st\<lparr>barely_connected_sockets := b\<rparr>) = holds_in I st" "holds_in I (st\<lparr>fault := f\<rparr>) = holds_in I st"
  "holds_in I (uses_fd fd st) = holds_in I st" "holds_in I (register_fd fd st) = holds_in I st"
  "holds_in I (unregister_fd fd st) = holds_in I st"
  by (simp_all add: holds_in_def uses_fd_def register_fd_def unregister_fd_def)

lemma holds_with_object: "with_object p m st = Some (res, st') \<Longrightarrow> holds_in I st' = holds_in I st"
  by (auto simp: with_object_def raise_io_def holds_in_def split: option.splits prod.splits)

lemma holds_delete: "delete_socket K p st = Some (Inr x, st') \<Longrightarrow> holds_in I st' = holds_in I st"
  by (auto simp: delete_socket_def io_Inr dest: holds_with_object [where I = I])

lemma holds_drain: "drain K p st = Some (Inr b, st') \<Longrightarrow> holds_in I st' = holds_in I st"
  by (auto simp: drain_def io_Inr split: option.splits prod.splits sum.splits
      dest!: holds_with_object [where I = I] holds_delete [where I = I])

lemma holds_sweep_dropped: "sweep_dropped K ps st = Some (Inr r, st') \<Longrightarrow> holds_in I st' = holds_in I st"
proof (induction K ps st arbitrary: r st' rule: sweep_dropped.induct)
  case (1 K st)
  then show ?case by (simp add: io_Inr)
next
  case (2 K p rest st)
  then show ?case by (auto simp: io_Inr split: if_splits dest!: holds_drain [where I = I])
qed

lemma holds_accept: "accept_client K st = Some (Inr u, st') \<Longrightarrow> holds_in I st' = holds_in I st"
  by (auto simp: accept_client_def io_Inr Let_def split: option.splits prod.splits sum.splits
      dest!: holds_with_object [where I = I])

lemma handle_events_False:
  assumes "handle_events P st = Some (Inr False, st')"
  shows "\<exists>sel' k any. wait_any_readable (select_call P) (sel st) (system st) = (Inr (any, sel'), k) \<and>
    (let st1 = st\<lparr>sel := sel', system := k\<rparr> in
      st' = st1 \<or> accept_client (os P) st1 = Some (Inr (), st') \<or> serve_sockets P st1 = Some (Inr (), st'))"
  using assms by (auto simp: handle_events_def io_Inr Let_def split: sum.splits prod.splits if_splits)

locale kept_by_commands =
  fixes I :: "command_state \<Rightarrow> effect list \<Rightarrow> bool"
  assumes command_keeps: "I cs tr \<Longrightarrow> handle_command cmd p cs = Inr (d, effs, cs') \<Longrightarrow> I cs' (tr @ effs)"
begin

lemma keeps_serve_client: "serve_client P p info st = Some (Inr d, st') \<Longrightarrow> holds_in I st \<Longrightarrow> holds_in I st'"
  by (auto dest!: serve_client_io simp: Let_def) (auto simp: holds_in_def intro: command_keeps)

lemma keeps_sweep_clients: "sweep_clients P todo st = Some (Inr r, st') \<Longrightarrow> holds_in I st \<Longrightarrow> holds_in I st'"
proof (induction P todo st arbitrary: r st' rule: sweep_clients.induct)
  case (1 P st)
  then show ?case by (simp add: io_Inr)
next
  case (2 P p info rest st)
  then show ?case
    by (auto simp: io_Inr split: if_splits prod.splits dest: keeps_serve_client)
qed

lemma keeps_serve_sockets: "serve_sockets P st = Some (Inr u, st') \<Longrightarrow> holds_in I st \<Longrightarrow> holds_in I st'"
  by (auto simp: serve_sockets_def io_Inr split: prod.splits if_splits
      dest!: keeps_sweep_clients holds_sweep_dropped [where I = I])

lemma keeps_events: "handle_events P st = Some (Inr False, st') \<Longrightarrow> holds_in I st \<Longrightarrow> holds_in I st'"
  by (auto dest!: handle_events_False holds_accept [where I = I] keeps_serve_sockets simp: Let_def)

end

interpretation life: kept_by_commands lives
  by unfold_locales (rule lives_command)

lemma life_message:
  assumes "handle_message P msg st = Some (Inr (), st')" "launched st" "holds_in lives st"
  shows "holds_in lives st'"
proof (cases msg)
  case (Im_actor_create i q r)
  then obtain effs cs where "register_actor i q r (commands st) = Inr (effs, cs)"
    "perform P effs (st\<lparr>commands := cs\<rparr>) = Some (Inr (), st')"
    using assms(1) by (auto simp: handle_message_def io_Inr split: sum.splits)
  with assms(2,3) show ?thesis
    by (auto dest!: perform_io simp: holds_in_def launched_def intro: lives_create)
qed (use assms in \<open>auto simp: handle_message_def finish_simulation_def io_Inr launched_def holds_in_def
       register_fd_def uses_fd_def split: option.splits intro: lives_finish\<close>)

text \<open>What a message does to the command thread, as \<open>Command_Server\<close> has it.\<close>

lemma handle_message_receives:
  assumes "handle_message P msg st = Some (Inr (), st')"
  shows "\<exists>effs. receive_report msg (commands st) = Inr (effs, commands st') \<and> performed st' = performed st @ effs"
proof (cases msg)
  case (Im_actor_create i q r)
  then obtain effs cs where r: "register_actor i q r (commands st) = Inr (effs, cs)"
    "perform P effs (st\<lparr>commands := cs\<rparr>) = Some (Inr (), st')"
    using assms by (auto simp: handle_message_def io_Inr split: sum.splits)
  with perform_io [OF r(2)] Im_actor_create show ?thesis by (auto simp: receive_report_def)
qed (use assms in \<open>auto simp: handle_message_def receive_report_def finish_simulation_def register_fd_def uses_fd_def io_Inr split: option.splits\<close>)

text \<open>C13: the loop implements the life of the server: whatever its clients, the system and the other
  threads do, the commands it has handled and the effects it has performed are a run of the command
  server, in this order, so that what is proved of that holds of the loop.\<close>

theorem serve_refines_lives:
  assumes "serves P st"
  shows "lives (commands st) (performed st)"
proof -
  have "holds_in lives st"
    using assms
  proof (induction rule: serves.induct)
    case (serves_init sfd lfd k)
    show ?case by (simp add: init_serve_state_def) (simp add: holds_in_def lives_init)
  next
    case (serves_others st st')
    then obtain o' k where "st' = st\<lparr>objects := o', system := k\<rparr>" unfolding others_ran_def by blast
    with serves_others.IH show ?case by simp
  next
    case (serves_turn st st1 st2)
    obtain msg k where pop: "pop_message P (system st1) = (msg, k)" by (cases "pop_message P (system st1)")
    have "holds_in lives st1" using life.keeps_events [OF serves_turn(3) serves_turn.IH] .
    show ?case
    proof (cases msg)
      case None
      with serves_turn(6) pop \<open>holds_in lives st1\<close> show ?thesis by (auto simp: receive_message_def io_Inr)
    next
      case (Some m)
      have "launched (st1\<lparr>system := k\<rparr>)"
        using serves_turn(5) pop Some by (simp add: message_ok_def launched_def)
      moreover have "handle_message P m (st1\<lparr>system := k\<rparr>) = Some (Inr (), st2)"
        using serves_turn(6) pop Some by (simp add: receive_message_def)
      ultimately show ?thesis using life_message \<open>holds_in lives st1\<close> by (metis holds_cong(2))
    qed
  qed
  then show ?thesis by (simp add: holds_in_def)
qed

section \<open>Every socket in its place\<close>

definition conn_sockets :: "command_state \<Rightarrow> (int \<times> socket) set" where
  "conn_sockets cs = {(i, p). \<exists>c. umap_find (actor_connections cs) i = Some c \<and> conn_socket c = Some p}"

definition owners :: "socket list \<Rightarrow> 'k serve_state \<Rightarrow> bool" where
  "owners B st \<longleftrightarrow> (\<forall>(i, p) \<in> conn_sockets (commands st). p < next_object st \<and> p \<notin> set B \<and>
     (\<forall>j. (j, p) \<in> conn_sockets (commands st) \<longrightarrow> j = i))"

definition descriptors :: "'k serve_state \<Rightarrow> bool" where
  "descriptors st \<longleftrightarrow> fd_set_holds (signal_fd st) \<and> fd_set_holds (listener_fd st) \<and> signal_fd st \<noteq> listener_fd st \<and>
     (\<forall>p s. objects st p = Some s \<longrightarrow> p < next_object st \<and>
        (sock_fd s \<noteq> -1 \<longrightarrow> fd_set_holds (sock_fd s) \<and> sock_fd s \<noteq> signal_fd st \<and> sock_fd s \<noteq> listener_fd st)) \<and>
     (\<forall>p q s s'. objects st p = Some s \<and> objects st q = Some s' \<and> sock_fd s = sock_fd s' \<and> sock_fd s \<noteq> -1 \<longrightarrow>
        p = q)"

text \<open>\<open>B\<close>: the clients that have not sent their command, \<open>D\<close>: the dropped ones.\<close>

definition books :: "socket list \<Rightarrow> socket list \<Rightarrow> 'k serve_state \<Rightarrow> bool" where
  "books B D st \<longleftrightarrow> \<not> fault st \<and> distinct (B @ D) \<and> descriptors st \<and> owners B st \<and>
     (\<forall>p \<in> set (B @ D). \<exists>s. objects st p = Some s \<and> open_socket s) \<and>
     registered (sel st) = {signal_fd st, listener_fd st} \<union> fd_of st ` set (B @ D)"

lemma books_open:
  assumes "books B D st" "p \<in> set (B @ D)"
  obtains s where "objects st p = Some s" "open_socket s" "fd_of st p = sock_fd s" "fd_set_holds (sock_fd s)"
    "sock_fd s \<noteq> signal_fd st" "sock_fd s \<noteq> listener_fd st" "sock_fd s \<noteq> -1"
proof -
  obtain s where s: "objects st p = Some s" "open_socket s" using assms unfolding books_def by blast
  then have "sock_fd s \<noteq> -1" by (simp add: open_socket_def)
  with s assms(1) that show thesis by (auto simp: books_def descriptors_def fd_of_def)
qed

lemma books_fd_inj: "books B D st \<Longrightarrow> inj_on (fd_of st) (set (B @ D))"
proof (rule inj_onI)
  fix p q assume *: "books B D st" "p \<in> set (B @ D)" "q \<in> set (B @ D)" "fd_of st p = fd_of st q"
  obtain s where s: "objects st p = Some s" "fd_of st p = sock_fd s" "sock_fd s \<noteq> -1"
    using books_open [OF *(1,2)] by metis
  obtain s' where s': "objects st q = Some s'" "fd_of st q = sock_fd s'"
    using books_open [OF *(1,3)] by metis
  have "descriptors st" using *(1) by (simp add: books_def)
  with s s' *(4) show "p = q" unfolding descriptors_def by metis
qed

lemma books_cong:
  assumes "books B D st" "objects st' = objects st" "registered (sel st') = registered (sel st)" "fault st' = fault st"
    "commands st' = commands st" "next_object st' = next_object st" "signal_fd st' = signal_fd st"
    "listener_fd st' = listener_fd st" "set B' = set B" "set D' = set D" "distinct (B' @ D')"
  shows "books B' D' st'"
proof -
  have "fd_of st' = fd_of st" using assms(2) by (simp add: fd_of_def fun_eq_iff)
  with assms show ?thesis by (simp add: books_def descriptors_def owners_def)
qed

lemma books_fields [simp]:
  "books B D (st\<lparr>system := k\<rparr>) = books B D st"
  "books B D (st\<lparr>barely_connected_sockets := b\<rparr>) = books B D st"
  "books B D (st\<lparr>dropped_sockets := d\<rparr>) = books B D st"
  "books B D (st\<lparr>return_code := c\<rparr>) = books B D st"
  "books B D (st\<lparr>performed := t\<rparr>) = books B D st"
  by (simp_all add: books_def descriptors_def owners_def fd_of_def [abs_def])

lemma books_uses_fd: "books B D st \<Longrightarrow> fd_set_holds fd \<Longrightarrow> uses_fd fd st = st"
  by (simp add: books_def uses_fd_def)

text \<open>A command gives its socket to an actor or to nobody.\<close>

lemma conn_sockets_insert:
  "conn_socket c = None \<Longrightarrow> conn_sockets (cs\<lparr>actor_connections := umap_insert i c (actor_connections cs)\<rparr>) = conn_sockets cs"
  by (auto simp: conn_sockets_def umap_simps split: if_splits)

lemma conn_sockets_state [simp]: "conn_sockets (cs\<lparr>server_state := x\<rparr>) = conn_sockets cs"
  by (simp add: conn_sockets_def)

lemma conn_sockets_connect:
  assumes "umap_find (actor_connections cs) i = Some c" "conn_socket c = None"
  shows "conn_sockets (cs\<lparr>actor_connections := umap_set i (c\<lparr>conn_socket := Some p\<rparr>) (actor_connections cs),
     nb_connected_actors := n\<rparr>) = insert (i, p) (conn_sockets cs)"
  using assms by (auto simp: conn_sockets_def umap_simps split: if_splits)

lemma connected_actor_sockets:
  "connected_actor p c cs = Inr (ack, d, effs, cs') \<Longrightarrow> \<not> d \<and> conn_sockets cs' = conn_sockets cs"
  by (auto simp: connected_actor_def split: if_splits option.splits)

lemma handle_command_sockets:
  assumes "handle_command cmd p cs = Inr (d, effs, cs')"
  shows "if d then conn_sockets cs' = conn_sockets cs else \<exists>i. conn_sockets cs' = insert (i, p) (conn_sockets cs)"
proof -
  obtain ack effs' where b: "command_body cmd p cs = Inr (ack, d, effs', cs')"
    using assms by (auto simp: handle_command_def split: sum.splits prod.splits)
  show ?thesis
  proof (cases cmd)
    case (KAddActor n h)
    then show ?thesis using b
      by (auto simp: command_body_def handle_add_actor_def Let_def conn_sockets_insert new_connection_def split: if_splits)
  next
    case (KConnect i)
    show ?thesis
    proof (cases "server_state cs = KILLED")
      case True
      then show ?thesis using b KConnect by (auto simp: command_body_def handle_connect_def)
    next
      case False
      then obtain c where c: "umap_find (actor_connections cs) i = Some c" "conn_socket c = None"
        "connected_actor p (c\<lparr>conn_socket := Some p\<rparr>) (cs\<lparr>actor_connections :=
           umap_set i (c\<lparr>conn_socket := Some p\<rparr>) (actor_connections cs),
           nb_connected_actors := nb_connected_actors cs + 1\<rparr>) = Inr (ack, d, effs', cs')"
        using b KConnect by (auto simp: command_body_def handle_connect_def Let_def split: if_splits option.splits)
      from connected_actor_sockets [OF c(3)] conn_sockets_connect [OF c(1,2)] show ?thesis by auto
    qed
  qed (use b in \<open>auto simp: command_body_def handle_start_def handle_kill_def handle_status_def split: if_splits\<close>)
qed

lemma books_serve_client:
  assumes "books (B1 @ p # B2) (dropped_sockets st) st" "serve_client P p info st = Some (Inr d, st')"
  shows "books (B1 @ B2) (dropped_sockets st') st'"
proof -
  let ?D = "dropped_sockets st"
  obtain effs cs k cmd where cmd: "handle_command cmd p (commands st) = Inr (d, effs, cs)"
    and st': "st' = (let st1 = st\<lparr>commands := cs, performed := performed st @ effs, system := k\<rparr> in
      if d then st1\<lparr>dropped_sockets := ?D @ [p]\<rparr> else unregister_fd (fd_of st p) st1)"
    using serve_client_io [OF assms(2)] by blast
  obtain s where s: "objects st p = Some s" "fd_of st p = sock_fd s" "fd_set_holds (sock_fd s)"
    "sock_fd s \<noteq> signal_fd st" "sock_fd s \<noteq> listener_fd st"
    by (rule books_open [OF assms(1), of p]) auto
  have p: "p < next_object st" using assms(1) s(1) by (auto simp: books_def descriptors_def)
  have own: "owners (B1 @ p # B2) st" using assms(1) by (simp add: books_def)
  have unowned: "(j, p) \<notin> conn_sockets (commands st)" for j using own by (auto simp: owners_def)
  show ?thesis
  proof (cases d)
    case True
    then have "conn_sockets cs = conn_sockets (commands st)" using handle_command_sockets [OF cmd] by simp
    then have "owners (B1 @ B2) st'" using own True st' by (auto simp: owners_def)
    with assms(1) True st' show ?thesis
      by (auto simp: books_def descriptors_def fd_of_def)
  next
    case False
    then obtain i where i: "conn_sockets cs = insert (i, p) (conn_sockets (commands st))"
      using handle_command_sockets [OF cmd] by auto
    have same: "objects st' = objects st" "next_object st' = next_object st" "signal_fd st' = signal_fd st"
      "listener_fd st' = listener_fd st" "dropped_sockets st' = ?D" "commands st' = cs"
      "registered (sel st') = registered (sel st) - {sock_fd s}" "fault st' = fault st"
      using False st' s by (simp_all add: unregister_fd_def uses_fd_def selector_remove_def)
    have fd: "fd_of st' = fd_of st" using same by (simp add: fd_of_def fun_eq_iff)
    have p_once: "p \<notin> set (B1 @ B2 @ ?D)" using assms(1) by (auto simp: books_def)
    have "owners (B1 @ B2) st'"
      using own p unowned p_once i same by (fastforce simp: owners_def)
    moreover have "fd_of st ` set (B1 @ p # B2 @ ?D) - {sock_fd s} = fd_of st ` set (B1 @ B2 @ ?D)"
      using inj_on_image_set_diff [OF books_fd_inj [OF assms(1)], of "set (B1 @ p # B2 @ ?D)" "{p}"] p_once s(2)
      by (auto simp: image_iff)
    moreover have "registered (sel st) = {signal_fd st, listener_fd st} \<union> fd_of st ` set (B1 @ p # B2 @ ?D)"
      using assms(1) by (simp add: books_def)
    ultimately have "registered (sel st') = {signal_fd st', listener_fd st'} \<union> fd_of st' ` set (B1 @ B2 @ ?D)"
    proof -
      assume F: "fd_of st ` set (B1 @ p # B2 @ ?D) - {sock_fd s} = fd_of st ` set (B1 @ B2 @ ?D)"
        and R: "registered (sel st) = {signal_fd st, listener_fd st} \<union> fd_of st ` set (B1 @ p # B2 @ ?D)"
      have "{signal_fd st, listener_fd st} - {sock_fd s} = {signal_fd st, listener_fd st}" using s(4,5) by blast
      then show ?thesis by (simp only: same(3,4,7) fd R Un_Diff F)
    qed
    moreover have "descriptors st'" "\<not> fault st'" using assms(1) same by (simp_all add: books_def descriptors_def)
    moreover have "distinct ((B1 @ B2) @ ?D)" "\<forall>q \<in> set ((B1 @ B2) @ ?D). \<exists>s. objects st' q = Some s \<and> open_socket s"
      using assms(1) same(1) by (simp_all add: books_def)
    ultimately show ?thesis using \<open>owners (B1 @ B2) st'\<close> unfolding books_def same(5) append_assoc by blast
  qed
qed

lemma books_check_fd: "books B D st \<Longrightarrow> p \<in> set (B @ D) \<Longrightarrow> uses_fd (fd_of st p) st = st"
  by (metis books_open books_uses_fd)

lemma barely_serve_client:
  "serve_client P p info st = Some (Inr d, st') \<Longrightarrow> barely_connected_sockets st' = barely_connected_sockets st"
  by (auto dest!: serve_client_io simp: Let_def unregister_fd_def uses_fd_def)

lemma books_sweep_clients:
  assumes "sweep_clients P todo st = Some (Inr (d, kept), st')"
    "books (pre @ map fst todo) (dropped_sockets st) st"
  shows "books (pre @ map fst kept) (dropped_sockets st') st'"
  using assms
proof (induction P todo st arbitrary: pre d kept st' rule: sweep_clients.induct)
  case (1 P st)
  then show ?case by (simp add: io_Inr)
next
  case (2 P p info rest st)
  have fd: "uses_fd (fd_of st p) st = st" using books_check_fd [OF "2.prems"(2), of p] by simp
  have pre: "books (pre @ p # map fst rest) (dropped_sockets st) st" using "2.prems"(2) by simp
  show ?case
  proof (cases "is_readable (sel st) (fd_of st p)")
    case False
    then obtain kept' where k: "sweep_clients P rest st = Some (Inr (d, kept'), st')" "kept = (p, info) # kept'"
      using "2.prems"(1) fd by (auto simp: io_Inr split: prod.splits)
    with "2.IH"(1) [where pre = "pre @ [p]"] False fd pre show ?thesis by simp
  next
    case True
    then obtain drop_client st1 d' where k: "serve_client P p info st = Some (Inr drop_client, st1)"
      "sweep_clients P rest st1 = Some (Inr (d', kept), st')"
      using "2.prems"(1) fd by (auto simp: io_Inr split: prod.splits)
    have "books (pre @ map fst rest) (dropped_sockets st1) st1"
      using books_serve_client [OF pre k(1)] .
    from "2.IH"(2) [OF _ k(2) this] True show ?thesis by simp
  qed
qed

text \<open>A dropped client that has left: a system that closes, and whose connections are not reset.\<close>

definition calm :: "'k kernel \<Rightarrow> bool" where
  "calm K \<longleftrightarrow> (\<forall>fd n k. fst (k_recv K fd n k) \<noteq> Recv_error) \<and> (\<forall>fd k. fst (k_close K fd k))"

lemma tcp_recv_calm:
  assumes "calm K" "open_socket s" "tcp_recv K n (s, k) = Some (res, (s', k'))"
  shows "(\<exists>bs. res = Inr bs \<and> s' = s) \<or>
    (\<exists>e. res = Inl e \<and> s' = s\<lparr>sock_connected := False, sock_fd_before_close := sock_fd s, sock_fd := -1\<rparr>)"
proof -
  obtain a k1 where r: "k_recv K (sock_fd s) n k = (a, k1)" by (cases "k_recv K (sock_fd s) n k")
  have "a \<noteq> Recv_error" using assms(1) r by (metis calm_def fst_conv)
  moreover obtain k2 where "k_close K (sock_fd s) k1 = (True, k2)"
    using assms(1) by (metis (full_types) calm_def prod.collapse)
  ultimately show ?thesis using assms(2,3) r
    by (cases a) (auto simp: tcp_recv_def io_defs check_socket_def open_socket_def connection_lost_def tcp_close_def
        Let_def split: if_splits)
qed

lemma books_drain:
  assumes "calm K" "books B (D1 @ p # D2) st" "drain K p st = Some (Inr stays, st')"
  shows "books B (if stays then D1 @ p # D2 else D1 @ D2) st'"
proof -
  obtain s where s: "objects st p = Some s" "open_socket s" "fd_of st p = sock_fd s" "fd_set_holds (sock_fd s)"
    "sock_fd s \<noteq> signal_fd st" "sock_fd s \<noteq> listener_fd st" "sock_fd s \<noteq> -1"
    by (rule books_open [OF assms(2), of p]) auto
  obtain res s' k where m: "tcp_recv K 256 (s, system st) = Some (res, (s', k))"
    using assms(3) s(1) by (auto simp: drain_def with_object_def split: option.splits)
  then have w: "with_object p (tcp_recv K 256) st = Some (res, st\<lparr>objects := (objects st)(p \<mapsto> s'), system := k\<rparr>)"
    using s(1) by (simp add: with_object_def)
  from tcp_recv_calm [OF assms(1) s(2) m] show ?thesis
  proof (elim disjE exE conjE)
    fix bs assume *: "res = Inr bs" "s' = s"
    then have "(objects st)(p \<mapsto> s') = objects st" using s(1) by auto
    with w * assms(2,3) show ?thesis by (auto simp: drain_def io_Inr)
  next
    fix e assume *: "res = Inl e" "s' = s\<lparr>sock_connected := False, sock_fd_before_close := sock_fd s, sock_fd := -1\<rparr>"
    have st': "stays = False" "objects st' = (objects st)(p := None)" "registered (sel st') = registered (sel st) - {sock_fd s}"
      "fault st' = fault st" "commands st' = commands st" "next_object st' = next_object st"
      "signal_fd st' = signal_fd st" "listener_fd st' = listener_fd st"
      using assms(3) w * s by (auto simp: drain_def io_Inr delete_socket_def with_object_def tcp_close_def
          unregister_fd_def uses_fd_def fd_before_close_of_def return_io_def Let_def selector_remove_def)
    have p_once: "p \<notin> set (B @ D1 @ D2)" using assms(2) by (auto simp: books_def)
    have fd: "fd_of st' q = fd_of st q" if "q \<noteq> p" for q using that st'(2) by (simp add: fd_of_def)
    have "fd_of st ` set (B @ D1 @ p # D2) - {sock_fd s} = fd_of st ` set (B @ D1 @ D2)"
      using inj_on_image_set_diff [OF books_fd_inj [OF assms(2)], of "set (B @ D1 @ p # D2)" "{p}"] p_once s(3)
      by (auto simp: image_iff)
    also have "\<dots> = fd_of st' ` set (B @ D1 @ D2)" using p_once by (intro image_cong) (auto intro!: fd [symmetric])
    finally have "registered (sel st') = {signal_fd st', listener_fd st'} \<union> fd_of st' ` set (B @ D1 @ D2)"
      using assms(2) st' s by (auto simp: books_def)
    moreover have "descriptors st'" "\<not> fault st'" "owners B st'"
      using assms(2) st' by (auto simp: books_def descriptors_def owners_def split: if_splits)
    moreover have "distinct (B @ D1 @ D2)" "\<forall>q \<in> set (B @ D1 @ D2). \<exists>s. objects st' q = Some s \<and> open_socket s"
      using assms(2) st'(2) p_once by (auto simp: books_def)
    ultimately show ?thesis using st'(1) unfolding books_def by simp
  qed
qed

lemma books_sweep_dropped:
  assumes "calm K" "sweep_dropped K todo st = Some (Inr kept, st')" "books B (pre @ todo) st"
  shows "books B (pre @ kept) st'"
  using assms
proof (induction K todo st arbitrary: pre kept st' rule: sweep_dropped.induct)
  case (1 K st)
  then show ?case by (simp add: io_Inr)
next
  case (2 K p rest st)
  have fd: "uses_fd (fd_of st p) st = st" using books_check_fd [OF "2.prems"(3), of p] by simp
  show ?case
  proof (cases "is_readable (sel st) (fd_of st p)")
    case False
    then obtain kept' where k: "sweep_dropped K rest st = Some (Inr kept', st')" "kept = p # kept'"
      using "2.prems"(2) fd by (auto simp: io_Inr)
    with "2.IH"(1) [where pre = "pre @ [p]"] "2.prems" False fd show ?thesis by simp
  next
    case True
    then obtain stays st1 kept' where k: "drain K p st = Some (Inr stays, st1)"
      "sweep_dropped K rest st1 = Some (Inr kept', st')" "kept = (if stays then p # kept' else kept')"
      using "2.prems"(2) fd by (auto simp: io_Inr)
    have "books B (if stays then pre @ p # rest else pre @ rest) st1"
      using books_drain [OF "2.prems"(1) "2.prems"(3) k(1)] .
    then have "books B ((if stays then pre @ [p] else pre) @ rest) st1" by (simp split: if_splits)
    from "2.IH"(2) [OF _ "2.prems"(1) k(2) this] True k(3) show ?thesis by (simp split: if_splits)
  qed
qed

definition in_order :: "'k serve_state \<Rightarrow> bool" where
  "in_order st \<longleftrightarrow> books (map fst (barely_connected_sockets st)) (dropped_sockets st) st"

lemma barely_drain: "drain K p st = Some (Inr b, st') \<Longrightarrow> barely_connected_sockets st' = barely_connected_sockets st"
  by (auto simp: drain_def io_Inr delete_socket_def with_object_def unregister_fd_def uses_fd_def raise_io_def
      split: option.splits sum.splits)

lemma barely_sweep_dropped:
  "sweep_dropped K ps st = Some (Inr kept, st') \<Longrightarrow> barely_connected_sockets st' = barely_connected_sockets st"
proof (induction K ps st arbitrary: kept st' rule: sweep_dropped.induct)
  case (1 K st)
  then show ?case by (simp add: io_Inr)
next
  case (2 K p rest st)
  have "barely_connected_sockets (uses_fd (fd_of st p) st) = barely_connected_sockets st" by (simp add: uses_fd_def)
  with 2 show ?case by (auto simp: io_Inr split: if_splits dest!: barely_drain)
qed

lemma in_order_serve_sockets:
  assumes "calm (os P)" "in_order st" "serve_sockets P st = Some (Inr (), st')"
  shows "in_order st'"
proof -
  obtain d kept st1 where s: "sweep_clients P (barely_connected_sockets st) st = Some (Inr (d, kept), st1)"
    and rest: "if d then st' = st1\<lparr>barely_connected_sockets := kept\<rparr>
      else \<exists>kept' st2. sweep_dropped (os P) (dropped_sockets st1) (st1\<lparr>barely_connected_sockets := kept\<rparr>) =
        Some (Inr kept', st2) \<and> st' = st2\<lparr>dropped_sockets := kept'\<rparr>"
    using assms(3) by (auto simp: serve_sockets_def io_Inr split: prod.splits if_splits)
  have "books (map fst kept) (dropped_sockets st1) st1"
    using books_sweep_clients [OF s, of "[]"] assms(2) by (simp add: in_order_def)
  then have b: "books (map fst kept) (dropped_sockets st1) (st1\<lparr>barely_connected_sockets := kept\<rparr>)"
    by simp
  show ?thesis
  proof (cases d)
    case True
    with b rest show ?thesis by (simp add: in_order_def)
  next
    case False
    then obtain kept' st2 where k: "sweep_dropped (os P) (dropped_sockets st1) (st1\<lparr>barely_connected_sockets := kept\<rparr>) =
        Some (Inr kept', st2)" "st' = st2\<lparr>dropped_sockets := kept'\<rparr>"
      using rest by auto
    have "books (map fst kept) kept' st2"
      using books_sweep_dropped [OF assms(1) k(1), of _ "[]"] b by simp
    then show ?thesis
      using barely_sweep_dropped [OF k(1)] k(2) by (simp add: in_order_def)
  qed
qed

lemma keeps_nagle: "keeps_socket (disable_nagle_algorithm K)"
  unfolding disable_nagle_algorithm_def by (intro keeps_bind keeps_check)

lemma accept_client_io:
  assumes "accept_client K st = Some (Inr (), st')"
  shows "\<exists>fd k. st' = register_fd fd (st\<lparr>objects := (objects st)(next_object st \<mapsto> tcp_socket_of_fd fd),
     next_object := Suc (next_object st), system := k,
     barely_connected_sockets := umap_insert (next_object st) new_barely_connected (barely_connected_sockets st)\<rparr>)"
proof -
  let ?p = "next_object st"
  obtain fd' k where a: "k_accept K (listener_fd st) (system st) = (fd', k)"
    by (cases "k_accept K (listener_fd st) (system st)")
  let ?st = "st\<lparr>objects := (objects st)(?p \<mapsto> tcp_socket_of_fd fd'), next_object := Suc ?p, system := k\<rparr>"
  obtain st1 where st1: "with_object ?p (disable_nagle_algorithm K) ?st = Some (Inr (), st1)"
    "st' = register_fd (fd_of st1 ?p) (st1\<lparr>barely_connected_sockets :=
      umap_insert ?p new_barely_connected (barely_connected_sockets st1)\<rparr>)"
    using assms a by (auto simp: accept_client_def listener_accept_def io_Inr Let_def return_io_def raise_io_def
        split: if_splits)
  then obtain k' where "st1 = ?st\<lparr>system := k'\<rparr>" using with_object_keeps [OF st1(1) keeps_nagle] by blast
  with st1(2) show ?thesis
    by (intro exI [of _ fd'] exI [of _ k']) (simp add: fd_of_def tcp_socket_of_fd_def)
qed

lemma in_order_accept:
  assumes "in_order st" "accept_client K st = Some (Inr (), st')" "fresh_fds st st'"
  shows "in_order st'"
proof -
  let ?p = "next_object st" and ?B = "map fst (barely_connected_sockets st)" and ?D = "dropped_sockets st"
  obtain fd k where st': "st' = register_fd fd (st\<lparr>objects := (objects st)(?p \<mapsto> tcp_socket_of_fd fd),
     next_object := Suc ?p, system := k,
     barely_connected_sockets := umap_insert ?p new_barely_connected (barely_connected_sockets st)\<rparr>)"
    using accept_client_io [OF assms(2)] by blast
  have s: "sock_fd (tcp_socket_of_fd fd) = fd" "sock_connected (tcp_socket_of_fd fd)"
    by (simp_all add: tcp_socket_of_fd_def)
  have o': "objects st' = (objects st)(?p \<mapsto> tcp_socket_of_fd fd)"
    using st' by (simp add: register_fd_def uses_fd_def)
  have fd: "fd_set_holds fd" "fd \<noteq> signal_fd st" "fd \<noteq> listener_fd st"
    and new: "\<And>q s'. q < ?p \<Longrightarrow> objects st q = Some s' \<Longrightarrow> sock_fd s' \<noteq> fd"
    using assms(3) [unfolded fresh_fds_def, THEN spec, THEN spec, of ?p "tcp_socket_of_fd fd"] o' s(1) by auto
  have b: "books ?B ?D st" using assms(1) by (simp add: in_order_def)
  have old: "q < ?p" if "objects st q = Some s'" for q s' using b that by (auto simp: books_def descriptors_def)
  have managed: "q < ?p" if "q \<in> set (?B @ ?D)" for q using books_open [OF b that] old by metis
  have B': "map fst (barely_connected_sockets st') = ?p # ?B"
    using st' managed [of ?p] by (auto simp: register_fd_def uses_fd_def umap_insert_def)
  have fd_of': "fd_of st' q = (if q = ?p then fd else fd_of st q)" for q
    using o' s(1) by (simp add: fd_of_def)
  have fdneg: "fd \<noteq> -1" using fd(1) by (auto simp: fd_set_holds_def)
  have rest: "dropped_sockets st' = ?D" "fault st' = fault st" "commands st' = commands st" "next_object st' = Suc ?p"
    "signal_fd st' = signal_fd st" "listener_fd st' = listener_fd st"
    "registered (sel st') = insert fd (registered (sel st))"
    using st' fd(1) by (simp_all add: register_fd_def uses_fd_def selector_add_def)
  have "descriptors st'"
  proof -
    have d: "descriptors st" using b by (simp add: books_def)
    have a: "q < next_object st' \<and> (sock_fd s' \<noteq> -1 \<longrightarrow> fd_set_holds (sock_fd s') \<and> sock_fd s' \<noteq> signal_fd st' \<and>
        sock_fd s' \<noteq> listener_fd st')" if "objects st' q = Some s'" for q s'
      using d that o' rest s(1) fd unfolding descriptors_def by (cases "q = ?p") (auto intro: less_SucI)
    have "q = r" if qr: "objects st' q = Some s'" "objects st' r = Some s''" "sock_fd s' = sock_fd s''"
      "sock_fd s' \<noteq> -1" for q r s' s''
    proof (cases "q = ?p \<or> r = ?p")
      case True
      then show ?thesis using qr o' s(1) new old by (auto split: if_splits)
    next
      case False
      with qr o' have "objects st q = Some s'" "objects st r = Some s''" by simp_all
      with d qr(3,4) show ?thesis unfolding descriptors_def by blast
    qed
    with a d rest show ?thesis unfolding descriptors_def by simp
  qed
  moreover have "owners (?p # ?B) st'"
  proof -
    have "owners ?B st" using b by (simp add: books_def)
    then show ?thesis using rest unfolding owners_def by (auto dest: bspec intro: less_SucI)
  qed
  moreover have "\<forall>q \<in> set ((?p # ?B) @ ?D). \<exists>s. objects st' q = Some s \<and> open_socket s"
    using b o' s fdneg by (auto simp: books_def open_socket_def)
  moreover have "registered (sel st') = {signal_fd st', listener_fd st'} \<union> fd_of st' ` set ((?p # ?B) @ ?D)"
  proof -
    have "fd_of st' ` set ((?p # ?B) @ ?D) = insert fd (fd_of st ` set (?B @ ?D))"
    proof -
      have "fd_of st' q = fd_of st q" if "q \<in> set (?B @ ?D)" for q
        using managed [OF that] fd_of' [of q] by simp
      then have "fd_of st' ` set (?B @ ?D) = fd_of st ` set (?B @ ?D)" by (rule image_cong [OF refl])
      then show ?thesis using fd_of' [of ?p] by simp
    qed
    moreover have "registered (sel st) = {signal_fd st, listener_fd st} \<union> fd_of st ` set (?B @ ?D)"
      using b unfolding books_def by blast
    ultimately show ?thesis using rest(5-7) by (simp add: insert_commute)
  qed
  moreover have "distinct ((?p # ?B) @ ?D)" using b managed [of ?p] by (auto simp: books_def)
  moreover have "\<not> fault st'" using b rest by (simp add: books_def)
  ultimately have "books (?p # ?B) ?D st'" unfolding books_def by blast
  then show ?thesis using B' rest(1) by (simp add: in_order_def)
qed

lemma books_commands: "conn_sockets cs = conn_sockets (commands st) \<Longrightarrow> books B D (st\<lparr>commands := cs\<rparr>) = books B D st"
  by (simp add: books_def descriptors_def owners_def fd_of_def [abs_def])

lemma books_finish: "books B D (finish_simulation code st) = books B D st"
  by (simp add: finish_simulation_def books_commands)

lemma in_order_quit:
  assumes "in_order st" "p \<notin> set (managed st)" "objects st p = Some s" "open_socket s"
  shows "in_order (register_fd (sock_fd s) (st\<lparr>dropped_sockets := dropped_sockets st @ [p]\<rparr>))" (is "in_order ?st'")
proof -
  let ?B = "map fst (barely_connected_sockets st)" and ?D = "dropped_sockets st"
  have b: "books ?B ?D st" using assms(1) by (simp add: in_order_def)
  have "descriptors st" using b by (simp add: books_def)
  then have fd: "fd_set_holds (sock_fd s)"
    using assms(3,4) unfolding descriptors_def open_socket_def by blast
  have fields: "objects ?st' = objects st" "commands ?st' = commands st" "next_object ?st' = next_object st"
    "signal_fd ?st' = signal_fd st" "listener_fd ?st' = listener_fd st" "dropped_sockets ?st' = ?D @ [p]"
    "barely_connected_sockets ?st' = barely_connected_sockets st" "fault ?st' = fault st"
    "registered (sel ?st') = insert (sock_fd s) (registered (sel st))"
    using fd by (simp_all add: register_fd_def uses_fd_def selector_add_def)
  have fd_of: "fd_of ?st' = fd_of st" using fields(1) by (simp add: fd_of_def fun_eq_iff)
  have "registered (sel st) = {signal_fd st, listener_fd st} \<union> fd_of st ` set (?B @ ?D)"
    using b unfolding books_def by blast
  moreover have "fd_of st p = sock_fd s" using assms(3) by (simp add: fd_of_def)
  ultimately have "registered (sel ?st') = {signal_fd ?st', listener_fd ?st'} \<union> fd_of ?st' ` set (?B @ ?D @ [p])"
    unfolding fields fd_of by auto
  moreover have "descriptors ?st'" "owners ?B ?st'" "\<not> fault ?st'"
    using b fields unfolding books_def descriptors_def owners_def by simp_all
  moreover have "distinct (?B @ ?D @ [p])" using b assms(2) by (auto simp: books_def managed_def)
  moreover have "\<forall>q \<in> set (?B @ ?D @ [p]). \<exists>s. objects ?st' q = Some s \<and> open_socket s"
    using b assms(3,4) fields(1) unfolding books_def by simp
  ultimately have "books ?B (?D @ [p]) ?st'" unfolding books_def by blast
  then show ?thesis using fields(6,7) by (simp add: in_order_def)
qed

lemma in_order_message:
  assumes "in_order st" "handle_message P msg st = Some (Inr (), st')" "message_ok st (Some msg)"
  shows "in_order st'"
proof (cases msg)
  case (Im_actor_quit p)
  then obtain s where "p \<notin> set (managed st)" "objects st p = Some s" "open_socket s"
    using assms(3) by (auto simp: message_ok_def)
  with in_order_quit [OF assms(1)] assms(2) Im_actor_quit show ?thesis by (auto simp: handle_message_def io_Inr)
next
  case (Im_actor_create i q r)
  then obtain effs cs where r: "register_actor i q r (commands st) = Inr (effs, cs)"
    "perform P effs (st\<lparr>commands := cs\<rparr>) = Some (Inr (), st')"
    using assms(2) by (auto simp: handle_message_def io_Inr split: sum.splits)
  then have "conn_sockets cs = conn_sockets (commands st)"
    by (auto simp: register_actor_def conn_sockets_insert new_connection_def split: if_splits)
  with perform_io [OF r(2)] assms(1) show ?thesis by (auto simp: in_order_def books_commands)
qed (use assms in \<open>auto simp: handle_message_def io_Inr in_order_def books_finish finish_simulation_def books_commands\<close>)

lemma in_order_others:
  assumes "in_order st" "others_ran st st'"
  shows "in_order st'"
proof -
  let ?B = "map fst (barely_connected_sockets st)" and ?D = "dropped_sockets st"
  have b: "books ?B ?D st" using assms(1) by (simp add: in_order_def)
  obtain o' k where st': "st' = st\<lparr>objects := o', system := k\<rparr>" using assms(2) unfolding others_ran_def by blast
  then have m: "\<And>p. p \<in> set (?B @ ?D) \<Longrightarrow> o' p = objects st p"
    and o': "\<And>p s'. o' p = Some s' \<Longrightarrow> \<exists>s. objects st p = Some s \<and> (sock_fd s' = sock_fd s \<or> sock_fd s' = -1)"
    using assms(2) unfolding others_ran_def managed_def by (auto split: option.splits) (metis option.exhaust option.inject)
  have "descriptors st" using b by (simp add: books_def)
  then have "descriptors st'"
  proof -
    assume d: "descriptors st"
    have a: "q < next_object st' \<and> (sock_fd s' \<noteq> -1 \<longrightarrow> fd_set_holds (sock_fd s') \<and> sock_fd s' \<noteq> signal_fd st' \<and>
        sock_fd s' \<noteq> listener_fd st')" if q: "objects st' q = Some s'" for q s'
    proof -
      obtain s where s: "objects st q = Some s" "sock_fd s' = sock_fd s \<or> sock_fd s' = -1"
        using o' [of q s'] q st' by auto
      have "q < next_object st \<and> (sock_fd s \<noteq> -1 \<longrightarrow> fd_set_holds (sock_fd s) \<and> sock_fd s \<noteq> signal_fd st \<and>
          sock_fd s \<noteq> listener_fd st)"
        using d s(1) unfolding descriptors_def by blast
      with s(2) st' show ?thesis by auto
    qed
    have "q = r" if qr: "objects st' q = Some s'" "objects st' r = Some s''" "sock_fd s' = sock_fd s''"
      "sock_fd s' \<noteq> -1" for q r s' s''
    proof -
      obtain s1 s2 where "objects st q = Some s1" "sock_fd s' = sock_fd s1" "objects st r = Some s2" "sock_fd s'' = sock_fd s2"
        using o' [of q s'] o' [of r s''] qr st' by auto
      with d qr(3,4) show ?thesis unfolding descriptors_def by metis
    qed
    with a d st' show ?thesis unfolding descriptors_def by simp
  qed
  moreover have "fd_of st' ` set (?B @ ?D) = fd_of st ` set (?B @ ?D)"
    using m st' by (intro image_cong refl) (simp add: fd_of_def)
  moreover have "owners ?B st'" using b st' by (simp add: books_def owners_def)
  ultimately have "books ?B ?D st'" using b st' m unfolding books_def by simp
  then show ?thesis using st' by (simp add: in_order_def)
qed

lemma in_order_events:
  assumes "calm (os P)" "in_order st" "handle_events P st = Some (Inr False, st')" "fresh_fds st st'"
  shows "in_order st'"
proof -
  obtain sel' k any where w: "wait_any_readable (select_call P) (sel st) (system st) = (Inr (any, sel'), k)"
    and st': "let st1 = st\<lparr>sel := sel', system := k\<rparr> in
      st' = st1 \<or> accept_client (os P) st1 = Some (Inr (), st') \<or> serve_sockets P st1 = Some (Inr (), st')"
    using handle_events_False [OF assms(3)] by blast
  let ?st = "st\<lparr>sel := sel', system := k\<rparr>"
  have "registered sel' = registered (sel st)"
    using w by (auto simp: wait_any_readable_def split: prod.splits option.splits)
  then have "in_order ?st"
    using assms(2) by (simp add: in_order_def books_def descriptors_def owners_def fd_of_def [abs_def])
  moreover have "fresh_fds ?st st'" using assms(4) by (simp add: fresh_fds_def)
  ultimately show ?thesis
    using st' in_order_accept [of ?st "os P" st'] in_order_serve_sockets [OF assms(1), of ?st st']
    by (auto simp: Let_def)
qed


section \<open>An example of a run\<close>

text \<open>
  A client connects (descriptor 5), then sends the START command, whose message type encodes it by no
  byte; there is no actor to wait for. The system's state counts its calls of \<^verbatim>\<open>select\<close>.
\<close>

definition example_server :: "nat serve_platform" where
  "example_server = \<lparr>os = \<lparr>k_socket = (\<lambda>k. (4, k)), k_recv = (\<lambda>fd n k. (Received (replicate n 0), k)),
       k_send = (\<lambda>fd buf k. (Sent (length buf), k)), k_close = (\<lambda>fd k. (True, k)),
       k_shutdown = (\<lambda>fd r s k. (True, k)), k_inet_pton = (\<lambda>a k. (1, k)),
       k_connect = (\<lambda>fd a p k. (True, k)), k_setsockopt = (\<lambda>fd opt k. (True, k)),
       k_bind = (\<lambda>fd p k. (True, k)), k_listen = (\<lambda>fd n k. (True, k)), k_accept = (\<lambda>fd k. (5, k))\<rparr>,
     little_endian = True, command_codec = constant_codec (KStart True),
     command_ack_codec = constant_codec command_ack0,
     decision_codec = constant_codec \<lparr>think_time = Finite 0, type_case = KQuit True\<rparr>,
     decision_ack_codec = constant_codec decision_ack0, steady_clock = (\<lambda>k. (0, k)), join_thread = (\<lambda>t. Some),
     select_call = (\<lambda>fds k. (Some (if k = 0 then {4} else {5}), Suc k)), block_signals = (\<lambda>k. (True, k)),
     signalfd_call = (\<lambda>k. (3, k)), read_signal = (\<lambda>k. (True, k)), pop_message = (\<lambda>k. (None, k))\<rparr>"

definition example_start :: "nat serve_state" where
  "example_start = init_serve_state 3 4 0"

definition example_accepted :: "nat serve_state" where
  "example_accepted = register_fd 5 (example_start\<lparr>sel := (sel example_start)\<lparr>readable := {4}\<rparr>,
     objects := [0 \<mapsto> tcp_socket_of_fd 5], next_object := 1, system := 1,
     barely_connected_sockets := [(0, new_barely_connected)]\<rparr>)"

definition example_launched :: "nat serve_state" where
  "example_launched = example_accepted\<lparr>sel := (sel example_accepted)\<lparr>readable := {5}\<rparr>, system := 2,
     barely_connected_sockets := [], dropped_sockets := [0],
     commands := init_command_state\<lparr>server_state := SIMULATION_RUNNING\<rparr>,
     performed := [Start_simulation [], Write_ack 0 (ack_success_of True)]\<rparr>"

lemmas example_state_defs = example_start_def example_accepted_def example_launched_def init_serve_state_def
  register_fd_def uses_fd_def selector_add_def new_selector_def fd_set_holds_def

lemma example_accept: "handle_events example_server example_start = Some (Inr False, example_accepted)"
  by (simp add: handle_events_def wait_any_readable_def accept_client_def listener_accept_def with_object_def
      disable_nagle_algorithm_def check_socket_def sys_call_def io_defs example_server_def is_readable_def
      example_state_defs tcp_socket_of_fd_def new_socket_def fd_of_def umap_insert_def Let_def)

lemma example_read:
  "read_command (os example_server) True (constant_codec (KStart True)) new_barely_connected (tcp_socket_of_fd 5, k) =
     Some (Inr (KStart True, new_barely_connected\<lparr>bytes_read := 4\<rparr>), (tcp_socket_of_fd 5, k))"
proof -
  have zeros: "replicate 4 (0 :: byte) = [0, 0, 0, 0]" by (simp add: numeral_eq_Suc)
  have recv: "tcp_recv (os example_server) 4 (tcp_socket_of_fd 5, k) = Some (Inr [0, 0, 0, 0], (tcp_socket_of_fd 5, k))"
    by (simp add: tcp_recv_def check_socket_def io_defs example_server_def tcp_socket_of_fd_def new_socket_def zeros)
  have size: "content_size True (new_barely_connected\<lparr>bytes_read := n\<rparr>) = 0" for n
    by (simp add: content_size_def new_barely_connected_def header_value_def)
  have over: "overwrite 0 [0, 0, 0, 0] (size_bytes new_barely_connected) = size_bytes new_barely_connected"
    by (simp add: overwrite_def new_barely_connected_def)
  have new: "bytes_read new_barely_connected = 0" by (simp add: new_barely_connected_def)
  have "handle_barely_connected_socket_read (os example_server) True (constant_codec (KStart True)) new_barely_connected
      (tcp_socket_of_fd 5, k) = Some (Inr (Some (KStart True), new_barely_connected\<lparr>bytes_read := 4\<rparr>), (tcp_socket_of_fd 5, k))"
    by (simp add: handle_barely_connected_socket_read_def new over recv size bind_io_def enforce_io_def return_io_def
        read_content_def max_content_size_def constant_codec_def Let_def)
  then show ?thesis by (subst read_command.simps) simp
qed

lemma example_write:
  "write_message (os example_server) True (constant_codec command_ack0) ack (tcp_socket_of_fd 5, k) =
     Some (Inr (), (tcp_socket_of_fd 5, k))"
  by (simp add: write_message_def constant_codec_def max_serialized_size_def io_defs send_all_def check_socket_def
      tcp_socket_of_fd_def new_socket_def send_loop.simps example_server_def Let_def)

lemma example_launch: "handle_events example_server example_accepted = Some (Inr False, example_launched)"
proof -
  have os: "little_endian example_server = True" "command_codec example_server = constant_codec (KStart True)"
    "command_ack_codec example_server = constant_codec command_ack0"
    "select_call example_server = (\<lambda>fds k. (Some (if k = 0 then {4} else {5}), Suc k))"
    by (simp_all add: example_server_def)
  have fd: "sock_fd (tcp_socket_of_fd 5) = 5" by (simp add: tcp_socket_of_fd_def)
  show ?thesis
    by (simp add: handle_events_def wait_any_readable_def serve_sockets_def serve_client_def run_command_def
        perform_effect_def with_object_def example_read example_write os io_defs fd is_readable_def fd_of_def
        command_defs all_connected_def init_command_state_def ack_success_of_def example_state_defs Let_def fun_eq_iff)
qed

lemma example_serves: "serves example_server example_launched"
proof -
  have pop: "receive_message example_server st = Some (Inr (), st)" "fst (pop_message example_server k) = None" for st k
    by (simp_all add: receive_message_def example_server_def return_io_def)
  have s0: "serves example_server example_start"
    unfolding example_start_def by (rule serves_init) (simp_all add: fd_set_holds_def)
  have s1: "serves example_server example_accepted"
    by (rule serves_turn [OF s0 _ example_accept])
      (simp_all add: ended_def example_state_defs init_command_state_def fresh_fds_def message_ok_def pop
        tcp_socket_of_fd_def)
  show ?thesis
    by (rule serves_turn [OF s1 _ example_launch])
      (simp_all add: ended_def example_state_defs init_command_state_def fresh_fds_def message_ok_def pop
        tcp_socket_of_fd_def)
qed

theorem serve_refines_lives_witness:
  "lives (init_command_state\<lparr>server_state := SIMULATION_RUNNING\<rparr>)
     [Start_simulation [], Write_ack 0 (ack_success_of True)]"
  using serve_refines_lives [OF example_serves] by (simp add: example_state_defs)


section \<open>Clients that go away\<close>

lemma sweep_clients_skip:
  assumes "\<forall>q \<in> set pre. \<not> is_readable (sel st) (fd_of st (fst q))"
    "\<And>st1. objects st1 = objects st \<Longrightarrow> sel st1 = sel st \<Longrightarrow> system st1 = system st \<Longrightarrow>
      \<exists>st'. sweep_clients P rest st1 = Some (Inl e, st')"
  shows "\<exists>st'. sweep_clients P (pre @ rest) st = Some (Inl e, st')"
  using assms
proof (induction pre arbitrary: st)
  case Nil
  then show ?case by simp
next
  case (Cons q pre)
  obtain p info where q: "q = (p, info)" by (cases q)
  let ?st = "uses_fd (fd_of st p) st"
  have same: "objects ?st = objects st" "sel ?st = sel st" "system ?st = system st" by (simp_all add: uses_fd_def)
  then have "fd_of ?st = fd_of st" by (simp add: fd_of_def fun_eq_iff)
  with Cons.prems same have "\<exists>st'. sweep_clients P (pre @ rest) ?st = Some (Inl e, st')"
    by (intro Cons.IH) auto
  with Cons.prems(1) q show ?case by (auto simp: bind_io_def)
qed

text \<open>C15: a client that connects and leaves without a command takes the server with it: the end of
  its stream is an error that nothing in the loop catches, whatever the state of the simulation.\<close>

theorem hang_up_ends_the_server:
  assumes "\<not> ended st" "wait_any_readable (select_call P) (sel st) (system st) = (Inr (True, sel'), k)"
    and "\<not> is_readable sel' (signal_fd st)" "\<not> is_readable sel' (listener_fd st)"
    and "barely_connected_sockets st = pre @ (p, info) # rest" "bytes_read info < 4"
    and "\<forall>q \<in> set pre. \<not> is_readable sel' (fd_of st (fst q))"
    and "objects st p = Some s" "open_socket s" "is_readable sel' (sock_fd s)"
    and "k_recv (os P) (sock_fd s) (4 - bytes_read info) k = (Received [], k')"
  shows "\<exists>st'. serve_loop P st = Some (Inl ''Connection lost'', st')"
proof -
  let ?st = "st\<lparr>sel := sel', system := k\<rparr>" and ?C = "command_codec P"
  have "\<exists>r. tcp_close (os P) (s, k') = Some r"
    by (simp add: tcp_close_def io_defs Let_def split: prod.split)
  then obtain sk where "connection_lost (os P) (s, k') = Some (Inl ''Connection lost'' :: rsg_error + bytes, sk)"
    by (auto simp: connection_lost_def raise_io_def)
  then have "tcp_recv (os P) (4 - bytes_read info) (s, k) = Some (Inl ''Connection lost'', sk)"
    using assms(9,11) by (simp add: tcp_recv_def io_defs check_socket_def open_socket_def)
  then have "read_command (os P) (little_endian P) ?C info (s, k) = Some (Inl ''Connection lost'', sk)"
    using assms(6) by (subst read_command.simps) (simp add: handle_barely_connected_socket_read_def bind_io_def)
  then have read: "\<exists>st'. sweep_clients P ((p, info) # rest) st1 = Some (Inl ''Connection lost'', st')"
    if "objects st1 = objects st" "sel st1 = sel'" "system st1 = k" for st1
    using that assms(8,10) by (cases sk) (auto simp: fd_of_def serve_client_def with_object_def bind_io_def uses_fd_def)
  have "fd_of ?st = fd_of st" by (simp add: fd_of_def fun_eq_iff)
  with assms(7) read have "\<exists>st'. sweep_clients P (pre @ (p, info) # rest) ?st = Some (Inl ''Connection lost'', st')"
    by (intro sweep_clients_skip) simp_all
  then have "\<exists>st'. serve_sockets P ?st = Some (Inl ''Connection lost'', st')"
    using assms(5) by (auto simp: serve_sockets_def bind_io_def)
  then have "\<exists>st'. handle_events P st = Some (Inl ''Connection lost'', st')"
    using assms(2-4) by (auto simp: handle_events_def bind_io_def Let_def)
  with assms(1) show ?thesis by (subst serve_loop.simps) auto
qed

text \<open>C33: a dropped client that resets its connection instead of closing it makes the server give
  descriptor -1 to FD_CLR, because nothing has closed the socket yet; the descriptor is closed then,
  but still watched.\<close>

theorem reset_of_a_dropped_client:
  assumes "objects st p = Some s" "open_socket s" "sock_fd_before_close s = -1" "sock_fd s \<in> registered (sel st)"
    and "k_recv K (sock_fd s) 256 (system st) = (Recv_error, k)" "k_close K (sock_fd s) k = (True, k')"
  shows "\<exists>st'. drain K p st = Some (Inr False, st') \<and> fault st' \<and> objects st' p = None \<and>
    sock_fd s \<in> registered (sel st') \<and> system st' = k'"
proof -
  have fd: "sock_fd s \<noteq> -1" using assms(2) by (simp add: open_socket_def)
  have "with_object p (tcp_recv K 256) st =
      Some (Inl ''Could not recv: %s'', st\<lparr>objects := (objects st)(p \<mapsto> s), system := k\<rparr>)"
    using assms(1,2,5) by (simp add: with_object_def tcp_recv_def io_defs check_socket_def open_socket_def)
  with assms fd show ?thesis
    by (simp add: drain_def delete_socket_def with_object_def tcp_close_def bind_io_def return_io_def Let_def
        unregister_fd_def uses_fd_def fd_before_close_of_def selector_remove_def fd_set_holds_def)
qed

text \<open>The clients of the example: the accepted one leaves, the dropped one resets.\<close>

definition hang_up_server :: "nat serve_platform" where
  "hang_up_server = example_server\<lparr>os := (os example_server)\<lparr>
     k_recv := (\<lambda>fd n k. if n = 256 then (Recv_error, k) else (Received [], k))\<rparr>\<rparr>"

theorem hang_up_ends_the_server_witness:
  "\<exists>st'. serve_loop hang_up_server example_accepted = Some (Inl ''Connection lost'', st')"
proof (rule hang_up_ends_the_server)
  show "\<not> ended example_accepted"
    by (simp add: ended_def example_state_defs init_command_state_def)
  show "wait_any_readable (select_call hang_up_server) (sel example_accepted) (system example_accepted) =
      (Inr (True, (sel example_accepted)\<lparr>readable := {5}\<rparr>), 2)"
    by (simp add: wait_any_readable_def hang_up_server_def example_server_def example_state_defs)
  show "barely_connected_sockets example_accepted = [] @ (0, new_barely_connected) # []"
    by (simp add: example_state_defs)
  show "objects example_accepted 0 = Some (tcp_socket_of_fd 5)" by (simp add: example_state_defs)
  show "k_recv (os hang_up_server) (sock_fd (tcp_socket_of_fd 5)) (4 - bytes_read new_barely_connected) 2 =
      (Received [], 2)" by (simp add: hang_up_server_def new_barely_connected_def)
qed (simp_all add: is_readable_def example_state_defs tcp_socket_of_fd_def new_socket_def new_barely_connected_def
    open_socket_def)

theorem reset_of_a_dropped_client_witness:
  "\<exists>st'. drain (os hang_up_server) 0 example_launched = Some (Inr False, st') \<and> fault st'"
proof -
  have "objects example_launched 0 = Some (tcp_socket_of_fd 5)" by (simp add: example_state_defs)
  from reset_of_a_dropped_client [where K = "os hang_up_server", OF this] show ?thesis
    by (auto simp: open_socket_def tcp_socket_of_fd_def new_socket_def example_state_defs hang_up_server_def
        example_server_def)
qed

end
