(* ===== verification/Server_Life.thy ===== *)
theory Server_Life
  imports Serve_Loop "HOL-Library.Sublist"
begin

text \<open>
  The command thread only moves forward: the order of the server's states, and what no turn of the
  loop takes back.
\<close>

section \<open>The order of the states\<close>

fun state_rank :: "server_state \<Rightarrow> nat" where
  "state_rank ACCEPTING_NEW_ACTORS = 0"
| "state_rank WAITING_FOR_ALL_ACTORS_CONNECTION = 1"
| "state_rank SIMULATION_RUNNING = 2"
| "state_rank KILLED = 3"
| "state_rank SIMULATION_FINISHED = 4"

instantiation server_state :: linorder
begin

definition less_eq_server_state :: "server_state \<Rightarrow> server_state \<Rightarrow> bool" where
  "less_eq_server_state s t \<longleftrightarrow> state_rank s \<le> state_rank t"

definition less_server_state :: "server_state \<Rightarrow> server_state \<Rightarrow> bool" where
  "less_server_state s t \<longleftrightarrow> state_rank s < state_rank t"

instance
proof
  fix s t u :: server_state
  show "s = t" if "s \<le> t" "t \<le> s"
    using that by (cases s; cases t) (simp_all add: less_eq_server_state_def)
qed (auto simp: less_eq_server_state_def less_server_state_def)

end

lemma state_le_finished [simp]: "(s :: server_state) \<le> SIMULATION_FINISHED"
  by (cases s) (simp_all add: less_eq_server_state_def)

section \<open>One command\<close>

lemma command_moves_forward:
  assumes "handle_command cmd sk cs = Inr (d, effs, cs')" "server_state cs \<noteq> SIMULATION_FINISHED"
  shows "server_state cs \<le> server_state cs' \<and> server_state cs' \<noteq> SIMULATION_FINISHED"
  using assms
  by (cases "server_state cs")
    (auto simp: command_defs Let_def less_eq_server_state_def split: command.splits if_splits option.splits sum.splits)

text \<open>What a state and the effects so far keep of earlier ones.\<close>

definition forward :: "command_state \<Rightarrow> effect list \<Rightarrow> command_state \<Rightarrow> effect list \<Rightarrow> bool" where
  "forward cs0 tr0 cs tr \<longleftrightarrow> server_state cs0 \<le> server_state cs \<and> prefix tr0 tr \<and>
     (\<forall>i c. umap_find (actor_connections cs0) i = Some c \<and> conn_socket c \<noteq> None \<longrightarrow>
        umap_find (actor_connections cs) i = Some c)"

definition runs_on :: "command_state \<Rightarrow> effect list \<Rightarrow> command_state \<Rightarrow> effect list \<Rightarrow> bool" where
  "runs_on cs0 tr0 cs tr \<longleftrightarrow> forward cs0 tr0 cs tr \<and> server_state cs \<noteq> SIMULATION_FINISHED"

lemma forward_refl [simp]: "forward cs tr cs tr"
  by (simp add: forward_def)

lemma forward_trans:
  assumes "forward cs0 tr0 cs1 tr1" "forward cs1 tr1 cs2 tr2"
  shows "forward cs0 tr0 cs2 tr2"
  using assms prefix_order.order_trans [of tr0 tr1 tr2] by (auto simp: forward_def)

interpretation runs: kept_by_commands "runs_on cs0 tr0" for cs0 tr0
proof
  fix cs tr cmd p d effs cs'
  assume r: "runs_on cs0 tr0 cs tr" and h: "handle_command cmd p cs = Inr (d, effs, cs')"
  have s: "server_state cs \<noteq> SIMULATION_FINISHED" using r by (simp add: runs_on_def)
  have "forward cs tr cs' (tr @ effs)"
    using command_moves_forward [OF h s] connections_are_final [OF h] by (simp add: forward_def)
  with r command_moves_forward [OF h s] show "runs_on cs0 tr0 cs' (tr @ effs)"
    using forward_trans by (auto simp: runs_on_def)
qed

section \<open>The turns of the loop\<close>

inductive turns :: "('k, 'x) serve_platform_scheme \<Rightarrow> 'k serve_state \<Rightarrow> 'k serve_state \<Rightarrow> bool" for P st where
  turns_none: "turns P st st"
| turns_others: "turns P st st1 \<Longrightarrow> others_ran st1 st2 \<Longrightarrow> turns P st st2"
| turns_one: "turns P st st1 \<Longrightarrow> \<not> ended st1 \<Longrightarrow> handle_events P st1 = Some (Inr False, st2) \<Longrightarrow>
    receive_message P st2 = Some (Inr (), st3) \<Longrightarrow> turns P st st3"

lemma register_forward:
  assumes "register_actor i q r cs = Inr (effs, cs')"
  shows "forward cs tr cs' (tr @ effs)"
  using assms by (auto simp: forward_def register_actor_def umap_simps split: if_splits)

lemma message_forward:
  assumes "handle_message P msg st = Some (Inr (), st')"
  shows "forward (commands st) (performed st) (commands st') (performed st')"
proof (cases msg)
  case (Im_actor_create i q r)
  then obtain effs cs where r: "register_actor i q r (commands st) = Inr (effs, cs)"
    "perform P effs (st\<lparr>commands := cs\<rparr>) = Some (Inr (), st')"
    using assms by (auto simp: handle_message_def io_Inr split: sum.splits)
  from perform_io [OF r(2)] have "commands st' = cs" "performed st' = performed st @ effs" by auto
  with register_forward [OF r(1)] show ?thesis by simp
qed (use assms in \<open>auto simp: handle_message_def finish_simulation_def io_Inr forward_def register_fd_def uses_fd_def
       split: option.splits\<close>)

lemma turn_forward:
  assumes "\<not> ended st" "handle_events P st = Some (Inr False, st1)" "receive_message P st1 = Some (Inr (), st2)"
  shows "forward (commands st) (performed st) (commands st2) (performed st2)"
proof -
  have "holds_in (runs_on (commands st) (performed st)) st"
    using assms(1) by (simp add: holds_in_def runs_on_def ended_def)
  from runs.keeps_events [OF assms(2) this]
  have f: "forward (commands st) (performed st) (commands st1) (performed st1)"
    by (simp add: holds_in_def runs_on_def)
  obtain msg k where pop: "pop_message P (system st1) = (msg, k)" by (cases "pop_message P (system st1)")
  show ?thesis
  proof (cases msg)
    case None
    with f pop assms(3) show ?thesis by (auto simp: receive_message_def io_Inr)
  next
    case (Some m)
    with pop assms(3) have "handle_message P m (st1\<lparr>system := k\<rparr>) = Some (Inr (), st2)"
      by (simp add: receive_message_def)
    from message_forward [OF this] f show ?thesis using forward_trans by auto
  qed
qed

text \<open>C21: the server never goes back: over any number of turns of the loop its state only moves on, in the
  order accepting actors, waiting for connections, running, killed, finished (so that a killed or
  finished server never runs a simulation again); what it has done stays done, in order; and a client
  that is connected to an actor stays its client.\<close>

theorem server_never_goes_back:
  assumes "turns P st st'"
  shows "server_state (commands st) \<le> server_state (commands st') \<and>
    prefix (performed st) (performed st') \<and>
    (\<forall>i c. umap_find (actor_connections (commands st)) i = Some c \<and> conn_socket c \<noteq> None \<longrightarrow>
       umap_find (actor_connections (commands st')) i = Some c)"
proof -
  have "forward (commands st) (performed st) (commands st') (performed st')"
    using assms
  proof (induction rule: turns.induct)
    case (turns_others st1 st2)
    then obtain o' k where "st2 = st1\<lparr>objects := o', system := k\<rparr>" unfolding others_ran_def by blast
    with turns_others.IH show ?case by simp
  next
    case (turns_one st1 st2 st3)
    then show ?case using turn_forward forward_trans by blast
  qed simp
  then show ?thesis by (simp add: forward_def)
qed

text \<open>The example of \<open>Serve_Loop\<close>: a client connects and starts the simulation.\<close>

theorem server_never_goes_back_witness:
  "turns example_server example_start example_launched \<and>
   server_state (commands example_start) \<le> server_state (commands example_launched) \<and>
   prefix (performed example_start) (performed example_launched)"
proof -
  have pop: "receive_message example_server st = Some (Inr (), st)" for st
    by (simp add: receive_message_def example_server_def return_io_def)
  have "turns example_server example_start example_accepted"
    by (rule turns_one [OF turns_none _ example_accept pop])
      (simp add: ended_def example_state_defs init_command_state_def)
  then have "turns example_server example_start example_launched"
    by (rule turns_one [OF _ _ example_launch pop])
      (simp add: ended_def example_state_defs init_command_state_def)
  then show ?thesis using server_never_goes_back by blast
qed

end
