(* ===== verification/Command_Line.thy ===== *)
theory Command_Line
  imports Simple_Commands Serve_Loop
begin

text \<open>
  The program \<^verbatim>\<open>rsg\<close> (\<^verbatim>\<open>src/rsg/main.cpp\<close>): the command line decides which command runs,
  with which arguments. The parser is the library docopt, which is not part of the repository: its
  result, for a usage that matched, is an argument (it ends the process itself otherwise).
\<close>

section \<open>The parsed arguments\<close>

datatype docopt_value =
    V_empty
  | V_bool bool
  | V_long int
  | V_string string
  | V_list "string list"

type_synonym docopt_args = "string \<Rightarrow> docopt_value"

text \<open>
  The accessors of docopt's values; None when they throw, which nothing catches. \<^verbatim>\<open>asLong\<close>
  converts a string, if it is a number.
\<close>

fun as_bool :: "docopt_value \<Rightarrow> bool option" where
  "as_bool (V_bool b) = Some b"
| "as_bool _ = None"

fun as_string :: "docopt_value \<Rightarrow> string option" where
  "as_string (V_string s) = Some s"
| "as_string _ = None"

fun as_string_list :: "docopt_value \<Rightarrow> string list option" where
  "as_string_list (V_list l) = Some l"
| "as_string_list _ = None"

fun as_long :: "(string \<Rightarrow> int option) \<Rightarrow> docopt_value \<Rightarrow> int option" where
  "as_long to_long (V_long i) = Some i"
| "as_long to_long (V_string s) = to_long s"
| "as_long to_long _ = None"

fun is_string :: "docopt_value \<Rightarrow> bool" where
  "is_string (V_string s) = True"
| "is_string _ = False"

definition or_abort :: "'a option \<Rightarrow> ('a \<Rightarrow> process_end option) \<Rightarrow> process_end option" where
  "or_abort x f = (case x of None \<Rightarrow> Some Aborts | Some y \<Rightarrow> f y)"

section \<open>The program\<close>

record 'k main_world =
  daemon_call :: "'k \<Rightarrow> bool \<times> 'k"
  to_long :: "string \<Rightarrow> int option"
  sleep_1ms :: "'k \<Rightarrow> 'k"
  process_calls :: process_world
  main_env :: environment

text \<open>How the process ends after \<^verbatim>\<open>serve\<close>: nothing catches its errors.\<close>

definition serve_end :: "(rsg_error + int) option \<Rightarrow> process_end option" where
  "serve_end r = (case r of None \<Rightarrow> None | Some (Inl e) \<Rightarrow> Some Aborts | Some (Inr code) \<Rightarrow> Some (Exits code []))"

definition main_serve :: "'k serve_platform \<Rightarrow> 'k main_world \<Rightarrow> docopt_args \<Rightarrow> int \<Rightarrow> 'k \<Rightarrow> process_end option" where
  "main_serve P L args server_port k =
     or_abort (as_string (args ''<platform-file>'')) (\<lambda>platform_file.
     or_abort (as_string_list (args ''<sg-options>'')) (\<lambda>simgrid_options.
     or_abort (as_bool (args ''--daemon'')) (\<lambda>as_daemon.
       if as_daemon
       then (case daemon_call L k of (ok, k') \<Rightarrow>
         if ok then serve_end (serve P server_port k') else Some (Exits 1 ''Could not daemon: %s''))
       else serve_end (serve P server_port k))))"

definition main_kill :: "'k serve_platform \<Rightarrow> docopt_args \<Rightarrow> string \<Rightarrow> int \<Rightarrow> 'k \<Rightarrow> process_end option" where
  "main_kill P args server_hostname server_port k =
     map_option fst (kill (platform.truncate P) server_hostname server_port
       (case args ''--reason'' of V_string r \<Rightarrow> r | _ \<Rightarrow> []) k)"

definition main_status :: "'k serve_platform \<Rightarrow> 'k main_world \<Rightarrow> docopt_args \<Rightarrow> string \<Rightarrow> int \<Rightarrow> 'k \<Rightarrow> process_end option" where
  "main_status P L args server_hostname server_port k =
     or_abort (if is_string (args ''--retry-timeout'')
         then map_option to_int32 (as_long (to_long L) (args ''--retry-timeout'')) else Some 0)
       (\<lambda>retry_timeout_ms. map_option fst
         (status (platform.truncate P) (sleep_1ms L) server_hostname server_port retry_timeout_ms k))"

definition main_add_actor :: "'k serve_platform \<Rightarrow> 'k main_world \<Rightarrow> docopt_args \<Rightarrow> string \<Rightarrow> int \<Rightarrow> 'k \<Rightarrow> process_end option" where
  "main_add_actor P L args server_hostname server_port k =
     or_abort (as_string (args ''<actor-name>'')) (\<lambda>actor_name.
     or_abort (as_string (args ''<sg-host>'')) (\<lambda>vhost_name.
     or_abort (as_string (args ''--think-time'')) (\<lambda>think_time.
     or_abort (as_bool (args ''--no-autoconnect'')) (\<lambda>no_autoconnect.
     or_abort (as_bool (args ''--no-fork'')) (\<lambda>no_fork.
     or_abort (as_string (args ''<command>'')) (\<lambda>command.
     or_abort (as_string_list (args ''<command-args>'')) (\<lambda>command_args.
       map_option fst (add_actor (platform.truncate P) (process_calls L) server_hostname server_port actor_name
         vhost_name think_time (\<not> no_autoconnect) (\<not> no_fork) command command_args (main_env L) k))))))))"

text \<open>The port is a \<^verbatim>\<open>long\<close> that becomes an \<^verbatim>\<open>int\<close>. Without any command the result is 0.\<close>

definition rsg_main :: "'k serve_platform \<Rightarrow> 'k main_world \<Rightarrow> docopt_args \<Rightarrow> 'k \<Rightarrow> process_end option" where
  "rsg_main P L args k =
     or_abort (as_string (args ''--hostname'')) (\<lambda>server_hostname.
     or_abort (map_option to_int32 (as_long (to_long L) (args ''--port''))) (\<lambda>server_port.
     or_abort (as_bool (args ''serve'')) (\<lambda>is_serve. if is_serve then main_serve P L args server_port k else
     or_abort (as_bool (args ''kill'')) (\<lambda>is_kill. if is_kill then main_kill P args server_hostname server_port k else
     or_abort (as_bool (args ''start'')) (\<lambda>is_start. if is_start
       then map_option fst (start (platform.truncate P) server_hostname server_port k) else
     or_abort (as_bool (args ''status'')) (\<lambda>is_status. if is_status
       then main_status P L args server_hostname server_port k else
     or_abort (as_bool (args ''add-actor'')) (\<lambda>is_add. if is_add
       then main_add_actor P L args server_hostname server_port k else Some (Exits 0 []))))))))"

section \<open>What the parser documents\<close>

text \<open>
  The values for a command line that matches the usage text of \<^verbatim>\<open>main.cpp\<close>: commands and flags
  are booleans, exactly one command is true, an option with a default is a string.
\<close>

definition subcommands :: "string list" where
  "subcommands = [''serve'', ''kill'', ''start'', ''status'', ''add-actor'']"

definition flag :: "docopt_args \<Rightarrow> string \<Rightarrow> bool" where
  "flag args x \<longleftrightarrow> args x = V_bool True"

definition matches_usage :: "docopt_args \<Rightarrow> bool" where
  "matches_usage args \<longleftrightarrow>
     (\<forall>x \<in> set subcommands \<union> {''--daemon'', ''--no-autoconnect'', ''--no-fork''}. \<exists>b. args x = V_bool b) \<and>
     (\<exists>!x. x \<in> set subcommands \<and> flag args x) \<and>
     (\<exists>h p t. args ''--hostname'' = V_string h \<and> args ''--port'' = V_string p \<and> args ''--think-time'' = V_string t) \<and>
     (flag args ''serve'' \<longrightarrow> (\<exists>f opts. args ''<platform-file>'' = V_string f \<and> args ''<sg-options>'' = V_list opts)) \<and>
     (flag args ''add-actor'' \<longrightarrow> (\<exists>a h c as. args ''<actor-name>'' = V_string a \<and> args ''<sg-host>'' = V_string h \<and>
        args ''<command>'' = V_string c \<and> args ''<command-args>'' = V_list as))"

section \<open>One port for all\<close>

lemma word16_of_int32 [simp]: "word_of_int (to_int32 p) = (word_of_int p :: u16)"
proof -
  have "take_bit 16 (signed_take_bit 31 p) = take_bit 16 p" by (simp add: take_bit_signed_take_bit)
  then have "signed_take_bit 31 p mod 65536 = p mod 65536" by (simp add: take_bit_eq_mod)
  then show ?thesis by (simp add: to_int32_def word_uint_eq_iff uint_word_of_int)
qed

lemma to_int32_range: "- (2 ^ 31) \<le> to_int32 p" "to_int32 p < 2 ^ 31"
  using signed_take_bit_int_greater_eq_minus_exp [of 31 p] signed_take_bit_int_less_exp [of 31 p]
  by (simp_all add: to_int32_def)

lemma ports_modulo:
  "serve P (to_int32 p) k = serve P p k" "kill Q h (to_int32 p) r k = kill Q h p r k"
  "start Q h (to_int32 p) k = start Q h p k" "status Q z h (to_int32 p) t k = status Q z h p t k"
  unfolding serve_def kill_def start_def status_def word16_of_int32 by (rule refl)+

lemma dispatch:
  assumes "matches_usage args" "x \<in> set subcommands" "flag args x"
  shows "y \<in> set subcommands \<Longrightarrow> args y = V_bool (y = x)"
proof -
  assume y: "y \<in> set subcommands"
  then obtain b where b: "args y = V_bool b" using assms(1) by (auto simp: matches_usage_def)
  moreover have "b \<longleftrightarrow> y = x"
    using assms y b unfolding matches_usage_def flag_def by (metis docopt_value.inject(1))
  ultimately show ?thesis by simp
qed

lemmas dispatch_simps = rsg_main_def main_serve_def main_kill_def main_status_def main_add_actor_def or_abort_def


text \<open>\<^verbatim>\<open>rsg start -p 70000\<close>\<close>

definition start_args :: docopt_args where
  "start_args x = (if x = ''--hostname'' then V_string ''127.0.0.1'' else if x = ''--port'' then V_string (decimal 70000)
     else if x = ''--think-time'' then V_string ''0'' else if x = ''--retry-timeout'' then V_empty
     else V_bool (x = ''start''))"

definition start_world :: "nat main_world" where
  "start_world = \<lparr>daemon_call = (\<lambda>k. (True, k)), to_long = stoi, sleep_1ms = id, process_calls = example_world,
     main_env = Map.empty\<rparr>"


end
