(* ===== verification/Spec2Isabelle.thy ===== *)
theory Spec2Isabelle
  imports Whole_Server Client_Threads Client_Fork Client_Lifecycle Server_Life Command_Line
begin

text \<open>
  A verification library of remote-simgrid: simulated actors of SimGrid that are controlled by remote
  processes. All paths are relative to the repository.

  \<^bold>\<open>The program.\<close> \<^verbatim>\<open>rsg serve\<close> runs a server of two threads. The command thread
  (\<^verbatim>\<open>src/rsg/serve.cpp\<close>) listens on a TCP port, handles the commands of the command line
  (\<^verbatim>\<open>rsg add-actor\<close>, \<^verbatim>\<open>start\<close>, \<^verbatim>\<open>status\<close>, \<^verbatim>\<open>kill\<close>) and of clients that connect, and
  launches the simulation when all the expected clients are there. The simulation thread
  (\<^verbatim>\<open>src/rsg/simulation.cpp\<close>) runs SimGrid with one actor per client; each actor is a loop that
  reads a decision from its client's connection, executes it and acknowledges it. The two threads
  exchange messages on lock-free queues (\<^verbatim>\<open>src/rsg/interthread_messaging.cpp\<close>). A client is any
  program linked to \<^verbatim>\<open>src/librsg\<close>, whose methods send decisions and read acknowledgments.
  Messages are Protocol Buffers (\<^verbatim>\<open>rsg.proto\<close>) with a length header
  (\<^verbatim>\<open>src/common/message.hpp\<close>) on sockets (\<^verbatim>\<open>src/common/network\<close>).

  \<^bold>\<open>Foundations.\<close>
  \<^item> \<open>Rsg_Prelude\<close>: types shared by all (machine words, \<open>double\<close> with its infinities and NaN, finite
    values being rational), unordered maps as association lists, collections of simplification rules.
  \<^item> \<open>Protocol\<close>: the messages of \<^verbatim>\<open>rsg.proto\<close>; \<open>Interthread\<close>: the inter-thread messages and the
    loop that waits for one.
  \<^item> \<open>Tcp_Socket\<close>: \<open>TcpSocket\<close>, \<open>TcpListener\<close>, \<open>Selector\<close> over a record of system calls; an operation is
    None when it never returns. The transfer loops move exactly the bytes they are asked to.
  \<^item> \<open>Message\<close>: \<open>write_message\<close>, \<open>read_message\<close>; round trip and limits; the exchange of a request and
    its reply with a peer that answers, which the client library and the command line share.

  \<^bold>\<open>The simulation thread.\<close>
  \<^item> \<open>Refcount_Store\<close>: \<open>RefcountStore\<close> of \<^verbatim>\<open>simulation.hpp\<close> and what the handler does to it. The
    locale \<open>refcounted\<close> is the contract of a table of counted handles, with one interpretation for each
    of the three tables.
  \<^item> \<open>Simgrid_Calls\<close>: a computation is a tree of calls to SimGrid, the queues and the socket, with
    every answer; \<open>Decision_Handler\<close>: every case of \<open>handle_decision\<close> as such a computation.
  \<^item> \<open>Server_Invariant\<close>, \<open>Handler_Safety\<close>: the invariant of the store and what keeps it while other
    actors run during a blocking call; \<open>Handler_Facts\<close>: what each kind of decision does, on success
    and on error.
  \<^item> \<open>Actor_Loop\<close>: \<open>Actor::operator()\<close>; \<open>Actor_System\<close>: all actors as an interleaving step relation,
    where SimGrid switches only at its calls. No undefined behaviour, strict alternation of decisions
    and acknowledgments, mutual exclusion, in every reachable state. The first rests on a discipline of
    the clients: nobody waits on a communication whose handle is being released. \<open>Turn_Handles\<close>: which
    handles a turn waits on, gives away and releases.
  \<^item> \<open>Launch\<close>: from the expected connections to the actors (\<open>start_simulation_in_another_thread\<close>,
    \<open>start_simulation\<close>, \<open>maestro\<close>).

  \<^bold>\<open>The command thread.\<close>
  \<^item> \<open>Command_Server\<close>: \<open>handle_command\<close> and its life cycle (\<open>lives\<close>, with the invariant \<open>cs_ok\<close>).
  \<^item> \<open>Barely_Connected\<close>: the incremental reader of commands, equivalent to \<open>read_message\<close>.
  \<^item> \<open>Serve_Loop\<close>: \<open>serve\<close> and \<open>close_open_sockets\<close>. The relation \<open>serves\<close> has the turns of the loop and
    the steps of the other threads; the loop runs the life cycle of \<open>Command_Server\<close> and keeps every
    socket in exactly one place; two ways in which a client ends the server. The locale
    \<open>kept_by_commands\<close> is the contract of what every command keeps, with an interpretation for the
    life cycle and one in \<open>Server_Life\<close>, where the server's states are ordered and no turn goes back.

  \<^bold>\<open>The two threads together.\<close>
  \<^item> \<open>Turn_Queues\<close>: what an actor does with the inter-thread queues, call by call: the creation of an
    actor, from its two new queues to the acknowledgment that tells the identifier, and the prologue in which
    the new actor waits for its client. All other turns leave the queues alone.
  \<^item> \<open>Queue_Channels\<close>: the invariant \<open>channels\<close> gives every actor a stage of the creation, and every queue to
    the one stage that reads it; every step of an actor and of the command thread keeps it.
  \<^item> \<open>Whole_Server\<close>: the relation \<open>whole_step\<close> composes the commands and reports of \<open>Command_Server\<close>, the
    launch of \<open>Launch\<close> and the steps of \<open>Actor_System\<close> through the queue to the command thread and the queues
    to the actors. The consequences of \<open>channels\<close>: each side finds the message it expects and never waits
    for one that nobody will send, no queue is used after its deletion, a creation is acknowledged, every
    actor serves the client that connected as that actor, a client that quits is announced once (which
    \<open>Serve_Loop\<close> supposes of a message), and a client that is told an identifier can connect. A push and a
    pop are atomic here, and a push succeeds (at most one message is ever in a queue to an actor).

  \<^bold>\<open>The clients.\<close>
  \<^item> \<open>Client_Api\<close>: the methods of the library (\<^verbatim>\<open>actor.cpp\<close>, \<^verbatim>\<open>comm.cpp\<close>,
    \<^verbatim>\<open>mailbox.cpp\<close> and the others) as a decision and a reading of its acknowledgment. They agree
    with the server on every acknowledgment; what a client sees of the server's behaviour.
  \<^item> \<open>Client_Connection\<close>: \<^verbatim>\<open>connection.cpp\<close>: environment, handshake, decisions, thinking time.
  \<^item> \<open>Client_Objects\<close>: the objects of the library and the shared pointers to them (\<^verbatim>\<open>pointers.hpp\<close>), with
    the destructors that release handles; the relation \<open>clients_step\<close> runs client threads that make,
    copy, pass and drop pointers and call methods on the objects they hold, together with the server.
    \<open>Client_Handles\<close>: without \<^verbatim>\<open>fork\<close> the pointers keep the discipline that \<open>Actor_System\<close>
    supposes, so the server's memory safety holds for whatever the clients do through the library.
    \<open>Client_Fork\<close>: with \<^verbatim>\<open>fork\<close> they do not, by a run that ends in an undefined behaviour of the server.
  \<^item> \<open>Client_Threads\<close>: \<^verbatim>\<open>actor_wrapper\<close>, \<^verbatim>\<open>Actor::create\<close>, \<^verbatim>\<open>Actor::fork\<close> and
    the joining destructor of the connection, as labelled steps of threads. The relation \<open>world_step\<close>
    runs the threads of all client processes together with the server of \<open>Actor_System\<close>, to which they
    are connected by what each side has written and read. The invariants follow a decision from the
    thread to the server and its acknowledgment back; with the mutual exclusion of the server's actors
    they give that of the clients. The semaphore of \<open>create\<close> and the joining of children have
    invariants of their own.
  \<^item> \<open>Simple_Commands\<close>: \<^verbatim>\<open>simple_commands.cpp\<close>: the exit codes, the retry loop of \<open>status\<close>, and the
    agreement of what \<open>add_actor\<close> prepares with what the client library reads.
  \<^item> \<open>Remote_Session\<close>: the locale \<open>remote_object\<close>, a server as a state machine on requests, and its client
    lemma on lists of requests; decisions and commands are its two interpretations.
  \<^item> \<open>Client_Lifecycle\<close>: \<^verbatim>\<open>connect\<close> and \<^verbatim>\<open>disconnect\<close> on the thread's connection, the functions that the
    shared object runs when it is loaded and unloaded, and between them a user's program as a tree of decisions:
    all that a client process sends, and that its program cannot tell the remote server from a local one.
  \<^item> \<open>Command_Line\<close>: \<^verbatim>\<open>main.cpp\<close> after the parsing: which command runs, with which arguments.

  \<^bold>\<open>Conventions.\<close> Assertions (\<^verbatim>\<open>RSG_ASSERT\<close>) are enabled. An error is its format string, except
  where the code looks at its text. Addresses and iterators are identities. A number of bytes fits
  \<^verbatim>\<open>size_t\<close>; everything narrower keeps its width. There is no fuel: loops are structural, have a
  measure, or are partial functions whose None is proved or excluded. The facts on the identifiers of
  the initial actors suppose fewer than 2^31 - 2 of them (\<open>fits\<close>), as \<^verbatim>\<open>int\<close> does, and those of
  \<open>Whole_Server\<close> suppose it of all actors ever created.

  \<^bold>\<open>Not modelled.\<close> SimGrid (a parameter that answers calls, with the behaviour it documents as a
  hypothesis), the Protocol Buffers encoding (a codec), the parsing of the command line (docopt), the
  logs, the operating system (a record of calls). In \<open>Client_Threads\<close> a message is written and read as a
  whole (the bytes are the matter of \<open>Message\<close> and \<open>Remote_Session\<close>), and the user's code does not
  connect or disconnect by itself. In \<open>Client_Objects\<close> a decision is sent and read in one step, as is its
  acknowledgment, and the buffers that user code gives to \<^verbatim>\<open>put_async\<close> and \<^verbatim>\<open>get_async\<close> are not followed.
\<close>

end
